(* ===== verification/Prelude.thy ===== *)
theory Prelude
  imports Main "HOL-Library.Word" "HOL-Library.List_Lexorder" "HOL-Library.Monad_Syntax"
begin

text \<open>
  Shared vocabulary of the development: the machine types of the Go program, the fact
  collections the components extend, and the generic list and word lemmas that more than
  one component uses.

  A Go \<^verbatim>\<open>[]byte\<close> is a \<open>slice\<close>: \<open>None\<close> is the nil slice, \<open>Some b\<close> a slice with
  contents \<open>b\<close>.  The program compares slices with nil in several places, so the two
  empty slices are kept apart; \<open>contents\<close> forgets the difference, as \<^verbatim>\<open>len\<close>,
  \<^verbatim>\<open>bytes.Equal\<close> and \<^verbatim>\<open>bytes.Compare\<close> do.  Slices are values here: mutation of a
  caller's backing array after a call is outside the model.
\<close>

named_theorems tree_simps \<open>what the operations of a B-tree do to its list of items\<close>
named_theorems view_simps \<open>what the operations of a store do to its abstract view\<close>
named_theorems run_defs \<open>definitions unfolded when a concrete input is evaluated\<close>

declare Let_def [run_defs]

type_synonym byte = "8 word"
type_synonym bytes = "byte list"
type_synonym slice = "bytes option"
type_synonym u64 = "64 word"
type_synonym time = int

definition contents :: "slice \<Rightarrow> bytes" where
  "contents s = (case s of None \<Rightarrow> [] | Some b \<Rightarrow> b)"

definition len :: "slice \<Rightarrow> nat" where
  "len s = length (contents s)"

lemma contents_simps [simp]: "contents None = []" "contents (Some b) = b"
  by (simp_all add: contents_def)

lemma len_simps [simp]: "len None = 0" "len (Some b) = length b"
  by (simp_all add: len_def)

lemma len_0_iff: "len s = 0 \<longleftrightarrow> contents s = []"
  by (simp add: len_def)

subsection \<open>Lists\<close>

lemma last_filter_in: "filter P xs \<noteq> [] \<Longrightarrow> last (filter P xs) \<in> set xs \<and> P (last (filter P xs))"
  using last_in_set [of "filter P xs"] by simp

lemma sorted_wrt_last:
  assumes "sorted_wrt R xs" "x \<in> set xs" "x \<noteq> last xs"
  shows "R x (last xs)"
proof -
  from assms(2) have "xs \<noteq> []" by auto
  then have xs: "xs = butlast xs @ [last xs]" by simp
  with assms(2,3) have "x \<in> set (butlast xs)"
    by (metis Un_iff empty_iff empty_set set_ConsD set_append)
  with assms(1) show ?thesis
    by (subst (asm) xs) (simp add: sorted_wrt_append)
qed

lemma sorted_wrt_filter_eq:
  assumes "sorted_wrt R xs" "sorted_wrt R ys" "set xs = set ys"
    and "\<And>x y. R x y \<Longrightarrow> \<not> R y x"
  shows "xs = ys"
  using assms(1-3)
proof (induction xs arbitrary: ys)
  case Nil
  then show ?case by simp
next
  case (Cons x xs)
  then obtain y ys' where ys: "ys = y # ys'" by (cases ys) auto
  have irr: "\<not> R z z" for z using assms(4) by blast
  have xy: "x = y"
  proof (rule ccontr)
    assume "x \<noteq> y"
    with Cons.prems ys have "x \<in> set ys'" "y \<in> set xs" by auto
    with Cons.prems ys have "R y x" "R x y" by auto
    with assms(4) show False by blast
  qed
  with Cons.prems ys have "x \<notin> set xs" "y \<notin> set ys'" using irr by auto
  with Cons.prems ys xy have "set xs = set ys'" by auto
  with Cons ys xy show ?case by auto
qed

lemma takeWhile_eq_filter_sorted:
  assumes "sorted_wrt R xs" and "\<And>x y. R x y \<Longrightarrow> P y \<Longrightarrow> P x"
  shows "takeWhile P xs = filter P xs"
  using assms(1)
proof (induction xs)
  case (Cons x xs)
  show ?case
  proof (cases "P x")
    case False
    with Cons.prems assms(2) have "filter P xs = []" by (auto simp: filter_empty_conv)
    with False show ?thesis by simp
  qed (use Cons in simp)
qed simp

lemma dropWhile_eq_filter_sorted:
  assumes "sorted_wrt R xs" and "\<And>x y. R x y \<Longrightarrow> P y \<Longrightarrow> P x"
  shows "dropWhile P xs = filter (\<lambda>x. \<not> P x) xs"
  using assms(1)
proof (induction xs)
  case (Cons x xs)
  show ?case
  proof (cases "P x")
    case False
    with Cons.prems assms(2) have "filter (\<lambda>x. \<not> P x) xs = xs" by (auto simp: filter_id_conv)
    with False show ?thesis by simp
  qed (use Cons in simp)
qed simp

text \<open>Running a callback over a list until it asks to stop, as a loop with a break does.\<close>

fun fold_while :: "('a \<Rightarrow> 's \<Rightarrow> bool \<times> 's) \<Rightarrow> 'a list \<Rightarrow> 's \<Rightarrow> 's" where
  "fold_while f [] s = s"
| "fold_while f (x # xs) s = (case f x s of (continue, s') \<Rightarrow> if continue then fold_while f xs s' else s')"

lemma fold_while_True:
  assumes "\<And>x s. fst (f x s)"
  shows "fold_while f xs s = fold (\<lambda>x s. snd (f x s)) xs s"
  by (induction xs arbitrary: s) (use assms in \<open>simp_all add: case_prod_beta\<close>)

lemma option_ext: "(\<And>v. a = Some v \<longleftrightarrow> b = Some v) \<Longrightarrow> a = b"
  by (metis not_Some_eq)

text \<open>
  For evaluation: rewrite the first computation of a sequence only, so that recursive calls
  in the rest are not unfolded before their argument is known.
\<close>

lemma bind_weak_cong: "m = m' \<Longrightarrow> Option.bind m f = Option.bind m' f"
  by simp

lemma map_option_weak_cong: "m = m' \<Longrightarrow> map_option f m = map_option f m'"
  by simp

subsection \<open>Words\<close>

text \<open>The largest value of a word is \<open>- 1\<close>; below it the successor does not wrap.\<close>

lemma unat_plus_1: "v \<noteq> - 1 \<Longrightarrow> unat (v + (1 :: 'a::len word)) = Suc (unat v)"
  by (metis add.commute add_eq_0_iff unatSuc)

lemma word_less_plus_1: "v \<noteq> - 1 \<Longrightarrow> v < v + (1 :: 'a::len word)"
  by (simp add: word_less_nat_alt unat_plus_1)

lemma word_plus_1_neq_0: "v \<noteq> - 1 \<Longrightarrow> v + (1 :: 'a::len word) \<noteq> 0"
  by (metis add_eq_0_iff2)

end
