(* ===== verification/Bytes.thy ===== *)
theory Bytes
  imports Prelude
begin

text \<open>
  Byte strings: what the program uses of Go's \<^verbatim>\<open>bytes\<close> package, the comparison helpers
  \<^verbatim>\<open>lt\<close> and \<^verbatim>\<open>gte\<close>, and \<^verbatim>\<open>bytesPrefixEnd\<close> (\<^verbatim>\<open>memory/iter.go\<close>; the other
  packages carry copies).  The lemmas show that \<^verbatim>\<open>bytes.Compare\<close> is the lexicographic
  order of the library and that \<^verbatim>\<open>bytesPrefixEnd\<close> bounds exactly the extensions of a
  prefix, except for the all-\<^verbatim>\<open>0xff\<close> prefixes where it gives the prefix back.
\<close>

fun bytes_Compare :: "bytes \<Rightarrow> bytes \<Rightarrow> int" where
  "bytes_Compare [] [] = 0"
| "bytes_Compare [] (y # ys) = - 1"
| "bytes_Compare (x # xs) [] = 1"
| "bytes_Compare (x # xs) (y # ys) =
     (if x < y then - 1 else if y < x then 1 else bytes_Compare xs ys)"

definition bytes_Equal :: "slice \<Rightarrow> slice \<Rightarrow> bool" where
  "bytes_Equal a b \<longleftrightarrow> contents a = contents b"

fun bytes_HasPrefix :: "bytes \<Rightarrow> bytes \<Rightarrow> bool" where
  "bytes_HasPrefix s [] = True"
| "bytes_HasPrefix [] (p # ps) = False"
| "bytes_HasPrefix (x # s) (p # ps) = (x = p \<and> bytes_HasPrefix s ps)"

definition gte :: "slice \<Rightarrow> slice \<Rightarrow> bool" where
  "gte a b \<longleftrightarrow> bytes_Compare (contents a) (contents b) > - 1"

definition lt :: "slice \<Rightarrow> slice \<Rightarrow> bool" where
  "lt a b \<longleftrightarrow> bytes_Compare (contents a) (contents b) = - 1"

text \<open>
  The loop of \<^verbatim>\<open>bytesPrefixEnd\<close>: \<open>i\<close> counts down from the length, the byte before
  position \<open>i\<close> is incremented in the copy with wrap-around, and the first byte that
  does not wrap to zero ends the loop with the copy cut after it.
\<close>

fun bytesPrefixEnd_loop :: "bytes \<Rightarrow> nat \<Rightarrow> bytes option" where
  "bytesPrefixEnd_loop end' 0 = None"
| "bytesPrefixEnd_loop end' (Suc i) =
     (let e = end'[i := end' ! i + 1]
      in if e ! i \<noteq> 0 then Some (take (Suc i) e) else bytesPrefixEnd_loop e i)"

definition bytesPrefixEnd :: "slice \<Rightarrow> slice" where
  "bytesPrefixEnd b =
     (case bytesPrefixEnd_loop (contents b) (len b) of Some e \<Rightarrow> Some e | None \<Rightarrow> b)"

declare lt_def [run_defs] gte_def [run_defs] bytes_Equal_def [run_defs] bytesPrefixEnd_def [run_defs]

text \<open>The conversions \<^verbatim>\<open>[]byte(s)\<close> and \<^verbatim>\<open>string(b)\<close>; a Go string is a list of its bytes.\<close>

definition go_bytes :: "string \<Rightarrow> slice" where
  "go_bytes s = Some (map (\<lambda>c. word_of_nat (of_char c)) s)"

definition go_string :: "slice \<Rightarrow> string" where
  "go_string b = map (\<lambda>x. char_of (unat x)) (contents b)"

lemma go_string_bytes [simp]: "go_string (go_bytes s) = s"
  by (simp add: go_string_def go_bytes_def comp_def unat_of_nat)

subsection \<open>Comparison is the lexicographic order\<close>

lemma bytes_Compare_cases: "bytes_Compare a b \<in> {- 1, 0, 1}"
  by (induction a b rule: bytes_Compare.induct) auto

lemma bytes_Compare_less: "bytes_Compare a b = - 1 \<longleftrightarrow> a < b"
  by (induction a b rule: bytes_Compare.induct) auto

lemma bytes_Compare_greater: "bytes_Compare a b = 1 \<longleftrightarrow> b < a"
  by (induction a b rule: bytes_Compare.induct) auto

lemma bytes_Compare_0: "bytes_Compare a b = 0 \<longleftrightarrow> a = b"
  by (induction a b rule: bytes_Compare.induct) auto

lemma lt_iff: "lt a b \<longleftrightarrow> contents a < contents b"
  by (simp add: lt_def bytes_Compare_less)

lemma gte_iff: "gte a b \<longleftrightarrow> contents b \<le> contents a"
proof -
  have "bytes_Compare (contents a) (contents b) > - 1 \<longleftrightarrow>
      bytes_Compare (contents a) (contents b) \<noteq> - 1"
    using bytes_Compare_cases [of "contents a" "contents b"] by auto
  then show ?thesis
    by (simp add: gte_def bytes_Compare_less not_less)
qed

lemma HasPrefix_iff: "bytes_HasPrefix s p \<longleftrightarrow> (\<exists>t. s = p @ t)"
  by (induction s p rule: bytes_HasPrefix.induct) auto

lemma append_less_append [simp]: "(p :: bytes) @ a < p @ b \<longleftrightarrow> a < b"
  by (induction p) auto

lemma append_le_append [simp]: "(p :: bytes) @ a \<le> p @ b \<longleftrightarrow> a \<le> b"
  by (induction p) auto

lemma le_append [simp]: "(p :: bytes) \<le> p @ a"
  by (induction p) auto

subsection \<open>The end of a prefix\<close>

lemma loop_append:
  assumes "length p = n" and "b \<noteq> - 1"
  shows "bytesPrefixEnd_loop (p @ b # ys) (Suc n) = Some (p @ [b + 1])"
  using assms word_plus_1_neq_0 [of b] by (simp add: nth_append list_update_append)

lemma loop_max:
  assumes "length p = n"
  shows "bytesPrefixEnd_loop (p @ - 1 # ys) (Suc n) = bytesPrefixEnd_loop (p @ 0 # ys) n"
  using assms by (simp add: nth_append list_update_append)

lemma loop_all_max:
  assumes "length xs = n"
  shows "bytesPrefixEnd_loop (replicate n (- 1) @ ys) n = None"
proof (induction n arbitrary: ys)
  case (Suc n)
  have "replicate (Suc n) (- 1 :: byte) @ ys = replicate n (- 1) @ - 1 # ys"
    by (simp add: replicate_app_Cons_same)
  with Suc loop_max [of "replicate n (- 1)" n ys] show ?case by simp
qed simp

lemma loop_split:
  assumes "b \<noteq> - 1"
  shows "bytesPrefixEnd_loop ((p @ [b]) @ replicate n (- 1) @ ys) (Suc (length p) + n) = Some (p @ [b + 1])"
proof (induction n arbitrary: ys)
  case 0
  with assms loop_append [of p "length p" b ys] show ?case by simp
next
  case (Suc n)
  have eq: "(p @ [b]) @ replicate (Suc n) (- 1) @ ys = ((p @ [b]) @ replicate n (- 1)) @ - 1 # ys"
    by (simp add: replicate_app_Cons_same)
  have "length ((p @ [b]) @ replicate n (- 1 :: byte)) = Suc (length p) + n" by simp
  from loop_max [OF this, of ys] Suc.IH [of "0 # ys"] show ?case
    unfolding eq by (simp only: add_Suc_right append_assoc)
qed

text \<open>Every byte string is all \<^verbatim>\<open>0xff\<close> or ends in a byte that can grow, then \<^verbatim>\<open>0xff\<close>s.\<close>

definition all_ff :: "bytes \<Rightarrow> bool" where
  "all_ff b \<longleftrightarrow> (\<forall>x \<in> set b. x = - 1)"

lemma all_ff_replicate: "all_ff b \<longleftrightarrow> b = replicate (length b) (- 1)"
  by (induction b) (auto simp: all_ff_def)

lemma bytes_split:
  assumes "\<not> all_ff b"
  obtains p x n where "b = p @ [x] @ replicate n (- 1)" "x \<noteq> - 1"
  using assms
proof (induction b arbitrary: thesis rule: rev_induct)
  case (snoc y ys)
  show ?case
  proof (cases "y = - 1")
    case False
    with snoc.prems(1) [of ys y 0] show ?thesis by simp
  next
    case True
    with snoc.prems(2) have "\<not> all_ff ys" by (auto simp: all_ff_def)
    then obtain p x n where "ys = p @ [x] @ replicate n (- 1)" "x \<noteq> - 1"
      using snoc.IH by blast
    with True snoc.prems(1) [of p x "Suc n"] show ?thesis
      by (simp add: replicate_append_same)
  qed
qed (simp add: all_ff_def)

lemma bytesPrefixEnd_all_ff: "all_ff (contents b) \<Longrightarrow> bytesPrefixEnd b = b"
  using loop_all_max [of "contents b" "len b" "[]"]
  by (simp add: bytesPrefixEnd_def all_ff_replicate len_def)

lemma bytesPrefixEnd_split:
  assumes "contents b = p @ [x] @ replicate n (- 1)" "x \<noteq> - 1"
  shows "bytesPrefixEnd b = Some (p @ [x + 1])"
  using loop_split [OF assms(2), of p n "[]"] assms(1)
  by (simp add: bytesPrefixEnd_def len_def)

lemma less_snoc_iff:
  assumes "x \<noteq> - 1"
  shows "(p :: bytes) @ [x] @ replicate n (- 1) \<le> k \<and> k < p @ [x + 1] \<longleftrightarrow>
    (\<exists>t. k = p @ [x] @ replicate n (- 1) @ t)"
proof (induction p arbitrary: k)
  case (Cons y p)
  show ?case by (cases k) (use Cons in auto)
next
  case Nil
  have rep: "replicate n (- 1) \<le> ks \<longleftrightarrow> (\<exists>t. ks = replicate n (- 1) @ t)" for ks :: bytes
  proof (induction n arbitrary: ks)
    case (Suc n)
    have top: "\<not> (- 1 :: byte) < y" for y by simp
    show ?case by (cases ks) (use Suc top in auto)
  qed simp
  have step: "x < y \<and> y < x + 1 \<longleftrightarrow> False" for y
    using unat_plus_1 [OF assms] by (auto simp: word_less_nat_alt)
  have "x < x + 1" using assms by (rule word_less_plus_1)
  with rep step show ?case
    by (cases k) auto
qed

text \<open>
  The interval from a prefix to its end holds exactly the extensions of the prefix, for
  every prefix with a byte below \<^verbatim>\<open>0xff\<close>.
\<close>

lemma bytesPrefixEnd_interval:
  assumes "\<not> all_ff (contents b)"
  shows "contents b \<le> k \<and> k < contents (bytesPrefixEnd b) \<longleftrightarrow> bytes_HasPrefix k (contents b)"
proof -
  from assms obtain p x n where b: "contents b = p @ [x] @ replicate n (- 1)" and x: "x \<noteq> - 1"
    by (rule bytes_split)
  from bytesPrefixEnd_split [OF this] have "contents (bytesPrefixEnd b) = p @ [x + 1]" by simp
  with less_snoc_iff [OF x, of p n k] b show ?thesis
    by (simp add: HasPrefix_iff)
qed

subsection \<open>Order in the direction of an iteration\<close>

definition dless :: "bool \<Rightarrow> bytes \<Rightarrow> bytes \<Rightarrow> bool" where
  "dless rvs a b \<longleftrightarrow> (if rvs then b < a else a < b)"

definition dle :: "bool \<Rightarrow> bytes \<Rightarrow> bytes \<Rightarrow> bool" where
  "dle rvs a b \<longleftrightarrow> a = b \<or> dless rvs a b"

lemma dless_trans: "dless r a b \<Longrightarrow> dless r b c \<Longrightarrow> dless r a c"
  by (auto simp: dless_def split: if_splits)

lemma dless_irrefl [simp]: "\<not> dless r a a"
  by (simp add: dless_def)

lemma dless_linear: "dless r a b \<or> a = b \<or> dless r b a"
  by (auto simp: dless_def)

lemma dle_dless_trans: "dle r a b \<Longrightarrow> dless r b c \<Longrightarrow> dless r a c"
  by (auto simp: dle_def intro: dless_trans)

lemma dless_simps [simp]: "dless False a b \<longleftrightarrow> a < b" "dless True a b \<longleftrightarrow> b < a"
  by (simp_all add: dless_def)

text \<open>Strings between two with a common prefix have that prefix.\<close>

lemma between_prefix:
  "(p :: bytes) @ a \<le> k \<Longrightarrow> k < p @ b \<Longrightarrow> \<exists>t. k = p @ t"
proof (induction p arbitrary: k)
  case (Cons x p)
  then obtain y k' where k: "k = y # k'" by (cases k) auto
  with Cons.prems have "x = y" "p @ a \<le> k'" "k' < p @ b" by auto
  with Cons.IH [of k'] k show ?case by auto
qed simp

lemma all_ff_append [simp]: "all_ff (a @ b) \<longleftrightarrow> all_ff a \<and> all_ff b"
  by (auto simp: all_ff_def)

lemma HasPrefix_append [simp]: "bytes_HasPrefix (p @ k) (p @ q) \<longleftrightarrow> bytes_HasPrefix k q"
  by (induction p) auto

end
