(* ===== verification/CoreKV.thy ===== *)
theory CoreKV
  imports Bytes
begin

text \<open>
  The root package: the errors of \<^verbatim>\<open>error.go\<close>, the iterator options of \<^verbatim>\<open>kv.go\<close> and
  the context functions of \<^verbatim>\<open>txn.go\<close>, with what they use of Go's \<^verbatim>\<open>errors\<close> and
  \<^verbatim>\<open>context\<close> packages.
\<close>

subsection \<open>Errors\<close>

text \<open>
  The sentinel errors, an error of another package carrying its message, and the value
  \<^verbatim>\<open>errors.Join\<close> builds.  \<open>Panic\<close> is no Go error: it stands for a run-time panic, such as
  a slice expression out of bounds, where a function returns no value.  A Go result \<^verbatim>\<open>(v, err)\<close> is a sum: \<open>Inl\<close> the error,
  \<open>Inr\<close> the value.  A bare \<^verbatim>\<open>error\<close> result is an option.
\<close>

datatype kverror =
    ErrNotFound
  | ErrEmptyKey
  | ErrValueNil
  | ErrDiscardedTxn
  | ErrDBClosed
  | ErrTxnConflict
  | ErrReadOnlyTxn
  | ErrForeign string
  | ErrJoin "kverror list"
  | Panic string

type_synonym 'a res = "kverror + 'a"
type_synonym err = "kverror option"

fun join_lines :: "string list \<Rightarrow> string" where
  "join_lines [] = []"
| "join_lines [s] = s"
| "join_lines (s # ss) = s @ CHR 0x0A # join_lines ss"

fun Error :: "kverror \<Rightarrow> string" where
  "Error ErrNotFound = ''key not found''"
| "Error ErrEmptyKey = ''empty key''"
| "Error ErrValueNil = ''value is nil''"
| "Error ErrDiscardedTxn = ''transaction discarded''"
| "Error ErrDBClosed = ''datastore closed''"
| "Error ErrTxnConflict = ''transaction conflict. Please retry''"
| "Error ErrReadOnlyTxn = ''read only transaction''"
| "Error (ErrForeign msg) = msg"
| "Error (ErrJoin es) = join_lines (map Error es)"
| "Error (Panic msg) = msg"

text \<open>\<^verbatim>\<open>errors.Join\<close> drops nil errors and is nil when nothing is left.\<close>

definition errors_Join :: "err list \<Rightarrow> err" where
  "errors_Join es =
     (case List.map_filter id es of [] \<Rightarrow> None | xs \<Rightarrow> Some (ErrJoin xs))"

fun errors_Is :: "kverror \<Rightarrow> kverror \<Rightarrow> bool" where
  "errors_Is (ErrJoin es) target = (ErrJoin es = target \<or> (\<exists>e \<in> set es. errors_Is e target))"
| "errors_Is e target = (e = target)"

lemma errors_Join_nil [simp]: "errors_Join [None, None] = None"
  by (simp add: errors_Join_def List.map_filter_def)

lemma errors_Join_None_iff: "errors_Join es = None \<longleftrightarrow> (\<forall>e \<in> set es. e = None)"
proof -
  have "List.map_filter id es = [] \<longleftrightarrow> (\<forall>e \<in> set es. e = None)"
    by (induction es) (auto simp: List.map_filter_def)
  then show ?thesis
    by (cases "List.map_filter id es") (auto simp: errors_Join_def)
qed

subsection \<open>Iterator options\<close>

record IterOptions =
  Prefix :: slice
  Start :: slice
  End :: slice
  Reverse :: bool
  KeysOnly :: bool

definition DefaultIterOptions :: IterOptions where
  "DefaultIterOptions =
     \<lparr>Prefix = None, Start = None, End = None, Reverse = False, KeysOnly = False\<rparr>"

subsection \<open>Transactions in a context\<close>

text \<open>
  A Go context is a chain of \<^verbatim>\<open>WithValue\<close> links; \<^verbatim>\<open>Value\<close> finds the innermost link
  with the key.  A type assertion \<^verbatim>\<open>.(T)\<close> on the value found is a partial function
  \<open>assert\<close> from the dynamic values to \<open>T\<close>; asserting on a missing value fails.  In the
  \<^verbatim>\<open>MustGet\<close> functions \<open>None\<close> is the panic.
\<close>

datatype ctxkey = CtxTxnKey | OtherKey nat

datatype 'v ctx = Background | WithValue "'v ctx" ctxkey 'v

fun ctx_Value :: "'v ctx \<Rightarrow> ctxkey \<Rightarrow> 'v option" where
  "ctx_Value Background k = None"
| "ctx_Value (WithValue c k' v) k = (if k = k' then Some v else ctx_Value c k)"

definition TryGetCtxTxnG :: "('v \<Rightarrow> 't option) \<Rightarrow> 'v ctx \<Rightarrow> 't option" where
  "TryGetCtxTxnG assert ctx = Option.bind (ctx_Value ctx CtxTxnKey) assert"

definition TryGetCtxTxn :: "'v ctx \<Rightarrow> 'v option" where
  "TryGetCtxTxn ctx = TryGetCtxTxnG Some ctx"

definition MustGetCtxTxnG :: "('v \<Rightarrow> 't option) \<Rightarrow> 'v ctx \<Rightarrow> 't option" where
  "MustGetCtxTxnG assert ctx =
     (case ctx_Value ctx CtxTxnKey of None \<Rightarrow> None | Some v \<Rightarrow> assert v)"

definition MustGetCtxTxn :: "'v ctx \<Rightarrow> 'v option" where
  "MustGetCtxTxn ctx = MustGetCtxTxnG Some ctx"

definition SetCtxTxn :: "'v ctx \<Rightarrow> 'v \<Rightarrow> 'v ctx" where
  "SetCtxTxn ctx txn = WithValue ctx CtxTxnKey txn"

text \<open>
  The innermost transaction wins whatever the context held before, a value of another
  type is not found by the typed lookup, and no other key is disturbed.
\<close>

lemma SetCtxTxn_lookup:
  "TryGetCtxTxnG assert (SetCtxTxn ctx txn) = assert txn \<and>
   MustGetCtxTxnG assert (SetCtxTxn ctx txn) = assert txn \<and>
   (k \<noteq> CtxTxnKey \<longrightarrow> ctx_Value (SetCtxTxn ctx txn) k = ctx_Value ctx k)"
  by (simp add: TryGetCtxTxnG_def MustGetCtxTxnG_def SetCtxTxn_def)

end
