(* ===== verification/BTree.thy ===== *)
theory BTree
  imports Prelude
begin

text \<open>
  The ordered container the in-memory store is built on, \<^verbatim>\<open>github.com/tidwall/btree\<close>,
  is a foreign package.  It enters the development as a record of operations, an argument
  of every definition that uses it, and as the locale \<open>btree\<close>, the part of its
  documentation the store relies on.  A tree is seen through \<open>items\<close>, its items in
  ascending order of the comparison function given to \<^verbatim>\<open>NewBTreeG\<close>; an iterator through
  \<open>its\<close>, the items it runs over, and \<open>pos\<close>, where it rests.

  The locale says nothing about an iterator that was moved before the first item: there
  the package misbehaves (\<^verbatim>\<open>memory/iter_test.go\<close>, \<^verbatim>\<open>TestBTreePrevBug\<close>).  The same test
  documents the law \<open>next_last\<close>: a \<^verbatim>\<open>Next\<close> that fails at the last item leaves the
  iterator on it, so that \<^verbatim>\<open>Prev\<close> moves to the item before.
  Locks (\<^verbatim>\<open>Iter\<close> holds the tree's lock until \<^verbatim>\<open>Release\<close>) are not modelled: an iterator
  runs over the items the tree had when it was made, which is what the lock guarantees.
\<close>

datatype cursor = Fresh | At nat | Past | Lost

record ('t, 'a, 'i) btree_ops =
  bt_new :: 't
  bt_set :: "'t \<Rightarrow> 'a \<Rightarrow> 't"
  bt_delete :: "'t \<Rightarrow> 'a \<Rightarrow> 't"
  bt_clear :: "'t \<Rightarrow> 't"
  bt_min :: "'t \<Rightarrow> 'a option"
  bt_height :: "'t \<Rightarrow> nat"
  bt_descend :: "'t \<Rightarrow> 'a \<Rightarrow> 'a list" \<comment> \<open>what the callback of \<^verbatim>\<open>Descend\<close> is shown, in turn\<close>
  bt_iter :: "'t \<Rightarrow> 'i"
  it_first :: "'i \<Rightarrow> bool \<times> 'i"
  it_last :: "'i \<Rightarrow> bool \<times> 'i"
  it_next :: "'i \<Rightarrow> bool \<times> 'i"
  it_prev :: "'i \<Rightarrow> bool \<times> 'i"
  it_seek :: "'i \<Rightarrow> 'a \<Rightarrow> bool \<times> 'i"
  it_item :: "'i \<Rightarrow> 'a"

text \<open>\<^verbatim>\<open>Descend\<close> with a callback that updates a captured variable and returns false to stop.\<close>

definition bt_Descend ::
  "('t, 'a, 'i) btree_ops \<Rightarrow> 't \<Rightarrow> 'a \<Rightarrow> ('a \<Rightarrow> 's \<Rightarrow> bool \<times> 's) \<Rightarrow> 's \<Rightarrow> 's" where
  "bt_Descend B t pivot callback s = fold_while callback (bt_descend B t pivot) s"

text \<open>
  The loop \<^verbatim>\<open>for iter.Next() { body }\<close>.  The body sees the current item and the loop's
  variables and says whether to go on (\<^verbatim>\<open>break\<close> and \<^verbatim>\<open>return\<close> do not).  Whether the loop
  ends depends on the package, so it is a partial function: \<open>None\<close> is a loop that never
  returns.
\<close>

partial_function (option) for_next ::
  "('t, 'a, 'i) btree_ops \<Rightarrow> ('a \<Rightarrow> 's \<Rightarrow> bool \<times> 's) \<Rightarrow> 'i \<Rightarrow> 's \<Rightarrow> ('i \<times> 's) option" where
  "for_next B body i s =
     (let (ok, i') = it_next B i
      in if \<not> ok then Some (i', s)
         else let (continue, s') = body (it_item B i') s
              in if continue then for_next B body i' s' else Some (i', s'))"

text \<open>Insertion and removal on strictly sorted lists, up to equivalence of the order.\<close>

definition list_set :: "('a \<Rightarrow> 'a \<Rightarrow> bool) \<Rightarrow> 'a \<Rightarrow> 'a list \<Rightarrow> 'a list" where
  "list_set before x xs = filter (\<lambda>y. before y x) xs @ x # filter (before x) xs"

definition list_del :: "('a \<Rightarrow> 'a \<Rightarrow> bool) \<Rightarrow> 'a \<Rightarrow> 'a list \<Rightarrow> 'a list" where
  "list_del before x xs = filter (\<lambda>y. before y x \<or> before x y) xs"

definition seek_ix :: "('a \<Rightarrow> 'a \<Rightarrow> bool) \<Rightarrow> 'a list \<Rightarrow> 'a \<Rightarrow> nat" where
  "seek_ix before xs key = length (takeWhile (\<lambda>x. before x key) xs)"

locale btree =
  fixes B :: "('t, 'a, 'i) btree_ops"
    and before :: "'a \<Rightarrow> 'a \<Rightarrow> bool"
    and zero :: 'a
    and items :: "'t \<Rightarrow> 'a list"
    and its :: "'i \<Rightarrow> 'a list"
    and pos :: "'i \<Rightarrow> cursor"
  assumes sorted_items: "sorted_wrt before (items t)"
    and items_new [tree_simps]: "items (bt_new B) = []"
    and items_set [tree_simps]: "items (bt_set B t x) = list_set before x (items t)"
    and items_delete [tree_simps]: "items (bt_delete B t x) = list_del before x (items t)"
    and items_clear [tree_simps]: "items (bt_clear B t) = []"
    and min_items: "bt_min B t = (case items t of [] \<Rightarrow> None | x # _ \<Rightarrow> Some x)"
    and height_items: "bt_height B t = 0 \<longleftrightarrow> items t = []"
    and descend_items: "bt_descend B t x = rev (filter (\<lambda>y. \<not> before x y) (items t))"
    and its_iter [simp]: "its (bt_iter B t) = items t"
    and pos_iter [simp]: "pos (bt_iter B t) = Fresh"
    and its_first [simp]: "its (snd (it_first B i)) = its i"
    and its_last [simp]: "its (snd (it_last B i)) = its i"
    and its_next [simp]: "its (snd (it_next B i)) = its i"
    and its_prev [simp]: "its (snd (it_prev B i)) = its i"
    and its_seek [simp]: "its (snd (it_seek B i x)) = its i"
    and first_empty: "its i = [] \<Longrightarrow> \<not> fst (it_first B i)"
    and last_empty: "its i = [] \<Longrightarrow> \<not> fst (it_last B i)"
    and next_empty: "its i = [] \<Longrightarrow> \<not> fst (it_next B i)"
    and first_ok: "its i \<noteq> [] \<Longrightarrow> fst (it_first B i) \<and> pos (snd (it_first B i)) = At 0"
    and last_ok: "its i \<noteq> [] \<Longrightarrow>
      fst (it_last B i) \<and> pos (snd (it_last B i)) = At (length (its i) - 1)"
    and next_fresh: "pos i = Fresh \<Longrightarrow> its i \<noteq> [] \<Longrightarrow>
      fst (it_next B i) \<and> pos (snd (it_next B i)) = At 0"
    and next_at: "pos i = At n \<Longrightarrow> Suc n < length (its i) \<Longrightarrow>
      fst (it_next B i) \<and> pos (snd (it_next B i)) = At (Suc n)"
    and next_last: "pos i = At n \<Longrightarrow> Suc n = length (its i) \<Longrightarrow>
      \<not> fst (it_next B i) \<and> pos (snd (it_next B i)) = At n"
    and next_past: "pos i = Past \<Longrightarrow> \<not> fst (it_next B i) \<and> pos (snd (it_next B i)) = Past"
    and prev_at: "pos i = At (Suc n) \<Longrightarrow> Suc n < length (its i) \<Longrightarrow>
      fst (it_prev B i) \<and> pos (snd (it_prev B i)) = At n"
    and prev_first: "pos i = At 0 \<Longrightarrow> \<not> fst (it_prev B i)"
    and seek_ok: "seek_ix before (its i) x < length (its i) \<Longrightarrow>
      fst (it_seek B i x) \<and> pos (snd (it_seek B i x)) = At (seek_ix before (its i) x)"
    and seek_past: "seek_ix before (its i) x = length (its i) \<Longrightarrow>
      \<not> fst (it_seek B i x) \<and> pos (snd (it_seek B i x)) = Past"
    and item_at: "pos i = At n \<Longrightarrow> n < length (its i) \<Longrightarrow> it_item B i = its i ! n"
    and item_fresh: "pos i = Fresh \<Longrightarrow> it_item B i = zero"
begin

lemma Descend_first:
  assumes "\<And>x s. \<not> fst (f x s)"
  shows "bt_Descend B t x f s =
    (let ys = filter (\<lambda>y. \<not> before x y) (items t) in if ys = [] then s else snd (f (last ys) s))"
proof -
  let ?ys = "filter (\<lambda>y. \<not> before x y) (items t)"
  have "fold_while f (rev ?ys) s = (if ?ys = [] then s else snd (f (last ?ys) s))"
  proof (cases "rev ?ys")
    case (Cons y zs)
    then have "?ys \<noteq> []" "last ?ys = y"
      by (metis Nil_is_rev_conv list.distinct(1), metis last_snoc rev.simps(2) rev_rev_ident)
    with Cons assms show ?thesis by (simp add: case_prod_beta)
  qed simp
  then show ?thesis by (simp add: bt_Descend_def descend_items Let_def)
qed

lemma for_next_At:
  assumes "pos i = At n" "n < length (its i)"
  shows "\<exists>i'. for_next B body i s = Some (i', fold_while body (drop (Suc n) (its i)) s)"
  using assms
proof (induction "length (its i) - n" arbitrary: i n s)
  case 0
  then show ?case by simp
next
  case (Suc m)
  show ?case
  proof (cases "Suc n < length (its i)")
    case False
    with Suc.prems have "Suc n = length (its i)" by simp
    with Suc.prems next_last show ?thesis
      by (subst for_next.simps) (simp add: case_prod_beta)
  next
    case True
    let ?i = "snd (it_next B i)"
    from True Suc.prems next_at have step: "fst (it_next B i)" "pos ?i = At (Suc n)" by auto
    with True item_at [of ?i "Suc n"] have item: "it_item B ?i = its i ! Suc n" by simp
    have drop: "drop (Suc n) (its i) = its i ! Suc n # drop (Suc (Suc n)) (its i)"
      using True by (simp add: Cons_nth_drop_Suc)
    have IH: "\<exists>i'. for_next B body ?i s' = Some (i', fold_while body (drop (Suc (Suc n)) (its i)) s')" for s'
      using Suc.hyps(1) [of ?i "Suc n" s'] Suc.hyps(2) True step(2) by simp
    show ?thesis
      using IH [of "snd (body (its i ! Suc n) s)"] step(1) item drop
      by (subst for_next.simps) (simp add: case_prod_beta)
  qed
qed

text \<open>A loop over a fresh iterator returns, and sees every item of the tree in order.\<close>

lemma for_next_iter:
  "\<exists>i'. for_next B body (bt_iter B t) s = Some (i', fold_while body (items t) s)"
proof (cases "items t")
  case Nil
  with next_empty [of "bt_iter B t"] show ?thesis
    by (subst for_next.simps) (simp add: case_prod_beta)
next
  case (Cons x xs)
  let ?i = "snd (it_next B (bt_iter B t))"
  from Cons next_fresh [of "bt_iter B t"]
  have step: "fst (it_next B (bt_iter B t))" "pos ?i = At 0" by auto
  with Cons item_at [of ?i 0] have item: "it_item B ?i = x" by simp
  have "\<exists>i'. for_next B body ?i s' = Some (i', fold_while body xs s')" for s'
    using for_next_At [of ?i 0 body s'] step(2) Cons by simp
  with step(1) item Cons show ?thesis
    by (subst for_next.simps) (simp add: case_prod_beta)
qed

end

text \<open>The contract of the comparison function: a strict weak order.\<close>

locale weak_order =
  fixes before :: "'a \<Rightarrow> 'a \<Rightarrow> bool"
  assumes irrefl: "\<not> before x x"
    and trans: "before x y \<Longrightarrow> before y z \<Longrightarrow> before x z"
    and trans_incomp: "before x y \<Longrightarrow> before x z \<or> before z y"
begin

lemma asym: "before x y \<Longrightarrow> \<not> before y x"
  using irrefl trans by blast

lemma sorted_list_set: "sorted_wrt before xs \<Longrightarrow> sorted_wrt before (list_set before x xs)"
  by (auto simp: list_set_def sorted_wrt_append sorted_wrt_filter intro: trans)

lemma sorted_list_del: "sorted_wrt before xs \<Longrightarrow> sorted_wrt before (list_del before x xs)"
  by (simp add: list_del_def sorted_wrt_filter)

lemma list_set_hd: "sorted_wrt before (x # xs) \<Longrightarrow> list_set before x xs = x # xs"
  using irrefl asym by (auto simp: list_set_def filter_id_conv filter_empty_conv)

end

lemma fold_list_del:
  "fold (list_del before) ds xs = filter (\<lambda>y. \<forall>x \<in> set ds. before y x \<or> before x y) xs"
  by (induction ds arbitrary: xs) (auto simp: list_del_def intro: filter_cong)

lemma sorted_wrt_comparable:
  "sorted_wrt R xs \<Longrightarrow> x \<in> set xs \<Longrightarrow> y \<in> set xs \<Longrightarrow> x \<noteq> y \<Longrightarrow> R x y \<or> R y x"
  by (induction xs) auto

text \<open>Deleting a batch of its own items removes exactly these from a tree.\<close>

context btree
begin

lemma items_fold_delete:
  assumes "weak_order before" "set ds \<subseteq> set (items t)"
  shows "items (fold (\<lambda>x t. bt_delete B t x) ds t) = filter (\<lambda>y. y \<notin> set ds) (items t)"
proof -
  have "items (fold (\<lambda>x t. bt_delete B t x) ds t) = fold (list_del before) ds (items t)" for ds t
    by (induction ds arbitrary: t) (simp_all add: items_delete)
  moreover have "(\<forall>x \<in> set ds. before y x \<or> before x y) \<longleftrightarrow> y \<notin> set ds" if "y \<in> set (items t)" for y
    using that assms sorted_wrt_comparable [OF sorted_items [of t]]
    by (metis subsetD weak_order.irrefl)
  ultimately show ?thesis by (simp add: fold_list_del cong: filter_cong)
qed

end

subsection \<open>A reference implementation\<close>

text \<open>
  Sorted lists meet the contract.  A tree is any list, read as the history of its
  insertions; an iterator is the sorted list, a cursor and the current item.  The
  instance shows that the contract can be met and lets concrete inputs be evaluated.
\<close>

definition list_items :: "('a \<Rightarrow> 'a \<Rightarrow> bool) \<Rightarrow> 'a list \<Rightarrow> 'a list" where
  "list_items before xs = foldr (list_set before) xs []"

type_synonym 'a list_iter = "'a list \<times> cursor \<times> 'a"

definition go_to :: "'a list \<Rightarrow> 'a \<Rightarrow> nat \<Rightarrow> bool \<times> 'a list_iter" where
  "go_to xs x n = (if n < length xs then (True, xs, At n, xs ! n) else (False, xs, Past, x))"

fun list_next :: "'a list_iter \<Rightarrow> bool \<times> 'a list_iter" where
  "list_next (xs, Fresh, x) = go_to xs x 0"
| "list_next (xs, At n, x) = (if Suc n < length xs then go_to xs x (Suc n) else (False, xs, At n, x))"
| "list_next (xs, p, x) = (False, xs, p, x)"

fun list_prev :: "'a list_iter \<Rightarrow> bool \<times> 'a list_iter" where
  "list_prev (xs, At (Suc n), x) = go_to xs x n"
| "list_prev (xs, p, x) = (False, xs, Lost, x)"

definition list_btree :: "('a \<Rightarrow> 'a \<Rightarrow> bool) \<Rightarrow> 'a \<Rightarrow> ('a list, 'a, 'a list_iter) btree_ops" where
  "list_btree before zero =
     \<lparr>bt_new = [],
      bt_set = (\<lambda>t x. list_set before x (list_items before t)),
      bt_delete = (\<lambda>t x. list_del before x (list_items before t)),
      bt_clear = (\<lambda>_. []),
      bt_min = (\<lambda>t. case list_items before t of [] \<Rightarrow> None | x # _ \<Rightarrow> Some x),
      bt_height = (\<lambda>t. if t = [] then 0 else 1),
      bt_descend = (\<lambda>t x. rev (filter (\<lambda>y. \<not> before x y) (list_items before t))),
      bt_iter = (\<lambda>t. (list_items before t, Fresh, zero)),
      it_first = (\<lambda>(xs, p, x). go_to xs x 0),
      it_last = (\<lambda>(xs, p, x). go_to xs x (length xs - 1)),
      it_next = list_next,
      it_prev = list_prev,
      it_seek = (\<lambda>(xs, p, x) key. go_to xs x (seek_ix before xs key)),
      it_item = (\<lambda>(xs, p, x). case p of At n \<Rightarrow> if n < length xs then xs ! n else x | Fresh \<Rightarrow> zero | _ \<Rightarrow> x)\<rparr>"

declare list_btree_def [run_defs] list_items_def [run_defs] list_set_def [run_defs]
  list_del_def [run_defs] seek_ix_def [run_defs] go_to_def [run_defs] bt_Descend_def [run_defs]

lemma list_next_its [simp]: "fst (snd (list_next i)) = fst i"
  by (cases i rule: list_next.cases) (auto simp: go_to_def)

lemma list_next_empty: "\<not> fst (list_next ([], p, x))"
  by (cases p) (auto simp: go_to_def)

lemma list_prev_its [simp]: "fst (snd (list_prev i)) = fst i"
  by (cases i rule: list_prev.cases) (auto simp: go_to_def)

lemma go_to_its [simp]: "fst (snd (go_to xs x n)) = xs"
  by (simp add: go_to_def)

context weak_order
begin

lemma sorted_list_items: "sorted_wrt before (list_items before xs)"
  by (induction xs) (simp_all add: list_items_def sorted_list_set)

lemma list_items_sorted: "sorted_wrt before xs \<Longrightarrow> list_items before xs = xs"
  by (induction xs) (simp_all add: list_items_def list_set_hd)

lemma list_items_empty: "list_items before xs = [] \<longleftrightarrow> xs = []"
  by (cases xs) (simp_all add: list_items_def list_set_def)

lemma list_btree_meets_contract:
  "btree (list_btree before zero) before zero (list_items before) fst (\<lambda>i. fst (snd i))"
  by unfold_locales (auto simp: list_btree_def list_items_sorted sorted_list_set sorted_list_del sorted_list_items
      list_items_empty go_to_def case_prod_beta list_next_empty)

end

end
