(* ===== verification/Mem_Item.thy ===== *)
theory Mem_Item
  imports Bytes BTree
begin

text \<open>
  The rows of the in-memory store (\<^verbatim>\<open>memory/memory.go\<close>): versioned items, their order
  in the tree, and \<^verbatim>\<open>get\<close>, the lookup of the newest version not above a bound.  The
  lemmas show that \<^verbatim>\<open>get\<close> computes \<open>latest\<close>, its specification on the list of items,
  and say how \<open>latest\<close> changes when the list does.
\<close>

record dsItem =
  key :: slice
  version :: u64
  val :: slice
  isDeleted :: bool
  isGet :: bool

definition dsItem0 :: dsItem where
  "dsItem0 = \<lparr>key = None, version = 0, val = None, isDeleted = False, isGet = False\<rparr>"

definition byVersion :: "dsItem \<Rightarrow> dsItem \<Rightarrow> bool" where
  "byVersion a b \<longleftrightarrow> version a < version b"

definition byKeys :: "dsItem \<Rightarrow> dsItem \<Rightarrow> bool" where
  "byKeys a b =
     (let cmp = bytes_Compare (contents (key a)) (contents (key b))
      in if cmp = - 1 then True
         else if cmp = 1 then False
         else byVersion a b)"

text \<open>
  A running transaction as the store remembers it.  The back pointer to the transaction
  (field \<^verbatim>\<open>txn\<close>) is written and never read, so it is left out.
\<close>

record dsTxn =
  ft_dsVersion :: u64
  ft_txnVersion :: u64
  ft_expiresAt :: time

definition dsTxn0 :: dsTxn where
  "dsTxn0 = \<lparr>ft_dsVersion = 0, ft_txnVersion = 0, ft_expiresAt = 0\<rparr>"

definition byDSVersion :: "dsTxn \<Rightarrow> dsTxn \<Rightarrow> bool" where
  "byDSVersion a b =
     (if ft_dsVersion a < ft_dsVersion b then True
      else if ft_dsVersion a = ft_dsVersion b \<and> ft_txnVersion a < ft_txnVersion b then True
      else False)"

definition get :: "('t, dsItem, 'i) btree_ops \<Rightarrow> 't \<Rightarrow> slice \<Rightarrow> u64 \<Rightarrow> dsItem" where
  "get B values k v =
     bt_Descend B values (dsItem0\<lparr>key := k, version := v\<rparr>)
       (\<lambda>item result. (False, if bytes_Equal k (key item) then item else result)) dsItem0"

declare get_def [run_defs] byKeys_def [run_defs] byVersion_def [run_defs] byDSVersion_def [run_defs]
  dsItem0_def [run_defs] dsTxn0_def [run_defs]

lemma dsItem0_simps [simp]:
  "key dsItem0 = None" "version dsItem0 = 0" "val dsItem0 = None"
  "\<not> isDeleted dsItem0" "\<not> isGet dsItem0"
  by (simp_all add: dsItem0_def)

subsection \<open>The orders of the two trees\<close>

abbreviation kb :: "dsItem \<Rightarrow> bytes" where
  "kb x \<equiv> contents (key x)"

lemma kb_nonempty_key: "kb x \<noteq> [] \<Longrightarrow> key x \<noteq> None"
  by (cases "key x") auto

lemma byKeys_iff: "byKeys a b \<longleftrightarrow> kb a < kb b \<or> kb a = kb b \<and> version a < version b"
  by (auto simp: byKeys_def byVersion_def Let_def bytes_Compare_less bytes_Compare_greater)

interpretation byKeys: weak_order byKeys
  by unfold_locales (auto simp: byKeys_iff)

interpretation byDSVersion: weak_order byDSVersion
  by unfold_locales (auto simp: byDSVersion_def split: if_splits)

interpretation item_list: btree "list_btree byKeys dsItem0" byKeys dsItem0 "list_items byKeys" fst "\<lambda>i. fst (snd i)"
  by (rule byKeys.list_btree_meets_contract)

interpretation txn_list: btree "list_btree byDSVersion dsTxn0" byDSVersion dsTxn0 "list_items byDSVersion" fst "\<lambda>i. fst (snd i)"
  by (rule byDSVersion.list_btree_meets_contract)

subsection \<open>The newest version below a bound\<close>

definition latest :: "dsItem list \<Rightarrow> bytes \<Rightarrow> u64 \<Rightarrow> dsItem" where
  "latest xs k v =
     (let ys = filter (\<lambda>x. kb x = k \<and> version x \<le> v) xs in if ys = [] then dsItem0 else last ys)"

declare latest_def [run_defs]

lemma latest_Nil [simp]: "latest [] k v = dsItem0"
  by (simp add: latest_def)

lemma latest_none:
  "(\<And>y. y \<in> set xs \<Longrightarrow> kb y = k \<Longrightarrow> \<not> version y \<le> v) \<Longrightarrow> latest xs k v = dsItem0"
  by (auto simp: latest_def Let_def filter_empty_conv)

lemma latest_some:
  assumes "sorted_wrt byKeys xs" "x \<in> set xs" "kb x = k" "version x \<le> v"
    and max: "\<And>y. y \<in> set xs \<Longrightarrow> kb y = k \<Longrightarrow> version y \<le> v \<Longrightarrow> version y \<le> version x"
  shows "latest xs k v = x"
proof -
  let ?ys = "filter (\<lambda>x. kb x = k \<and> version x \<le> v) xs"
  have sorted: "sorted_wrt byKeys ?ys" using assms(1) by (rule sorted_wrt_filter)
  have x: "x \<in> set ?ys" using assms by simp
  have ne: "?ys \<noteq> []" using assms(2-4) by (auto simp: filter_empty_conv)
  then have in_ys: "last ?ys \<in> set xs" "kb (last ?ys) = k" "version (last ?ys) \<le> v"
    using last_filter_in [OF ne] by auto
  have "x = last ?ys"
  proof (rule ccontr)
    assume "x \<noteq> last ?ys"
    with sorted x have "byKeys x (last ?ys)" by (rule sorted_wrt_last)
    with in_ys assms(3) max [of "last ?ys"] show False by (auto simp: byKeys_iff)
  qed
  with ne show ?thesis by (simp add: latest_def Let_def)
qed

lemma latest_cases:
  assumes "sorted_wrt byKeys xs"
  obtains (none) "latest xs k v = dsItem0" "\<And>y. y \<in> set xs \<Longrightarrow> kb y = k \<Longrightarrow> \<not> version y \<le> v"
  | (some) "latest xs k v \<in> set xs" "kb (latest xs k v) = k" "version (latest xs k v) \<le> v"
      "\<And>y. y \<in> set xs \<Longrightarrow> kb y = k \<Longrightarrow> version y \<le> v \<Longrightarrow> version y \<le> version (latest xs k v)"
proof (cases "filter (\<lambda>x. kb x = k \<and> version x \<le> v) xs = []")
  case True
  then show thesis by (intro none latest_none) (auto simp: filter_empty_conv)
next
  case False
  let ?ys = "filter (\<lambda>x. kb x = k \<and> version x \<le> v) xs"
  have sorted: "sorted_wrt byKeys ?ys" using assms by (rule sorted_wrt_filter)
  have last: "latest xs k v = last ?ys" using False by (simp add: latest_def)
  show thesis
  proof (rule some)
    fix y assume "y \<in> set xs" "kb y = k" "version y \<le> v"
    then have "y \<in> set ?ys" by simp
    with sorted_wrt_last [OF sorted this] last last_filter_in [OF False]
    show "version y \<le> version (latest xs k v)" by (cases "y = last ?ys") (auto simp: byKeys_iff)
  qed (use last last_filter_in [OF False] in auto)
qed

lemma sorted_byKeys_unique:
  assumes "sorted_wrt byKeys xs" "x \<in> set xs" "y \<in> set xs" "kb x = kb y" "version x = version y"
  shows "x = y"
proof (rule ccontr)
  assume "x \<noteq> y"
  with assms(1-3) have "byKeys x y \<or> byKeys y x"
    by (induction xs) auto
  with assms(4,5) show False by (auto simp: byKeys_iff)
qed

text \<open>The content of the tree after a set or a delete, as a set.\<close>

lemma set_list_set: "set (list_set byKeys x xs) = insert x {y \<in> set xs. kb y \<noteq> kb x \<or> version y \<noteq> version x}"
  by (auto simp: list_set_def byKeys_iff)

lemma set_list_del: "set (list_del byKeys x xs) = {y \<in> set xs. kb y \<noteq> kb x \<or> version y \<noteq> version x}"
  by (auto simp: list_del_def byKeys_iff)

text \<open>
  \<open>latest\<close> only depends on the items with its key: two sorted lists that agree on them up
  to the bound have the same answer.
\<close>

lemma latest_cong:
  assumes "sorted_wrt byKeys xs" "sorted_wrt byKeys ys"
    and "\<And>y. kb y = k \<Longrightarrow> version y \<le> v \<Longrightarrow> y \<in> set xs \<longleftrightarrow> y \<in> set ys"
  shows "latest xs k v = latest ys k v"
  using assms(2)
proof (cases rule: latest_cases [where k = k and v = v])
  case none
  with assms(3) show ?thesis by (metis latest_none)
next
  case some
  with assms(1,3) show ?thesis by (intro latest_some) auto
qed

text \<open>An item newer than every other version of its key answers for that key.\<close>

lemma latest_list_set_new:
  assumes "sorted_wrt byKeys xs" and "\<And>y. y \<in> set xs \<Longrightarrow> kb y = kb x \<Longrightarrow> version y < version x"
  shows "latest (list_set byKeys x xs) k v = (if k = kb x \<and> version x \<le> v then x else latest xs k v)"
proof (cases "k = kb x \<and> version x \<le> v")
  case True
  have "latest (list_set byKeys x xs) k v = x"
    by (rule latest_some) (use True assms byKeys.sorted_list_set in \<open>auto simp: set_list_set dest: assms(2)\<close>)
  with True show ?thesis by simp
next
  case False
  have "latest (list_set byKeys x xs) k v = latest xs k v"
    by (rule latest_cong) (use False assms byKeys.sorted_list_set in \<open>auto simp: set_list_set dest: assms(2)\<close>)
  with False show ?thesis by auto
qed

subsection \<open>The lookup\<close>

locale item_tree = btree B byKeys dsItem0 items its pos
  for B :: "('t, dsItem, 'i) btree_ops" and items its pos
begin

lemma get_latest: "get B t k v = latest (items t) (contents k) v"
proof -
  let ?below = "filter (\<lambda>y. \<not> byKeys (dsItem0\<lparr>key := k, version := v\<rparr>) y) (items t)"
  have below: "y \<in> set ?below \<longleftrightarrow>
      y \<in> set (items t) \<and> (kb y < contents k \<or> kb y = contents k \<and> version y \<le> v)" for y
    by (auto simp: byKeys_iff)
  have eq: "get B t k v = (if ?below \<noteq> [] \<and> kb (last ?below) = contents k then last ?below else dsItem0)"
    unfolding get_def by (subst Descend_first) (auto simp: Let_def bytes_Equal_def)
  have sorted: "sorted_wrt byKeys ?below" using sorted_items [of t] by (rule sorted_wrt_filter)
  from sorted_items [of t] show ?thesis
  proof (cases rule: latest_cases [where k = "contents k" and v = v])
    case none
    then have "\<not> (?below \<noteq> [] \<and> kb (last ?below) = contents k)"
      using last_in_set [of ?below] below by force
    with eq none show ?thesis by simp
  next
    case some
    let ?l = "latest (items t) (contents k) v"
    from some below [of ?l] have l: "?l \<in> set ?below" by blast
    then have ne: "?below \<noteq> []" by (metis empty_iff list.set(1))
    have "?l = last ?below"
    proof (rule ccontr)
      assume ne_last: "?l \<noteq> last ?below"
      with sorted l have "byKeys ?l (last ?below)" by (rule sorted_wrt_last)
      moreover
      from ne have "last ?below \<in> set ?below" by (rule last_in_set)
      with below [of "last ?below"] some have "\<not> byKeys ?l (last ?below)"
        by (auto simp: byKeys_iff not_less)
      ultimately show False by contradiction
    qed
    with eq ne some show ?thesis by simp
  qed
qed

end

interpretation item_list: item_tree "list_btree byKeys dsItem0" "list_items byKeys" fst "\<lambda>i. fst (snd i)"
  by unfold_locales

end
