(* ===== verification/Mem_Store.thy ===== *)
theory Mem_Store
  imports CoreKV Mem_Item
begin

text \<open>
  The in-memory datastore and its transactions (\<^verbatim>\<open>memory/memory.go\<close>,
  \<^verbatim>\<open>memory/txn.go\<close>): one definition per method, with the guards in the order of the
  code.  \<open>B\<close> is the package's tree of items, \<open>T\<close> its tree of running transactions.
  The tree a transaction collects its operations in is of the first kind.

  A method of \<^verbatim>\<open>*basicTxn\<close> takes the transaction and the datastore it points to and
  returns what it changed.  A datastore method first asks the context for a transaction of
  the package's own type; that transaction, if there is one, is the argument \<open>ctx\<close>, and it
  is returned with its new state.  \<open>now\<close> arguments are readings of the clock.  Mutexes
  make a method atomic against \<^verbatim>\<open>Close\<close> and a commit atomic against other commits; the
  interleavings that remain are those of whole methods.

  Loops run on an iterator of the package, so a method that loops returns an option, \<open>None\<close>
  meaning that it does not return.
\<close>

record 't basicTxn =
  ops :: 't
  dsVersion :: u64
  readOnly :: bool
  discarded :: bool

record ('t, 'u) Datastore =
  ds_version :: u64
  ds_values :: 't
  inFlightTxn :: 'u
  closed :: bool
  closing :: bool

subsection \<open>The datastore\<close>

definition NewDatastore ::
  "('t, dsItem, 'i) btree_ops \<Rightarrow> ('u, dsTxn, 'j) btree_ops \<Rightarrow> ('t, 'u) Datastore" where
  "NewDatastore B T =
     \<lparr>ds_version = 0, ds_values = bt_new B, inFlightTxn = bt_new T, closed = False, closing = False\<rparr>"

definition getVersion :: "('t, 'u) Datastore \<Rightarrow> u64" where
  "getVersion d = ds_version d"

definition nextVersion :: "('t, 'u) Datastore \<Rightarrow> u64 \<times> ('t, 'u) Datastore" where
  "nextVersion d = (let v = ds_version d + 1 in (v, d\<lparr>ds_version := v\<rparr>))"

definition Close :: "('t, 'u) Datastore \<Rightarrow> err \<times> ('t, 'u) Datastore" where
  "Close d = (if closed d then (None, d) else (None, d\<lparr>closed := True, closing := True\<rparr>))"

definition DropAll :: "('t, dsItem, 'i) btree_ops \<Rightarrow> ('t, 'u) Datastore \<Rightarrow> err \<times> ('t, 'u) Datastore" where
  "DropAll B d = (None, d\<lparr>ds_values := bt_clear B (ds_values d)\<rparr>)"

definition hour :: time where
  "hour = 3600000000000"

definition newTransaction ::
  "('t, dsItem, 'i) btree_ops \<Rightarrow> ('u, dsTxn, 'j) btree_ops \<Rightarrow> time \<Rightarrow> bool \<Rightarrow> ('t, 'u) Datastore \<Rightarrow>
   't basicTxn \<times> ('t, 'u) Datastore" where
  "newTransaction B T now ro d =
     (let v = getVersion d;
          txn = \<lparr>ops = bt_new B, dsVersion = v, readOnly = ro, discarded = False\<rparr>;
          entry = \<lparr>ft_dsVersion = v, ft_txnVersion = v + 1, ft_expiresAt = now + hour\<rparr>
      in (txn, d\<lparr>inFlightTxn := bt_set T (inFlightTxn d) entry\<rparr>))"

text \<open>\<^verbatim>\<open>clearOldInFlightTxn\<close>: rounds over the tree until a round finds nothing expired.\<close>

definition expired_body :: "time \<Rightarrow> dsTxn \<Rightarrow> dsTxn list \<times> nat \<Rightarrow> bool \<times> dsTxn list \<times> nat" where
  "expired_body now item s =
     (case s of (itemsToDelete, ntotal) \<Rightarrow>
        if now > ft_expiresAt item then (True, itemsToDelete @ [item], ntotal + 1)
        else (True, itemsToDelete, ntotal))"

partial_function (option) clearOld_loop ::
  "('u, dsTxn, 'j) btree_ops \<Rightarrow> time \<Rightarrow> 'u \<Rightarrow> 'u option" where
  "clearOld_loop T now tree =
     Option.bind (for_next T (expired_body now) (bt_iter T tree) ([], 0))
       (\<lambda>(_, itemsToDelete, ntotal).
          if ntotal = 0 then Some tree
          else clearOld_loop T now (fold (\<lambda>x t. bt_delete T t x) itemsToDelete tree))"

definition clearOldInFlightTxn ::
  "('u, dsTxn, 'j) btree_ops \<Rightarrow> time \<Rightarrow> ('t, 'u) Datastore \<Rightarrow> ('t, 'u) Datastore option" where
  "clearOldInFlightTxn T now d =
     (if bt_height T (inFlightTxn d) = 0 then Some d
      else map_option (\<lambda>tree. d\<lparr>inFlightTxn := tree\<rparr>) (clearOld_loop T now (inFlightTxn d)))"

subsection \<open>Transactions\<close>

definition getDSVersion :: "'t basicTxn \<Rightarrow> u64" where
  "getDSVersion t = dsVersion t"

definition getTxnVersion :: "'t basicTxn \<Rightarrow> u64" where
  "getTxnVersion t = getDSVersion t + 1"

definition txn_get ::
  "('t, dsItem, 'i) btree_ops \<Rightarrow> 't basicTxn \<Rightarrow> ('t, 'u) Datastore \<Rightarrow> slice \<Rightarrow> dsItem \<times> 't basicTxn" where
  "txn_get B t d k =
     (let result =
        bt_Descend B (ops t) (dsItem0\<lparr>key := k, version := getTxnVersion t\<rparr>)
          (\<lambda>item result. (False, if bytes_Equal k (key item) then item else result)) dsItem0
      in if key result = None
         then let result = (get B (ds_values d) k (getDSVersion t))\<lparr>isGet := True\<rparr>
              in (result, t\<lparr>ops := bt_set B (ops t) result\<rparr>)
         else (result, t))"

definition txn_Get ::
  "('t, dsItem, 'i) btree_ops \<Rightarrow> 't basicTxn \<Rightarrow> ('t, 'u) Datastore \<Rightarrow> slice \<Rightarrow> slice res \<times> 't basicTxn" where
  "txn_Get B t d k =
     (if closed d then (Inl ErrDBClosed, t)
      else if discarded t then (Inl ErrDiscardedTxn, t)
      else if len k = 0 then (Inl ErrEmptyKey, t)
      else let (result, t') = txn_get B t d k
           in if key result = None \<or> isDeleted result then (Inl ErrNotFound, t')
              else (Inr (val result), t'))"

definition txn_GetSize ::
  "('t, dsItem, 'i) btree_ops \<Rightarrow> 't basicTxn \<Rightarrow> ('t, 'u) Datastore \<Rightarrow> slice \<Rightarrow> nat res \<times> 't basicTxn" where
  "txn_GetSize B t d k =
     (if closed d then (Inl ErrDBClosed, t)
      else if discarded t then (Inl ErrDiscardedTxn, t)
      else if len k = 0 then (Inl ErrEmptyKey, t)
      else let (result, t') = txn_get B t d k
           in if key result = None \<or> isDeleted result then (Inl ErrNotFound, t')
              else (Inr (len (val result)), t'))"

definition txn_Has ::
  "('t, dsItem, 'i) btree_ops \<Rightarrow> 't basicTxn \<Rightarrow> ('t, 'u) Datastore \<Rightarrow> slice \<Rightarrow> bool res \<times> 't basicTxn" where
  "txn_Has B t d k =
     (if closed d then (Inl ErrDBClosed, t)
      else if discarded t then (Inl ErrDiscardedTxn, t)
      else if len k = 0 then (Inl ErrEmptyKey, t)
      else let (result, t') = txn_get B t d k
           in if key result = None \<or> isDeleted result then (Inr False, t')
              else (Inr True, t'))"

definition txn_Set ::
  "('t, dsItem, 'i) btree_ops \<Rightarrow> 't basicTxn \<Rightarrow> ('t, 'u) Datastore \<Rightarrow> slice \<Rightarrow> slice \<Rightarrow> err \<times> 't basicTxn" where
  "txn_Set B t d k value =
     (if closed d then (Some ErrDBClosed, t)
      else if discarded t then (Some ErrDiscardedTxn, t)
      else if readOnly t then (Some ErrReadOnlyTxn, t)
      else if len k = 0 then (Some ErrEmptyKey, t)
      else (None, t\<lparr>ops := bt_set B (ops t) (dsItem0\<lparr>key := k, version := getTxnVersion t, val := value\<rparr>)\<rparr>))"

definition txn_Delete ::
  "('t, dsItem, 'i) btree_ops \<Rightarrow> 't basicTxn \<Rightarrow> ('t, 'u) Datastore \<Rightarrow> slice \<Rightarrow> err \<times> 't basicTxn" where
  "txn_Delete B t d k =
     (if closed d then (Some ErrDBClosed, t)
      else if discarded t then (Some ErrDiscardedTxn, t)
      else if readOnly t then (Some ErrReadOnlyTxn, t)
      else if len k = 0 then (Some ErrEmptyKey, t)
      else let (item, t') = txn_get B t d k
           in if key item = None \<or> isDeleted item then (None, t')
              else (None, t'\<lparr>ops := bt_set B (ops t')
                     (dsItem0\<lparr>key := k, version := getTxnVersion t', isDeleted := True\<rparr>)\<rparr>))"

definition clearInFlightTxn ::
  "('u, dsTxn, 'j) btree_ops \<Rightarrow> time \<Rightarrow> 't basicTxn \<Rightarrow> ('t, 'u) Datastore \<Rightarrow> ('t, 'u) Datastore option" where
  "clearInFlightTxn T now t d =
     clearOldInFlightTxn T now
       (d\<lparr>inFlightTxn := bt_delete T (inFlightTxn d)
            (dsTxn0\<lparr>ft_dsVersion := getDSVersion t, ft_txnVersion := getTxnVersion t\<rparr>)\<rparr>)"

definition txn_Discard ::
  "('t, dsItem, 'i) btree_ops \<Rightarrow> ('u, dsTxn, 'j) btree_ops \<Rightarrow> time \<Rightarrow> 't basicTxn \<Rightarrow> ('t, 'u) Datastore \<Rightarrow>
   ('t basicTxn \<times> ('t, 'u) Datastore) option" where
  "txn_Discard B T now t d =
     (if discarded t then Some (t, d)
      else let t' = t\<lparr>ops := bt_clear B (ops t)\<rparr>
           in map_option (\<lambda>d'. (t'\<lparr>discarded := True\<rparr>, d')) (clearInFlightTxn T now t' d))"

text \<open>
  \<^verbatim>\<open>checkForConflicts\<close> compares, for every key among the operations, the version the
  transaction saw with the newest one; the first difference ends the loop.
\<close>

definition conflict_body ::
  "('t, dsItem, 'i) btree_ops \<Rightarrow> 't basicTxn \<Rightarrow> ('t, 'u) Datastore \<Rightarrow> dsItem \<Rightarrow> err \<Rightarrow> bool \<times> err" where
  "conflict_body B t d item e =
     (let expectedItem = get B (ds_values d) (key item) (getDSVersion t);
          latestItem = get B (ds_values d) (key item) (getVersion d)
      in if version latestItem \<noteq> version expectedItem then (False, Some ErrTxnConflict) else (True, e))"

definition checkForConflicts ::
  "('t, dsItem, 'i) btree_ops \<Rightarrow> 't basicTxn \<Rightarrow> ('t, 'u) Datastore \<Rightarrow> err option" where
  "checkForConflicts B t d =
     (if getDSVersion t = getVersion d then Some None
      else map_option snd (for_next B (conflict_body B t d) (bt_iter B (ops t)) None))"

definition commit_body ::
  "('t, dsItem, 'i) btree_ops \<Rightarrow> u64 \<Rightarrow> dsItem \<Rightarrow> 't \<Rightarrow> bool \<times> 't" where
  "commit_body B v item tree =
     (if isGet item then (True, tree) else (True, bt_set B tree (item\<lparr>version := v\<rparr>)))"

definition commit ::
  "('t, dsItem, 'i) btree_ops \<Rightarrow> 't basicTxn \<Rightarrow> ('t, 'u) Datastore \<Rightarrow> (err \<times> ('t, 'u) Datastore) option" where
  "commit B t d =
     Option.bind (checkForConflicts B t d) (\<lambda>e.
       if e \<noteq> None then Some (e, d)
       else let (v, d') = nextVersion d
            in map_option (\<lambda>(_, tree). (None, d'\<lparr>ds_values := tree\<rparr>))
                 (for_next B (commit_body B v) (bt_iter B (ops t)) (ds_values d')))"

definition txn_Commit ::
  "('t, dsItem, 'i) btree_ops \<Rightarrow> ('u, dsTxn, 'j) btree_ops \<Rightarrow> time \<Rightarrow> 't basicTxn \<Rightarrow> ('t, 'u) Datastore \<Rightarrow>
   (err \<times> 't basicTxn \<times> ('t, 'u) Datastore) option" where
  "txn_Commit B T now t d =
     (if closed d then Some (Some ErrDBClosed, t, d)
      else if discarded t then Some (Some ErrDiscardedTxn, t, d)
      else Option.bind (if \<not> readOnly t then commit B t d else Some (None, d)) (\<lambda>(e, d').
             map_option (\<lambda>(t'', d''). (e, t'', d'')) (txn_Discard B T now t d')))"

subsection \<open>Datastore methods\<close>

definition Datastore_Get ::
  "('t, dsItem, 'i) btree_ops \<Rightarrow> 't basicTxn option \<Rightarrow> ('t, 'u) Datastore \<Rightarrow> slice \<Rightarrow>
   slice res \<times> 't basicTxn option" where
  "Datastore_Get B ctx d k =
     (case ctx of
        Some tx \<Rightarrow> let (r, tx') = txn_Get B tx d k in (r, Some tx')
      | None \<Rightarrow>
          (if closed d then (Inl ErrDBClosed, None)
           else if len k = 0 then (Inl ErrEmptyKey, None)
           else let result = get B (ds_values d) k (getVersion d)
                in if key result = None \<or> isDeleted result then (Inl ErrNotFound, None)
                   else (Inr (val result), None)))"

definition Datastore_Has ::
  "('t, dsItem, 'i) btree_ops \<Rightarrow> 't basicTxn option \<Rightarrow> ('t, 'u) Datastore \<Rightarrow> slice \<Rightarrow>
   bool res \<times> 't basicTxn option" where
  "Datastore_Has B ctx d k =
     (case ctx of
        Some tx \<Rightarrow> let (r, tx') = txn_Has B tx d k in (r, Some tx')
      | None \<Rightarrow>
          (if closed d then (Inl ErrDBClosed, None)
           else if len k = 0 then (Inl ErrEmptyKey, None)
           else let result = get B (ds_values d) k (getVersion d)
                in (Inr (key result \<noteq> None \<and> \<not> isDeleted result), None)))"

text \<open>
  The writes open a transaction of their own.  \<open>t0\<close> is the clock when it is opened, \<open>t1\<close>
  when it is closed.
\<close>

definition Datastore_Set ::
  "('t, dsItem, 'i) btree_ops \<Rightarrow> ('u, dsTxn, 'j) btree_ops \<Rightarrow> time \<Rightarrow> time \<Rightarrow> 't basicTxn option \<Rightarrow>
   ('t, 'u) Datastore \<Rightarrow> slice \<Rightarrow> slice \<Rightarrow> (err \<times> 't basicTxn option \<times> ('t, 'u) Datastore) option" where
  "Datastore_Set B T t0 t1 ctx d k value =
     (case ctx of
        Some tx \<Rightarrow> let (e, tx') = txn_Set B tx d k value in Some (e, Some tx', d)
      | None \<Rightarrow>
          (if closed d then Some (Some ErrDBClosed, None, d)
           else if len k = 0 then Some (Some ErrEmptyKey, None, d)
           else let (tx, d1) = newTransaction B T t0 False d;
                    (e, tx1) = txn_Set B tx d1 k value
                in if e \<noteq> None
                   then map_option (\<lambda>(_, d2). (e, None, d2)) (txn_Discard B T t1 tx1 d1)
                   else map_option (\<lambda>(e', _, d2). (e', None, d2)) (txn_Commit B T t1 tx1 d1)))"

definition Datastore_Delete ::
  "('t, dsItem, 'i) btree_ops \<Rightarrow> ('u, dsTxn, 'j) btree_ops \<Rightarrow> time \<Rightarrow> time \<Rightarrow> 't basicTxn option \<Rightarrow>
   ('t, 'u) Datastore \<Rightarrow> slice \<Rightarrow> (err \<times> 't basicTxn option \<times> ('t, 'u) Datastore) option" where
  "Datastore_Delete B T t0 t1 ctx d k =
     (case ctx of
        Some tx \<Rightarrow> let (e, tx') = txn_Delete B tx d k in Some (e, Some tx', d)
      | None \<Rightarrow>
          (if closed d then Some (Some ErrDBClosed, None, d)
           else if len k = 0 then Some (Some ErrEmptyKey, None, d)
           else let (tx, d1) = newTransaction B T t0 False d;
                    (e, tx1) = txn_Delete B tx d1 k
                in map_option (\<lambda>(cErr, _, d2). (errors_Join [e, cErr], None, d2))
                     (txn_Commit B T t1 tx1 d1)))"

text \<open>\<^verbatim>\<open>NewTxn\<close> is \<^verbatim>\<open>newTransaction\<close> behind the interface.\<close>

definition NewTxn ::
  "('t, dsItem, 'i) btree_ops \<Rightarrow> ('u, dsTxn, 'j) btree_ops \<Rightarrow> time \<Rightarrow> bool \<Rightarrow> ('t, 'u) Datastore \<Rightarrow>
   't basicTxn \<times> ('t, 'u) Datastore" where
  "NewTxn B T now ro d = newTransaction B T now ro d"

lemmas version_defs [run_defs] = getVersion_def getDSVersion_def getTxnVersion_def nextVersion_def

lemmas txn_method_defs [run_defs] =
  txn_get_def txn_Get_def txn_GetSize_def txn_Has_def txn_Set_def txn_Delete_def
  txn_Discard_def txn_Commit_def clearInFlightTxn_def clearOldInFlightTxn_def
  checkForConflicts_def conflict_body_def commit_body_def commit_def expired_body_def

lemmas store_method_defs [run_defs] =
  NewDatastore_def Close_def DropAll_def newTransaction_def NewTxn_def hour_def
  Datastore_Get_def Datastore_Has_def Datastore_Set_def Datastore_Delete_def

end
