(* ===== verification/Mem_Iter.thy ===== *)
theory Mem_Iter
  imports Mem_Store
begin

text \<open>
  The iterator of the in-memory store (\<^verbatim>\<open>memory/iter.go\<close>).  It walks the tree of versioned
  rows in one direction and yields, for every key of its range, the newest row not above
  the version it reads at, unless that row is a deletion.

  The definitions follow the source function by function.  \<^verbatim>\<open>next\<close>, \<^verbatim>\<open>restart\<close> and
  \<^verbatim>\<open>seek\<close> call each other; the latter two take the \<^verbatim>\<open>next\<close> they call as an argument, and
  \<^verbatim>\<open>next\<close> ties the knot as a partial function, so that a loop that never ends is the
  value \<open>None\<close>.  The field \<^verbatim>\<open>d\<close> of the Go struct is read for its \<^verbatim>\<open>closed\<close> flag only; the
  datastore is an argument instead.
\<close>

record ('t, 'i) iterator =
  iter_version :: u64
  iter_values :: 't
  iter_it :: 'i
  iter_start :: slice
  iter_end :: slice
  iter_reverse :: bool
  iter_reset :: bool
  lastItem :: dsItem
  firstItem :: dsItem

definition newPrefixIter ::
  "('t, dsItem, 'i) btree_ops \<Rightarrow> 't \<Rightarrow> slice \<Rightarrow> bool \<Rightarrow> u64 \<Rightarrow> ('t, 'i) iterator" where
  "newPrefixIter B values prefix rvs v =
     (let i = bt_iter B values;
          (last_item, first_item, i) =
            (if rvs
             then let (hasItems, i1) = it_last B i;
                      (l, f) = (if hasItems
                                then let l = it_item B i1; (_, i2) = it_first B i1 in (l, it_item B i2)
                                else (dsItem0, dsItem0))
                  in (l, f, bt_iter B values)
             else (dsItem0, dsItem0, i))
      in \<lparr>iter_version = v, iter_values = values, iter_it = i,
          iter_start = prefix, iter_end = bytesPrefixEnd prefix,
          iter_reverse = rvs, iter_reset = True,
          lastItem = last_item, firstItem = first_item\<rparr>)"

definition newRangeIter ::
  "('t, dsItem, 'i) btree_ops \<Rightarrow> 't \<Rightarrow> slice \<Rightarrow> slice \<Rightarrow> bool \<Rightarrow> u64 \<Rightarrow> ('t, 'i) iterator" where
  "newRangeIter B values start end' rvs v =
     \<lparr>iter_version = v, iter_values = values, iter_it = bt_iter B values,
      iter_start = start, iter_end = end',
      iter_reverse = rvs, iter_reset = True,
      lastItem = dsItem0, firstItem = dsItem0\<rparr>"

definition iter_Reset :: "('t, 'i) iterator \<Rightarrow> ('t, 'i) iterator" where
  "iter_Reset iter = iter\<lparr>iter_reset := True\<rparr>"

abbreviation iter_Item :: "('t, dsItem, 'i) btree_ops \<Rightarrow> ('t, 'i) iterator \<Rightarrow> dsItem" where
  "iter_Item B iter \<equiv> it_item B (iter_it iter)"

definition iter_valid :: "('t, dsItem, 'i) btree_ops \<Rightarrow> ('t, 'i) iterator \<Rightarrow> bool" where
  "iter_valid B iter =
     (if len (key (iter_Item B iter)) = 0 then False
      else if version (iter_Item B iter) > iter_version iter then False
      else if isDeleted (iter_Item B iter) then False
      else if len (iter_end iter) > 0 \<and> \<not> lt (key (iter_Item B iter)) (iter_end iter) then False
      else gte (key (iter_Item B iter)) (iter_start iter))"

definition moveNext :: "('t, dsItem, 'i) btree_ops \<Rightarrow> ('t, 'i) iterator \<Rightarrow> bool \<times> ('t, 'i) iterator" where
  "moveNext B iter =
     (if iter_reverse iter
      then if len (key (firstItem iter)) > 0 \<and>
              version (firstItem iter) = version (iter_Item B iter) \<and>
              bytes_Equal (key (firstItem iter)) (key (iter_Item B iter))
           then (False, iter)
           else let (ok, i) = it_prev B (iter_it iter) in (ok, iter\<lparr>iter_it := i\<rparr>)
      else let (ok, i) = it_next B (iter_it iter) in (ok, iter\<lparr>iter_it := i\<rparr>))"

text \<open>The loop of \<^verbatim>\<open>loadLatestItem\<close>: on to the newest visible row of the key it is on.\<close>

partial_function (option) loadLatest_loop ::
  "('t, dsItem, 'i) btree_ops \<Rightarrow> u64 \<Rightarrow> dsItem \<Rightarrow> 'i \<Rightarrow> 'i option" where
  "loadLatest_loop B v previousItem i =
     (let (ok, i') = it_next B i
      in if \<not> ok then Some i'
         else if \<not> bytes_Equal (key previousItem) (key (it_item B i')) then Some (snd (it_prev B i'))
         else if version (it_item B i') > v then Some (snd (it_prev B i'))
         else loadLatest_loop B v previousItem i')"

definition loadLatestItem ::
  "('t, dsItem, 'i) btree_ops \<Rightarrow> ('t, 'i) iterator \<Rightarrow> ('t, 'i) iterator option" where
  "loadLatestItem B iter =
     (let previousItem = iter_Item B iter
      in if iter_reverse iter \<and> len (key (lastItem iter)) > 0 \<and>
            version (lastItem iter) = version previousItem \<and>
            bytes_Equal (key (lastItem iter)) (key previousItem)
         then Some iter
         else map_option (\<lambda>i. iter\<lparr>iter_it := i\<rparr>)
                (loadLatest_loop B (iter_version iter) previousItem (iter_it iter)))"

type_synonym ('t, 'i) iter_step = "('t, 'i) iterator \<Rightarrow> (bool res \<times> ('t, 'i) iterator) option"

text \<open>
  The reversed seek: the tree finds the first row at or above the target; when its key is
  another one, the row before is taken, and failing that the last row of the tree.
\<close>

definition seek_reversed ::
  "('t, dsItem, 'i) btree_ops \<Rightarrow> 'i \<Rightarrow> slice \<Rightarrow> u64 \<Rightarrow> bool \<times> 'i" where
  "seek_reversed B i target v =
     (let (hasItem, i) = it_seek B i (dsItem0\<lparr>key := target, version := v\<rparr>);
          (hasItem, i) =
            (if hasItem \<and> \<not> bytes_Equal target (key (it_item B i)) then it_prev B i else (hasItem, i))
      in if \<not> hasItem then it_last B i else (hasItem, i))"

definition seek_with ::
  "('t, dsItem, 'i) btree_ops \<Rightarrow> slice \<Rightarrow> ('t, 'i) iter_step \<Rightarrow> ('t, 'i) iter_step" where
  "seek_with B k nxt iter0 =
     (let iter = iter0\<lparr>iter_reset := False\<rparr>;
          result = get B (iter_values iter) k (iter_version iter);
          version' = (if key result \<noteq> None \<and> \<not> isDeleted result then version result else iter_version iter);
          (hasItem, i) =
            (if iter_reverse iter
             then let target = (if iter_end iter \<noteq> None \<and> lt (iter_end iter) k then iter_end iter else k)
                  in seek_reversed B (iter_it iter) target version'
             else let target = (if iter_start iter \<noteq> None \<and> lt k (iter_start iter) then iter_start iter else k)
                  in it_seek B (iter_it iter) (dsItem0\<lparr>key := target, version := version'\<rparr>))
      in if \<not> hasItem then Some (Inr False, iter\<lparr>iter_it := i\<rparr>)
         else Option.bind (loadLatestItem B (iter\<lparr>iter_it := i\<rparr>)) (\<lambda>iter.
                if \<not> iter_valid B iter then nxt iter else Some (Inr True, iter)))"

definition restart_with ::
  "('t, dsItem, 'i) btree_ops \<Rightarrow> ('t, 'i) iter_step \<Rightarrow> ('t, 'i) iter_step" where
  "restart_with B nxt iter0 =
     (let iter = iter0\<lparr>iter_reset := False\<rparr>
      in if len (iter_end iter) > 0 \<and> iter_reverse iter then seek_with B (iter_end iter) nxt iter
         else if len (iter_start iter) > 0 \<and> \<not> iter_reverse iter then seek_with B (iter_start iter) nxt iter
         else Option.bind
                (if iter_reverse iter
                 then let (hasItem, i) = it_last B (iter_it iter) in Some (hasItem, iter\<lparr>iter_it := i\<rparr>)
                 else let (hasItem, i) = it_first B (iter_it iter)
                      in map_option (Pair hasItem) (loadLatestItem B (iter\<lparr>iter_it := i\<rparr>)))
                (\<lambda>(hasItem, iter).
                   if \<not> hasItem then Some (Inr False, iter)
                   else if \<not> iter_valid B iter then nxt iter
                   else Some (Inr True, iter)))"

text \<open>The scan of \<^verbatim>\<open>next\<close>: on to the next key with a row the iterator may see.\<close>

partial_function (option) scan_loop ::
  "('t, dsItem, 'i) btree_ops \<Rightarrow> dsItem \<Rightarrow> ('t, 'i) iterator \<Rightarrow> (bool \<times> ('t, 'i) iterator) option" where
  "scan_loop B previousItem iter =
     (let (ok, iter) = moveNext B iter
      in if \<not> ok then Some (False, iter)
         else if \<not> bytes_Equal (key previousItem) (key (iter_Item B iter)) \<and>
                 version (iter_Item B iter) \<le> iter_version iter
         then Some (True, iter)
         else scan_loop B previousItem iter)"

lemma seek_with_mono [partial_function_mono]:
  "(\<And>i. mono_option (\<lambda>f. g f i)) \<Longrightarrow> mono_option (\<lambda>f. seek_with B k (g f) iter)"
  unfolding seek_with_def Let_def case_prod_beta
  by (rule partial_function_mono | assumption | simp)+

lemma restart_with_mono [partial_function_mono]:
  "(\<And>i. mono_option (\<lambda>f. g f i)) \<Longrightarrow> mono_option (\<lambda>f. restart_with B (g f) iter)"
  unfolding restart_with_def Let_def case_prod_beta
  by (rule partial_function_mono | assumption | simp)+

partial_function (option) iter_next ::
  "('t, dsItem, 'i) btree_ops \<Rightarrow> ('t, 'u) Datastore \<Rightarrow> ('t, 'i) iter_step" where
  "iter_next B d iter =
     (if iter_reset iter then restart_with B (iter_next B d) iter
      else Option.bind (scan_loop B (iter_Item B iter) iter) (\<lambda>(hasItem, iter).
             if \<not> hasItem then Some (Inr False, iter)
             else Option.bind (loadLatestItem B iter) (\<lambda>iter.
                    if isDeleted (iter_Item B iter)
                    then if closed d then Some (Inl ErrDBClosed, iter) else iter_next B d iter
                    else Some (Inr (iter_valid B iter), iter))))"

definition restart ::
  "('t, dsItem, 'i) btree_ops \<Rightarrow> ('t, 'u) Datastore \<Rightarrow> ('t, 'i) iter_step" where
  "restart B d = restart_with B (iter_next B d)"

definition iter_Next ::
  "('t, dsItem, 'i) btree_ops \<Rightarrow> ('t, 'u) Datastore \<Rightarrow> ('t, 'i) iter_step" where
  "iter_Next B d iter = (if closed d then Some (Inl ErrDBClosed, iter) else iter_next B d iter)"

definition iter_Key :: "('t, dsItem, 'i) btree_ops \<Rightarrow> ('t, 'i) iterator \<Rightarrow> slice" where
  "iter_Key B iter = key (iter_Item B iter)"

definition iter_Value :: "('t, dsItem, 'i) btree_ops \<Rightarrow> ('t, 'i) iterator \<Rightarrow> slice res" where
  "iter_Value B iter = Inr (val (iter_Item B iter))"

definition seek ::
  "('t, dsItem, 'i) btree_ops \<Rightarrow> ('t, 'u) Datastore \<Rightarrow> slice \<Rightarrow> ('t, 'i) iter_step" where
  "seek B d k = seek_with B k (iter_next B d)"

definition iter_Seek ::
  "('t, dsItem, 'i) btree_ops \<Rightarrow> ('t, 'u) Datastore \<Rightarrow> slice \<Rightarrow> ('t, 'i) iter_step" where
  "iter_Seek B d k iter = (if closed d then Some (Inl ErrDBClosed, iter) else seek B d k iter)"

text \<open>\<^verbatim>\<open>Close\<close> releases the lock of the tree, which is not modelled.\<close>

definition iter_Close :: "('t, 'i) iterator \<Rightarrow> err \<times> ('t, 'i) iterator" where
  "iter_Close iter = (None, iter)"

lemmas iter_defs [run_defs] =
  newPrefixIter_def newRangeIter_def iter_Reset_def iter_valid_def moveNext_def loadLatestItem_def
  seek_reversed_def seek_with_def restart_with_def restart_def iter_Next_def iter_Key_def iter_Value_def seek_def
  iter_Seek_def iter_Close_def

end
