(* ===== verification/Mem_Walk.thy ===== *)
theory Mem_Walk
  imports Mem_Iter
begin

text \<open>
  What the steps of the in-memory iterator do, in both directions at once.  The rows in the
  order the iterator walks them are \<open>walk\<close>; \<open>rests\<close> says at which of them it is.  Every loop
  returns, \<^verbatim>\<open>loadLatestItem\<close> ends on the newest visible row of the current key, and \<^verbatim>\<open>next\<close>
  on the first row ahead that is the newest visible one of its key and no deletion.
\<close>

definition in_range :: "('t, 'i) iterator \<Rightarrow> dsItem \<Rightarrow> bool" where
  "in_range iter x \<longleftrightarrow> kb x \<noteq> [] \<and> contents (iter_start iter) \<le> kb x \<and>
     (contents (iter_end iter) \<noteq> [] \<longrightarrow> kb x < contents (iter_end iter))"

definition newest :: "dsItem list \<Rightarrow> u64 \<Rightarrow> dsItem \<Rightarrow> bool" where
  "newest xs v x \<longleftrightarrow> version x \<le> v \<and> latest xs (kb x) v = x \<and> \<not> isDeleted x"

definition towards :: "bool \<Rightarrow> 'a list \<Rightarrow> 'a list" where
  "towards rvs xs = (if rvs then rev xs else xs)"

lemma towards_simps [simp]: "length (towards r xs) = length xs" "set (towards r xs) = set xs"
  by (auto simp: towards_def)

lemma sorted_wrt_nth_byKeys:
  "sorted_wrt byKeys xs \<Longrightarrow> i < j \<Longrightarrow> j < length xs \<Longrightarrow> byKeys (xs ! i) (xs ! j)"
  by (rule sorted_wrt_nth_less)

lemma towards_keys:
  assumes "sorted_wrt byKeys xs" "i < j" "j < length xs"
  shows "dle r (kb (towards r xs ! i)) (kb (towards r xs ! j))"
proof (cases r)
  case True
  have "byKeys (xs ! (length xs - Suc j)) (xs ! (length xs - Suc i))"
    by (rule sorted_wrt_nth_byKeys [OF assms(1)]) (use assms in auto)
  with True assms show ?thesis by (auto simp: towards_def rev_nth byKeys_iff dle_def dless_def)
next
  case False
  have "byKeys (xs ! i) (xs ! j)" by (rule sorted_wrt_nth_byKeys [OF assms])
  with False show ?thesis by (auto simp: towards_def byKeys_iff dle_def dless_def)
qed

lemma sorted_byKeys_distinct: "sorted_wrt byKeys xs \<Longrightarrow> distinct xs"
  by (induction xs) (auto simp: byKeys.irrefl)

lemma towards_distinct: "sorted_wrt byKeys xs \<Longrightarrow> distinct (towards r xs)"
  by (simp add: towards_def sorted_byKeys_distinct)

text \<open>The first hit of a filter that selects at most one row of every key.\<close>

lemma filter_towards_first:
  assumes "sorted_wrt byKeys xs" "x \<in> set xs" "P x"
    and "\<And>y. y \<in> set xs \<Longrightarrow> P y \<Longrightarrow> y = x \<or> dless r (kb x) (kb y)"
  shows "filter P (towards r xs) = x # filter (\<lambda>y. P y \<and> dless r (kb x) (kb y)) (towards r xs)"
proof -
  let ?ys = "towards r xs"
  obtain i where i: "i < length xs" "?ys ! i = x" using assms(2) by (metis in_set_conv_nth towards_simps)
  have before: "\<not> P (?ys ! j)" if "j < i" for j
  proof
    assume P: "P (?ys ! j)"
    have dle: "dle r (kb (?ys ! j)) (kb x)" using towards_keys [OF assms(1) that i(1), of r] i(2) by simp
    have "?ys ! j \<noteq> x"
    proof
      assume "?ys ! j = x"
      with towards_distinct [OF assms(1), of r] i that show False by (auto simp: nth_eq_iff_index_eq)
    qed
    with P assms(4) [of "?ys ! j"] that i(1) have "dless r (kb x) (kb (?ys ! j))"
      by (metis nth_mem order_less_trans towards_simps)
    with dle show False using dle_dless_trans dless_irrefl by blast
  qed
  have "?ys = take i ?ys @ x # drop (Suc i) ?ys" using i id_take_nth_drop [of i ?ys] by simp
  moreover have "filter P (take i ?ys) = []"
    using before i by (auto simp: filter_empty_conv in_set_conv_nth)
  moreover have "filter (\<lambda>y. P y \<and> dless r (kb x) (kb y)) (take i ?ys) = []"
    using before i by (auto simp: filter_empty_conv in_set_conv_nth)
  moreover have "filter (\<lambda>y. P y \<and> dless r (kb x) (kb y)) (drop (Suc i) ?ys) = filter P (drop (Suc i) ?ys)"
  proof (rule filter_cong [OF refl])
    fix y assume y: "y \<in> set (drop (Suc i) ?ys)"
    then have "y \<in> set xs" using set_drop_subset [of "Suc i" ?ys] by auto
    moreover have "y \<noteq> x" using y i towards_distinct [OF assms(1), of r]
      by (metis Cons_nth_drop_Suc distinct.simps(2) distinct_drop towards_simps(1))
    ultimately show "(P y \<and> dless r (kb x) (kb y)) = P y" using assms(4) by blast
  qed
  ultimately show ?thesis
    using assms(3) by (metis (no_types, lifting) append_Nil dless_irrefl filter.simps(2) filter_append)
qed

subsection \<open>The newest visible row\<close>

lemma latest_visible:
  assumes "sorted_wrt byKeys xs" "x \<in> set xs" "kb x = k" "version x \<le> v"
  shows "latest xs k v \<in> set xs" "kb (latest xs k v) = k" "version (latest xs k v) \<le> v"
  using assms by (auto intro: latest_cases [OF assms(1), of k v])

text \<open>The end of a run of places that satisfy a predicate.\<close>

lemma run_end:
  assumes "n < length xs" "P (xs ! n)" "m = n + length (takeWhile P (drop (Suc n) xs))"
  shows "m < length xs" "P (xs ! m)" "Suc m < length xs \<Longrightarrow> \<not> P (xs ! Suc m)"
proof -
  let ?run = "takeWhile P (drop (Suc n) xs)"
  show m: "m < length xs" using assms(1,3) length_takeWhile_le [of P "drop (Suc n) xs"] by simp
  show "P (xs ! m)"
  proof (cases "length ?run")
    case (Suc k)
    then have "?run ! k = xs ! m" using takeWhile_nth [of k P "drop (Suc n) xs"] m assms(3) by simp
    with Suc nth_mem [of k ?run] set_takeWhileD [of "xs ! m" P] show ?thesis by auto
  qed (use assms in simp)
  show "\<not> P (xs ! Suc m)" if "Suc m < length xs"
    using nth_length_takeWhile [of P "drop (Suc n) xs"] that assms(3) by simp
qed

lemma byKeys_between:
  assumes "byKeys a b" "b = c \<or> byKeys b c" "kb a = kb c"
  shows "kb b = kb c" "version b \<le> version c"
proof -
  have "kb c \<le> kb b" using assms(1) unfolding byKeys_iff assms(3) by (elim disjE conjE) simp_all
  moreover have "kb b \<le> kb c" using assms(2) unfolding byKeys_iff by (elim disjE conjE) simp_all
  ultimately show eq: "kb b = kb c" by (rule antisym [rotated])
  show "version b \<le> version c" using assms(2) unfolding byKeys_iff eq by (elim disjE conjE) simp_all
qed

lemma latest_run:
  assumes "sorted_wrt byKeys xs" "n < length xs" "version (xs ! n) \<le> v"
  defines "m \<equiv> n + length (takeWhile (\<lambda>x. kb x = kb (xs ! n) \<and> version x \<le> v) (drop (Suc n) xs))"
  shows "m < length xs" "xs ! m = latest xs (kb (xs ! n)) v"
proof -
  let ?P = "\<lambda>x. kb x = kb (xs ! n) \<and> version x \<le> v"
  have "?P (xs ! n)" using assms(3) by simp
  note m = run_end [where P = ?P, OF assms(2) this meta_eq_to_obj_eq [OF m_def]]
  note order = sorted_wrt_nth_byKeys [OF assms(1)]
  have later: "\<not> (kb (xs ! j) = kb (xs ! n) \<and> version (xs ! j) \<le> v)" if j: "m < j" "j < length xs" for j
  proof
    assume *: "kb (xs ! j) = kb (xs ! n) \<and> version (xs ! j) \<le> v"
    have up: "byKeys (xs ! m) (xs ! Suc m)" by (rule order) (use j in simp_all)
    have "xs ! Suc m = xs ! j \<or> byKeys (xs ! Suc m) (xs ! j)"
    proof (cases "Suc m = j")
      case False
      then show ?thesis using j by (intro disjI2 order) simp_all
    qed simp
    note between = byKeys_between [OF up this]
    have "kb (xs ! Suc m) = kb (xs ! n)" using between(1) * m(2) by simp
    moreover have "version (xs ! Suc m) \<le> v" using * m(2) by (intro order_trans [OF between(2)]) simp_all
    ultimately show False using m(3) j by simp
  qed
  have "latest xs (kb (xs ! n)) v = xs ! m"
  proof (rule latest_some [OF assms(1)])
    fix y assume y: "y \<in> set xs" "kb y = kb (xs ! n)" "version y \<le> v"
    then obtain j where j: "j < length xs" "y = xs ! j" by (metis in_set_conv_nth)
    with later [of j] y have "j \<le> m" by (meson not_le)
    then have "j = m \<or> byKeys (xs ! j) (xs ! m)" using order [of j m] m(1) by (cases "j = m") auto
    with m(2) y(2) j(2) show "version y \<le> version (xs ! m)" by (auto simp: byKeys_iff)
  qed (use m in simp_all)
  then show "m < length xs" "xs ! m = latest xs (kb (xs ! n)) v" using m(1) by simp_all
qed

lemma run_above:
  assumes "sorted_wrt byKeys xs" "n < length xs" "\<not> version (xs ! n) \<le> v"
  shows "takeWhile (\<lambda>x. kb x = kb (xs ! n) \<and> version x \<le> v) (drop (Suc n) xs) = []"
proof (cases "drop (Suc n) xs")
  case (Cons y ys)
  then have "Suc n < length xs" "y = xs ! Suc n"
    by (metis drop_all leI list.distinct(1), metis Cons_nth_drop_Suc drop_all leI list.distinct(1) list.inject)
  with sorted_wrt_nth_byKeys [OF assms(1), of n "Suc n"] have "byKeys (xs ! n) y" by simp
  with assms(3) have "\<not> (kb y = kb (xs ! n) \<and> version y \<le> v)" by (auto simp: byKeys_iff)
  with Cons show ?thesis by simp
qed simp

text \<open>The row at the end of the run that starts at a row, and a row equal to the last one is last.\<close>

lemma run_row:
  fixes v :: "64 word"
  assumes "sorted_wrt byKeys xs" "n < length xs"
  defines "m \<equiv> n + length (takeWhile (\<lambda>x. kb x = kb (xs ! n) \<and> version x \<le> v) (drop (Suc n) xs))"
  shows "m < length xs \<and> xs ! m = (if version (xs ! n) \<le> v then latest xs (kb (xs ! n)) v else xs ! n)"
proof (cases "version (xs ! n) \<le> v")
  case True
  from latest_run [OF assms(1,2) True] True show ?thesis by (simp only: if_True m_def)
next
  case False
  from run_above [OF assms(1,2) False] False assms(2) show ?thesis by (simp add: m_def)
qed

lemma last_row:
  assumes "sorted_wrt byKeys xs" "n < length xs" "kb (last xs) = kb (xs ! n)" "version (last xs) = version (xs ! n)"
  shows "drop (Suc n) xs = []"
proof (rule ccontr)
  assume "drop (Suc n) xs \<noteq> []"
  then have "n < length xs - 1" by simp
  then have "byKeys (xs ! n) (xs ! (length xs - 1))" by (rule sorted_wrt_nth_byKeys [OF assms(1)]) (use assms(2) in simp)
  moreover have "xs ! (length xs - 1) = last xs" using assms(2) by (cases xs) (simp_all add: last_conv_nth)
  ultimately show False using assms(3,4) by (simp add: byKeys_iff)
qed

text \<open>At most one row of a key is the newest, so a key order on newest rows is strict.\<close>

lemma newest_unique: "newest xs v x \<Longrightarrow> newest xs v y \<Longrightarrow> kb x = kb y \<Longrightarrow> x = y"
  by (metis newest_def)

lemma newest_order:
  "newest xs v x \<Longrightarrow> newest xs v y \<Longrightarrow> dle r (kb x) (kb y) \<Longrightarrow> y = x \<or> dless r (kb x) (kb y)"
  by (auto simp: dle_def dest: newest_unique)

subsection \<open>The loops\<close>

definition iter_inv :: "('t \<Rightarrow> dsItem list) \<Rightarrow> ('i \<Rightarrow> dsItem list) \<Rightarrow> ('t, 'i) iterator \<Rightarrow> bool" where
  "iter_inv items its iter \<longleftrightarrow>
     (let xs = items (iter_values iter)
      in its (iter_it iter) = xs \<and>
         (kb (firstItem iter) = [] \<or> xs \<noteq> [] \<and> firstItem iter = hd xs) \<and>
         (kb (lastItem iter) = [] \<or> xs \<noteq> [] \<and> lastItem iter = last xs))"

abbreviation rows_of :: "('t \<Rightarrow> dsItem list) \<Rightarrow> ('t, 'i) iterator \<Rightarrow> dsItem list" where
  "rows_of items iter \<equiv> items (iter_values iter)"

abbreviation walk :: "('t \<Rightarrow> dsItem list) \<Rightarrow> ('t, 'i) iterator \<Rightarrow> dsItem list" where
  "walk items iter \<equiv> towards (iter_reverse iter) (rows_of items iter)"

definition rests ::
  "('t \<Rightarrow> dsItem list) \<Rightarrow> ('i \<Rightarrow> cursor) \<Rightarrow> ('t, 'i) iterator \<Rightarrow> nat \<Rightarrow> bool" where
  "rests items pos iter p \<longleftrightarrow> p < length (rows_of items iter) \<and>
     pos (iter_it iter) = At (if iter_reverse iter then length (rows_of items iter) - Suc p else p)"

lemma iter_inv_frame:
  "iter_inv items its (iter\<lparr>iter_it := i\<rparr>) \<longleftrightarrow>
     its i = rows_of items iter \<and>
     (kb (firstItem iter) = [] \<or> rows_of items iter \<noteq> [] \<and> firstItem iter = hd (rows_of items iter)) \<and>
     (kb (lastItem iter) = [] \<or> rows_of items iter \<noteq> [] \<and> lastItem iter = last (rows_of items iter))"
  by (simp add: iter_inv_def Let_def)

lemma iter_inv_reset [simp]: "iter_inv items its (iter\<lparr>iter_reset := b\<rparr>) = iter_inv items its iter"
  by (simp add: iter_inv_def)

lemma iter_inv_its: "iter_inv items its iter \<Longrightarrow> its (iter_it iter) = rows_of items iter"
  by (simp add: iter_inv_def Let_def)

lemma rests_reset [simp]: "rests items pos (iter\<lparr>iter_reset := b\<rparr>) p = rests items pos iter p"
  by (simp add: rests_def)

lemma in_range_frame [simp]:
  "in_range (iter\<lparr>iter_it := i\<rparr>) = in_range iter" "in_range (iter\<lparr>iter_reset := b\<rparr>) = in_range iter"
  by (simp_all add: in_range_def fun_eq_iff)

context item_tree
begin

lemma rests_item:
  assumes "iter_inv items its iter" "rests items pos iter p"
  shows "iter_Item B iter = walk items iter ! p"
  using assms item_at [of "iter_it iter"]
  by (auto simp: rests_def iter_inv_its towards_def rev_nth)

lemma valid_iff:
  assumes "iter_inv items its iter" "rests items pos iter p"
  shows "iter_valid B iter \<longleftrightarrow> in_range iter (walk items iter ! p) \<and>
     version (walk items iter ! p) \<le> iter_version iter \<and> \<not> isDeleted (walk items iter ! p)"
  by (auto simp: iter_valid_def rests_item [OF assms] in_range_def len_0_iff lt_iff gte_iff not_less len_def)

lemma loadLatest_loop_At:
  assumes "its i = xs" "pos i = At n" "n < length xs" "kb prev = kb (xs ! n)"
  shows "\<exists>i'. loadLatest_loop B v prev i = Some i' \<and> its i' = xs \<and>
    pos i' = At (n + length (takeWhile (\<lambda>x. kb x = kb (xs ! n) \<and> version x \<le> v) (drop (Suc n) xs)))"
  using assms
proof (induction "length xs - n" arbitrary: i n)
  case 0
  then show ?case by simp
next
  case (Suc m)
  show ?case
  proof (cases "Suc n < length xs")
    case False
    with Suc.prems have "Suc n = length (its i)" by simp
    with Suc.prems next_last [of i n] show ?thesis
      by (subst loadLatest_loop.simps) (auto simp: case_prod_beta)
  next
    case True
    let ?i = "snd (it_next B i)"
    have step: "fst (it_next B i)" "pos ?i = At (Suc n)" "its ?i = xs"
      using True Suc.prems next_at [of i n] by auto
    have item: "it_item B ?i = xs ! Suc n" using step True item_at [of ?i "Suc n"] by simp
    have prev: "its (snd (it_prev B ?i)) = xs" "pos (snd (it_prev B ?i)) = At n"
      using step True prev_at [of ?i n] by auto
    have drop: "drop (Suc n) xs = xs ! Suc n # drop (Suc (Suc n)) xs"
      using True by (simp add: Cons_nth_drop_Suc)
    show ?thesis
    proof (cases "kb (xs ! Suc n) = kb (xs ! n) \<and> version (xs ! Suc n) \<le> v")
      case False
      with step item prev drop Suc.prems show ?thesis
        by (subst loadLatest_loop.simps) (auto simp: case_prod_beta bytes_Equal_def not_le)
    next
      case same: True
      have "loadLatest_loop B v prev i = loadLatest_loop B v prev ?i"
        using step item same Suc.prems by (subst loadLatest_loop.simps) (auto simp: case_prod_beta bytes_Equal_def)
      with Suc.hyps(1) [of "Suc n" ?i] Suc.hyps(2) step same Suc.prems True drop show ?thesis by auto
    qed
  qed
qed

lemma loadLatestItem_rests:
  assumes inv: "iter_inv items its iter" and at: "rests items pos iter p"
  obtains i' q where "loadLatestItem B iter = Some (iter\<lparr>iter_it := i'\<rparr>)"
    "iter_inv items its (iter\<lparr>iter_it := i'\<rparr>)" "rests items pos (iter\<lparr>iter_it := i'\<rparr>) q"
    "walk items iter ! q =
       (if version (walk items iter ! p) \<le> iter_version iter
        then latest (rows_of items iter) (kb (walk items iter ! p)) (iter_version iter)
        else walk items iter ! p)"
proof -
  let ?xs = "rows_of items iter" and ?v = "iter_version iter"
  define n where "n = (if iter_reverse iter then length ?xs - Suc p else p)"
  have n: "n < length ?xs" "pos (iter_it iter) = At n" "?xs ! n = walk items iter ! p"
    using at by (auto simp: n_def rests_def towards_def rev_nth)
  let ?m = "n + length (takeWhile (\<lambda>x. kb x = kb (?xs ! n) \<and> version x \<le> ?v) (drop (Suc n) ?xs))"
  note m = run_row [OF sorted_items [of "iter_values iter"] n(1), of ?v]
  have item: "iter_Item B iter = ?xs ! n" using rests_item [OF inv at] n(3) by simp
  obtain i' where i': "loadLatestItem B iter = Some (iter\<lparr>iter_it := i'\<rparr>)" "its i' = ?xs" "pos i' = At ?m"
  proof (cases "iter_reverse iter \<and> len (key (lastItem iter)) > 0 \<and>
      version (lastItem iter) = version (?xs ! n) \<and> bytes_Equal (key (lastItem iter)) (key (?xs ! n))")
    case True
    with inv have "lastItem iter = last ?xs" by (auto simp: iter_inv_def Let_def len_def)
    with True have "drop (Suc n) ?xs = []" by (intro last_row [OF sorted_items n(1)]) (auto simp: bytes_Equal_def)
    moreover have "loadLatestItem B iter = Some (iter\<lparr>iter_it := iter_it iter\<rparr>)" using True by (simp add: loadLatestItem_def item)
    ultimately show thesis using that [of "iter_it iter"] n(2) iter_inv_its [OF inv] by simp
  next
    case False
    from loadLatest_loop_At [OF iter_inv_its [OF inv] n(2) n(1) refl, of ?v]
    obtain i' where "loadLatest_loop B ?v (?xs ! n) (iter_it iter) = Some i'" "its i' = ?xs" "pos i' = At ?m" by blast
    with False that [of i'] show thesis by (auto simp: loadLatestItem_def item)
  qed
  let ?q = "if iter_reverse iter then length ?xs - Suc ?m else ?m"
  show thesis
  proof (rule that [OF i'(1)])
    show "iter_inv items its (iter\<lparr>iter_it := i'\<rparr>)" using inv i'(2) by (simp add: iter_inv_def Let_def)
    show "rests items pos (iter\<lparr>iter_it := i'\<rparr>) ?q" using m i'(3) by (auto simp: rests_def)
    show "walk items iter ! ?q =
       (if version (walk items iter ! p) \<le> ?v then latest ?xs (kb (walk items iter ! p)) ?v else walk items iter ! p)"
      using m n(3) by (auto simp: towards_def rev_nth)
  qed
qed

lemma loadLatestItem_ex:
  assumes "iter_inv items its iter" "rests items pos iter p"
  shows "\<exists>i' q. loadLatestItem B iter = Some (iter\<lparr>iter_it := i'\<rparr>) \<and>
    iter_inv items its (iter\<lparr>iter_it := i'\<rparr>) \<and> rests items pos (iter\<lparr>iter_it := i'\<rparr>) q \<and>
    walk items iter ! q =
       (if version (walk items iter ! p) \<le> iter_version iter
        then latest (rows_of items iter) (kb (walk items iter ! p)) (iter_version iter)
        else walk items iter ! p)"
  by (rule loadLatestItem_rests [OF assms]) blast

end

end
