(* ===== verification/Mem_Yield.thy ===== *)
theory Mem_Yield
  imports Mem_Walk
begin

text \<open>
  From steps to yields: \<^verbatim>\<open>next\<close> ends on the first row ahead that is the newest visible one of
  its key and no deletion, and \<^verbatim>\<open>restart\<close> and \<^verbatim>\<open>seek\<close> on the first such row of the range.
\<close>

text \<open>The row the scan looks for, and the newest visible rows of the keys ahead of one.\<close>

definition hit :: "u64 \<Rightarrow> dsItem \<Rightarrow> dsItem \<Rightarrow> bool" where
  "hit v prev x \<longleftrightarrow> kb x \<noteq> kb prev \<and> version x \<le> v"

definition ahead :: "('t \<Rightarrow> dsItem list) \<Rightarrow> ('t, 'i) iterator \<Rightarrow> bytes \<Rightarrow> dsItem list" where
  "ahead items iter k = filter (\<lambda>x. dless (iter_reverse iter) k (kb x) \<and> newest (rows_of items iter) (iter_version iter) x)
     (walk items iter)"

lemma ahead_frame [simp]:
  "ahead items (iter\<lparr>iter_it := i\<rparr>) = ahead items iter" "ahead items (iter\<lparr>iter_reset := b\<rparr>) = ahead items iter"
  by (simp_all add: ahead_def fun_eq_iff)

context item_tree
begin

lemma keep_its: "iter_inv items its iter \<Longrightarrow> its i = rows_of items iter \<Longrightarrow> iter_inv items its (iter\<lparr>iter_it := i\<rparr>)"
  by (simp add: iter_inv_def Let_def)

lemma moveNext_forward:
  assumes inv: "iter_inv items its iter" and at: "rests items pos iter p" and "\<not> iter_reverse iter"
  obtains i' where "moveNext B iter = (Suc p < length (rows_of items iter), iter\<lparr>iter_it := i'\<rparr>)"
    "iter_inv items its (iter\<lparr>iter_it := i'\<rparr>)"
    "rests items pos (iter\<lparr>iter_it := i'\<rparr>) (if Suc p < length (rows_of items iter) then Suc p else p)"
proof -
  let ?xs = "rows_of items iter" and ?i = "iter_it iter"
  have its: "its ?i = ?xs" using inv by (rule iter_inv_its)
  have p: "p < length ?xs" "pos ?i = At p" using at assms(3) by (simp_all add: rests_def)
  show thesis
  proof (cases "Suc p < length ?xs")
    case True
    with p its next_at [of ?i p] assms(3) show thesis
      by (intro that [of "snd (it_next B ?i)"] keep_its [OF inv]) (auto simp: moveNext_def case_prod_beta rests_def)
  next
    case False
    with p have "Suc p = length (its ?i)" using its by simp
    with p its next_last [of ?i p] False assms(3) show thesis
      by (intro that [of "snd (it_next B ?i)"] keep_its [OF inv]) (auto simp: moveNext_def case_prod_beta rests_def)
  qed
qed

text \<open>In reverse the first row of the tree is recognised by its key and version.\<close>

lemma first_recognised:
  assumes "iter_inv items its iter" "n < length (rows_of items iter)" "len (key (firstItem iter)) > 0"
    and "version (firstItem iter) = version (rows_of items iter ! n)"
    and "bytes_Equal (key (firstItem iter)) (key (rows_of items iter ! n))"
  shows "n = 0"
proof (rule ccontr)
  assume "n \<noteq> 0"
  from assms(1,3) have "firstItem iter = rows_of items iter ! 0" "rows_of items iter \<noteq> []"
    by (auto simp: iter_inv_def Let_def len_def hd_conv_nth)
  with assms(2,4,5) sorted_wrt_nth_byKeys [OF sorted_items, of 0 n "iter_values iter"] \<open>n \<noteq> 0\<close>
  show False by (auto simp: byKeys_iff bytes_Equal_def)
qed

lemma moveNext_reverse:
  assumes inv: "iter_inv items its iter" and at: "rests items pos iter p" and r: "iter_reverse iter"
  obtains i' where "moveNext B iter = (Suc p < length (rows_of items iter), iter\<lparr>iter_it := i'\<rparr>)"
    "iter_inv items its (iter\<lparr>iter_it := i'\<rparr>)"
    "Suc p < length (rows_of items iter) \<longrightarrow> rests items pos (iter\<lparr>iter_it := i'\<rparr>) (Suc p)"
proof -
  let ?xs = "rows_of items iter" and ?i = "iter_it iter"
  have its: "its ?i = ?xs" using inv by (rule iter_inv_its)
  have p: "p < length ?xs" using at by (simp add: rests_def)
  define n where "n = length ?xs - Suc p"
  have pos: "pos ?i = At n" and n: "n < length ?xs" using at r by (auto simp: rests_def n_def)
  have item: "iter_Item B iter = ?xs ! n" using rests_item [OF inv at] r p by (simp add: towards_def rev_nth n_def)
  let ?guard = "len (key (firstItem iter)) > 0 \<and> version (firstItem iter) = version (?xs ! n) \<and>
      bytes_Equal (key (firstItem iter)) (key (?xs ! n))"
  have move: "moveNext B iter = (if ?guard then (False, iter\<lparr>iter_it := ?i\<rparr>)
      else (fst (it_prev B ?i), iter\<lparr>iter_it := snd (it_prev B ?i)\<rparr>))"
    using r item by (simp add: moveNext_def case_prod_beta)
  show thesis
  proof (cases n)
    case 0
    then have end_: "\<not> Suc p < length ?xs" by (simp add: n_def)
    have "\<not> fst (it_prev B ?i)" using prev_first pos 0 by simp
    with move have "moveNext B iter = (False, iter\<lparr>iter_it := if ?guard then ?i else snd (it_prev B ?i)\<rparr>)" by auto
    from that [unfolded this, OF _ keep_its [OF inv]] end_ its show thesis by auto
  next
    case (Suc m)
    then have ahead: "Suc p < length ?xs" and m: "m = length ?xs - Suc (Suc p)" by (auto simp: n_def)
    have "fst (it_prev B ?i)" "pos (snd (it_prev B ?i)) = At m" using prev_at [of ?i m] pos Suc n its by auto
    moreover have "\<not> ?guard" using first_recognised [OF inv n] Suc by auto
    ultimately show thesis using ahead r move its m
      by (intro that [of "snd (it_prev B ?i)"] keep_its [OF inv]) (auto simp: rests_def)
  qed
qed

lemma moveNext_rests:
  assumes inv: "iter_inv items its iter" and at: "rests items pos iter p"
  obtains i' where "moveNext B iter = (Suc p < length (rows_of items iter), iter\<lparr>iter_it := i'\<rparr>)"
    "iter_inv items its (iter\<lparr>iter_it := i'\<rparr>)"
    "Suc p < length (rows_of items iter) \<Longrightarrow> rests items pos (iter\<lparr>iter_it := i'\<rparr>) (Suc p)"
    "\<not> Suc p < length (rows_of items iter) \<Longrightarrow> \<not> iter_reverse iter \<Longrightarrow> rests items pos (iter\<lparr>iter_it := i'\<rparr>) p"
proof (cases "iter_reverse iter")
  case True
  from moveNext_reverse [OF assms True] obtain i' where "moveNext B iter = (Suc p < length (rows_of items iter), iter\<lparr>iter_it := i'\<rparr>)"
    "iter_inv items its (iter\<lparr>iter_it := i'\<rparr>)"
    "Suc p < length (rows_of items iter) \<longrightarrow> rests items pos (iter\<lparr>iter_it := i'\<rparr>) (Suc p)" .
  with True show thesis by (intro that) simp_all
next
  case False
  from moveNext_forward [OF assms False] obtain i' where "moveNext B iter = (Suc p < length (rows_of items iter), iter\<lparr>iter_it := i'\<rparr>)"
    "iter_inv items its (iter\<lparr>iter_it := i'\<rparr>)"
    "rests items pos (iter\<lparr>iter_it := i'\<rparr>) (if Suc p < length (rows_of items iter) then Suc p else p)" .
  then show thesis by (intro that) simp_all
qed

text \<open>The scan either finds the first row ahead with another key and a visible version, or none.\<close>

lemma scan_loop_found:
  assumes "iter_inv items its (iter\<lparr>iter_it := i\<rparr>)" "rests items pos (iter\<lparr>iter_it := i\<rparr>) p"
    and "q < length (rows_of items iter)" "p < q" "hit (iter_version iter) prev (walk items iter ! q)"
    and "\<And>j. p < j \<Longrightarrow> j < q \<Longrightarrow> \<not> hit (iter_version iter) prev (walk items iter ! j)"
  shows "\<exists>i'. scan_loop B prev (iter\<lparr>iter_it := i\<rparr>) = Some (True, iter\<lparr>iter_it := i'\<rparr>) \<and>
      iter_inv items its (iter\<lparr>iter_it := i'\<rparr>) \<and> rests items pos (iter\<lparr>iter_it := i'\<rparr>) q"
  using assms
proof (induction "q - p" arbitrary: p i)
  case (Suc m)
  obtain i' where i': "moveNext B (iter\<lparr>iter_it := i\<rparr>) = (True, iter\<lparr>iter_it := i'\<rparr>)"
    "iter_inv items its (iter\<lparr>iter_it := i'\<rparr>)" "rests items pos (iter\<lparr>iter_it := i'\<rparr>) (Suc p)"
    using moveNext_rests [OF Suc.prems(1,2)] Suc.prems(3,4) by auto
  have item: "iter_Item B (iter\<lparr>iter_it := i'\<rparr>) = walk items iter ! Suc p"
    using rests_item [OF i'(2,3)] by simp
  have unfold: "scan_loop B prev (iter\<lparr>iter_it := i\<rparr>) =
      (if hit (iter_version iter) prev (walk items iter ! Suc p) then Some (True, iter\<lparr>iter_it := i'\<rparr>)
       else scan_loop B prev (iter\<lparr>iter_it := i'\<rparr>))"
    using i'(1) item by (subst scan_loop.simps) (auto simp: hit_def bytes_Equal_def)
  show ?case
  proof (cases "Suc p = q")
    case True
    with unfold i' Suc.prems(5) show ?thesis by auto
  next
    case False
    with Suc.prems(4) have "Suc p < q" by simp
    with Suc.hyps(1) [of "Suc p" i'] Suc.hyps(2) i'(2,3) Suc.prems unfold show ?thesis by auto
  qed
qed simp

lemma scan_loop_none:
  assumes "iter_inv items its (iter\<lparr>iter_it := i\<rparr>)" "rests items pos (iter\<lparr>iter_it := i\<rparr>) p"
    and "\<And>j. p < j \<Longrightarrow> j < length (rows_of items iter) \<Longrightarrow> \<not> hit (iter_version iter) prev (walk items iter ! j)"
  shows "\<exists>i'. scan_loop B prev (iter\<lparr>iter_it := i\<rparr>) = Some (False, iter\<lparr>iter_it := i'\<rparr>) \<and>
      iter_inv items its (iter\<lparr>iter_it := i'\<rparr>) \<and>
      (\<not> iter_reverse iter \<longrightarrow> rests items pos (iter\<lparr>iter_it := i'\<rparr>) (length (rows_of items iter) - 1))"
  using assms
proof (induction "length (rows_of items iter) - p" arbitrary: p i)
  case 0
  then show ?case by (simp add: rests_def)
next
  case (Suc m)
  let ?n = "length (rows_of items iter)"
  obtain i' where i': "moveNext B (iter\<lparr>iter_it := i\<rparr>) = (Suc p < ?n, iter\<lparr>iter_it := i'\<rparr>)"
    "iter_inv items its (iter\<lparr>iter_it := i'\<rparr>)"
    "Suc p < ?n \<Longrightarrow> rests items pos (iter\<lparr>iter_it := i'\<rparr>) (Suc p)"
    "\<not> Suc p < ?n \<Longrightarrow> \<not> iter_reverse iter \<Longrightarrow> rests items pos (iter\<lparr>iter_it := i'\<rparr>) p"
    using moveNext_rests [OF Suc.prems(1,2)] by auto
  show ?case
  proof (cases "Suc p < ?n")
    case True
    have "iter_Item B (iter\<lparr>iter_it := i'\<rparr>) = walk items iter ! Suc p"
      using rests_item [OF i'(2) i'(3) [OF True]] by simp
    with i'(1) True Suc.prems(3) [of "Suc p"]
    have "scan_loop B prev (iter\<lparr>iter_it := i\<rparr>) = scan_loop B prev (iter\<lparr>iter_it := i'\<rparr>)"
      by (subst scan_loop.simps) (auto simp: hit_def bytes_Equal_def)
    with Suc.hyps(1) [of "Suc p" i'] Suc.hyps(2) i'(2,3) True Suc.prems(3) show ?thesis by auto
  next
    case False
    with Suc.hyps(2) Suc.prems(2) have "p = ?n - 1" by (simp add: rests_def)
    moreover have "scan_loop B prev (iter\<lparr>iter_it := i\<rparr>) = Some (False, iter\<lparr>iter_it := i'\<rparr>)"
      using False i'(1) by (subst scan_loop.simps) simp
    ultimately show ?thesis using i'(2,4) False by auto
  qed
qed

lemma ahead_first:
  assumes "newest (rows_of items iter) (iter_version iter) x" "x \<in> set (rows_of items iter)"
    and "dless (iter_reverse iter) k (kb x)"
    and "\<And>y. y \<in> set (rows_of items iter) \<Longrightarrow> dless (iter_reverse iter) k (kb y) \<Longrightarrow>
      dless (iter_reverse iter) (kb y) (kb x) \<Longrightarrow> \<not> newest (rows_of items iter) (iter_version iter) y"
  shows "ahead items iter k = x # ahead items iter (kb x)"
proof -
  have "ahead items iter k = x # filter (\<lambda>y. (dless (iter_reverse iter) k (kb y) \<and>
      newest (rows_of items iter) (iter_version iter) y) \<and> dless (iter_reverse iter) (kb x) (kb y)) (walk items iter)"
    unfolding ahead_def
    by (rule filter_towards_first [OF sorted_items])
      (use assms dless_linear newest_unique in \<open>metis\<close>)+
  also have "\<dots> = x # ahead items iter (kb x)"
    unfolding ahead_def using assms(3) by (auto intro!: filter_cong dest: dless_trans)
  finally show ?thesis .
qed

text \<open>The first hit of the scan decides what is ahead.\<close>

lemma scan_between:
  assumes "p < length (rows_of items iter)" "q < length (rows_of items iter)" "p < q"
    and "hit v (walk items iter ! p) (walk items iter ! q)"
    and first: "\<And>j. p < j \<Longrightarrow> j < q \<Longrightarrow> \<not> hit v (walk items iter ! p) (walk items iter ! j)"
  shows "dless (iter_reverse iter) (kb (walk items iter ! p)) (kb (walk items iter ! q))"
    and "\<And>y. y \<in> set (rows_of items iter) \<Longrightarrow> dless (iter_reverse iter) (kb (walk items iter ! p)) (kb y) \<Longrightarrow>
      dless (iter_reverse iter) (kb y) (kb (walk items iter ! q)) \<Longrightarrow> \<not> version y \<le> v"
proof -
  let ?ys = "walk items iter" and ?r = "iter_reverse iter"
  have order: "i < j \<Longrightarrow> j < length (rows_of items iter) \<Longrightarrow> dle ?r (kb (?ys ! i)) (kb (?ys ! j))" for i j
    by (rule towards_keys [OF sorted_items])
  from order [OF assms(3,2)] assms(4) show "dless ?r (kb (?ys ! p)) (kb (?ys ! q))"
    by (auto simp: dle_def hit_def)
  fix y assume y: "y \<in> set (rows_of items iter)" "dless ?r (kb (?ys ! p)) (kb y)" "dless ?r (kb y) (kb (?ys ! q))"
  obtain j where j: "j < length (rows_of items iter)" "y = ?ys ! j"
    using y(1) by (metis in_set_conv_nth towards_simps)
  have "\<not> j \<le> p" "\<not> q \<le> j"
    using order [of j p] order [of q j] assms(1) j y dle_dless_trans dless_irrefl
    by (metis le_neq_implies_less)+
  then have "\<not> hit v (?ys ! p) y" using first [of j] j(2) by simp
  with y(2) show "\<not> version y \<le> v" by (auto simp: hit_def)
qed

lemma scan_nothing:
  assumes "p < length (rows_of items iter)"
    and "\<And>j. p < j \<Longrightarrow> j < length (rows_of items iter) \<Longrightarrow>
      \<not> hit (iter_version iter) (walk items iter ! p) (walk items iter ! j)"
  shows "ahead items iter (kb (walk items iter ! p)) = []"
proof -
  let ?ys = "walk items iter" and ?r = "iter_reverse iter"
  have "\<not> version y \<le> iter_version iter"
    if y: "y \<in> set (rows_of items iter)" "dless ?r (kb (?ys ! p)) (kb y)" for y
  proof -
    obtain j where j: "j < length (rows_of items iter)" "y = ?ys ! j"
      using y(1) by (metis in_set_conv_nth towards_simps)
    have "\<not> j \<le> p"
      using towards_keys [OF sorted_items, of j p "iter_values iter" ?r] assms(1) j y dle_dless_trans dless_irrefl
      by (metis le_neq_implies_less)
    then have "\<not> hit (iter_version iter) (?ys ! p) y" using assms(2) [of j] j by simp
    with y(2) show ?thesis by (auto simp: hit_def)
  qed
  then show ?thesis by (auto simp: ahead_def filter_empty_conv newest_def)
qed

lemma walk_order:
  assumes "i \<le> j" "j < length (rows_of items iter)"
  shows "dle (iter_reverse iter) (kb (walk items iter ! i)) (kb (walk items iter ! j))"
  using assms towards_keys [OF sorted_items, of i j "iter_values iter" "iter_reverse iter"]
  by (cases "i = j") (auto simp: dle_def)

text \<open>
  One round of \<^verbatim>\<open>next\<close> that finds a hit: it rests on the newest visible row of the next visible
  key, and goes on from there when that row is a deletion.
\<close>

lemma next_round:
  assumes inv: "iter_inv items its (iter\<lparr>iter_it := i\<rparr>)" and at: "rests items pos (iter\<lparr>iter_it := i\<rparr>) p"
    and run: "\<not> iter_reset iter" "\<not> closed d"
    and hits: "\<exists>q. p < q \<and> q < length (rows_of items iter) \<and> hit (iter_version iter) (walk items iter ! p) (walk items iter ! q)"
  obtains i' q x where "walk items iter ! q = x" "p < q"
    "iter_inv items its (iter\<lparr>iter_it := i'\<rparr>)" "rests items pos (iter\<lparr>iter_it := i'\<rparr>) q"
    "x \<in> set (rows_of items iter)" "version x \<le> iter_version iter" "latest (rows_of items iter) (kb x) (iter_version iter) = x"
    "dless (iter_reverse iter) (kb (walk items iter ! p)) (kb x)"
    "\<And>y. y \<in> set (rows_of items iter) \<Longrightarrow> dless (iter_reverse iter) (kb (walk items iter ! p)) (kb y) \<Longrightarrow>
      dless (iter_reverse iter) (kb y) (kb x) \<Longrightarrow> \<not> version y \<le> iter_version iter"
    "iter_next B d (iter\<lparr>iter_it := i\<rparr>) =
      (if isDeleted x then iter_next B d (iter\<lparr>iter_it := i'\<rparr>)
       else Some (Inr (iter_valid B (iter\<lparr>iter_it := i'\<rparr>)), iter\<lparr>iter_it := i'\<rparr>))"
proof -
  let ?ys = "walk items iter" and ?xs = "rows_of items iter" and ?v = "iter_version iter" and ?r = "iter_reverse iter"
  have prev: "iter_Item B (iter\<lparr>iter_it := i\<rparr>) = ?ys ! p" using rests_item [OF inv at] by simp
  have p: "p < length ?xs" using at by (simp add: rests_def)
  define q where "q = (LEAST q. p < q \<and> q < length ?xs \<and> hit ?v (?ys ! p) (?ys ! q))"
  from hits have q: "p < q" "q < length ?xs" "hit ?v (?ys ! p) (?ys ! q)"
    unfolding q_def by (metis (mono_tags, lifting) LeastI_ex)+
  have first: "\<not> hit ?v (?ys ! p) (?ys ! j)" if "p < j" "j < q" for j
    using that q(2) not_less_Least [of j "\<lambda>q. p < q \<and> q < length ?xs \<and> hit ?v (?ys ! p) (?ys ! q)"]
    by (auto simp: q_def)
  obtain i1 where i1: "scan_loop B (?ys ! p) (iter\<lparr>iter_it := i\<rparr>) = Some (True, iter\<lparr>iter_it := i1\<rparr>)"
    "iter_inv items its (iter\<lparr>iter_it := i1\<rparr>)" "rests items pos (iter\<lparr>iter_it := i1\<rparr>) q"
    using scan_loop_found [OF inv at q(2,1,3) first] by blast
  let ?x = "latest ?xs (kb (?ys ! q)) ?v"
  have visible: "version (?ys ! q) \<le> ?v" using q(3) by (simp add: hit_def)
  obtain i2 q2 where i2: "loadLatestItem B (iter\<lparr>iter_it := i1\<rparr>) = Some (iter\<lparr>iter_it := i2\<rparr>)"
    "iter_inv items its (iter\<lparr>iter_it := i2\<rparr>)" "rests items pos (iter\<lparr>iter_it := i2\<rparr>) q2" "?ys ! q2 = ?x"
    using loadLatestItem_rests [OF i1(2,3)] visible by auto
  have in_xs: "?ys ! q \<in> set ?xs" using q(2) by (metis nth_mem towards_simps)
  have x: "?x \<in> set ?xs" "kb ?x = kb (?ys ! q)" "version ?x \<le> ?v"
    by (rule latest_visible [OF sorted_items in_xs refl visible])+
  have between: "dless ?r (kb (?ys ! p)) (kb ?x)"
    "\<And>y. y \<in> set ?xs \<Longrightarrow> dless ?r (kb (?ys ! p)) (kb y) \<Longrightarrow> dless ?r (kb y) (kb ?x) \<Longrightarrow> \<not> version y \<le> ?v"
    unfolding x(2) using scan_between [OF p q(2,1,3) first] by blast+
  have "iter_Item B (iter\<lparr>iter_it := i2\<rparr>) = ?x" using rests_item [OF i2(2,3)] i2(4) by simp
  then have step: "iter_next B d (iter\<lparr>iter_it := i\<rparr>) =
      (if isDeleted ?x then iter_next B d (iter\<lparr>iter_it := i2\<rparr>)
       else Some (Inr (iter_valid B (iter\<lparr>iter_it := i2\<rparr>)), iter\<lparr>iter_it := i2\<rparr>))"
    using run prev i1(1) i2(1) by (subst iter_next.simps) simp
  have "p < q2"
  proof (rule ccontr)
    assume "\<not> p < q2"
    with walk_order [of q2 p iter] p i2(4) have "dle ?r (kb ?x) (kb (?ys ! p))" by simp
    with between(1) show False using dle_dless_trans dless_irrefl by blast
  qed
  from that [OF i2(4) this i2(2,3) x(1,3) _ between step] x(2) show thesis by simp
qed

text \<open>A deleted key contributes nothing to what is ahead.\<close>

lemma ahead_deleted:
  assumes "latest (rows_of items iter) (kb x) (iter_version iter) = x" "isDeleted x"
    and "dless (iter_reverse iter) k (kb x)"
    and "\<And>y. y \<in> set (rows_of items iter) \<Longrightarrow> dless (iter_reverse iter) k (kb y) \<Longrightarrow>
      dless (iter_reverse iter) (kb y) (kb x) \<Longrightarrow> \<not> version y \<le> iter_version iter"
  shows "ahead items iter k = ahead items iter (kb x)"
  unfolding ahead_def
proof (rule filter_cong [OF refl], safe)
  fix y assume y: "y \<in> set (walk items iter)" "dless (iter_reverse iter) k (kb y)" "newest (rows_of items iter) (iter_version iter) y"
  have "kb y \<noteq> kb x" using y(3) assms(1,2) by (auto simp: newest_def)
  moreover have "\<not> dless (iter_reverse iter) (kb y) (kb x)" using assms(4) [of y] y by (auto simp: newest_def)
  ultimately show "dless (iter_reverse iter) (kb x) (kb y)" using dless_linear by blast
qed (use assms(3) dless_trans in blast)

lemma iter_next_rests:
  assumes "iter_inv items its (iter\<lparr>iter_it := i\<rparr>)" "rests items pos (iter\<lparr>iter_it := i\<rparr>) p"
    and run: "\<not> iter_reset iter" "\<not> closed d"
  shows "case ahead items iter (kb (walk items iter ! p)) of
      [] \<Rightarrow> \<exists>i'. iter_next B d (iter\<lparr>iter_it := i\<rparr>) = Some (Inr False, iter\<lparr>iter_it := i'\<rparr>) \<and>
        iter_inv items its (iter\<lparr>iter_it := i'\<rparr>) \<and>
        (\<not> iter_reverse iter \<longrightarrow> rests items pos (iter\<lparr>iter_it := i'\<rparr>) (length (rows_of items iter) - 1))
    | y # _ \<Rightarrow> \<exists>i' q. iter_next B d (iter\<lparr>iter_it := i\<rparr>) = Some (Inr (in_range iter y), iter\<lparr>iter_it := i'\<rparr>) \<and>
        iter_inv items its (iter\<lparr>iter_it := i'\<rparr>) \<and> rests items pos (iter\<lparr>iter_it := i'\<rparr>) q \<and>
        walk items iter ! q = y"
  using assms(1,2)
proof (induction "length (rows_of items iter) - p" arbitrary: p i rule: less_induct)
  case (less p i)
  let ?ys = "walk items iter" and ?xs = "rows_of items iter" and ?v = "iter_version iter"
  have p: "p < length ?xs" using less.prems(2) by (simp add: rests_def)
  show ?case
  proof (cases "\<exists>q. p < q \<and> q < length ?xs \<and> hit ?v (?ys ! p) (?ys ! q)")
    case False
    then have "\<And>j. p < j \<Longrightarrow> j < length ?xs \<Longrightarrow> \<not> hit ?v (?ys ! p) (?ys ! j)" by blast
    with scan_nothing [OF p this] scan_loop_none [OF less.prems, of "?ys ! p"] run rests_item [OF less.prems] show ?thesis
      by (subst iter_next.simps) auto
  next
    case True
    from next_round [OF less.prems run True] obtain i2 q2 x where i2: "?ys ! q2 = x" "p < q2" "iter_inv items its (iter\<lparr>iter_it := i2\<rparr>)"
      "rests items pos (iter\<lparr>iter_it := i2\<rparr>) q2" and x: "x \<in> set ?xs" "version x \<le> ?v" "latest ?xs (kb x) ?v = x"
      and between: "dless (iter_reverse iter) (kb (?ys ! p)) (kb x)"
        "\<And>y. y \<in> set ?xs \<Longrightarrow> dless (iter_reverse iter) (kb (?ys ! p)) (kb y) \<Longrightarrow> dless (iter_reverse iter) (kb y) (kb x) \<Longrightarrow> \<not> version y \<le> ?v"
      and step: "iter_next B d (iter\<lparr>iter_it := i\<rparr>) =
        (if isDeleted x then iter_next B d (iter\<lparr>iter_it := i2\<rparr>)
         else Some (Inr (iter_valid B (iter\<lparr>iter_it := i2\<rparr>)), iter\<lparr>iter_it := i2\<rparr>))"
      by metis
    show ?thesis
    proof (cases "isDeleted x")
      case True
      from ahead_deleted [OF x(3) True between] i2(1)
      have same: "ahead items iter (kb (?ys ! p)) = ahead items iter (kb (?ys ! q2))" by simp
      have "length ?xs - q2 < length ?xs - p" using i2(2,4) by (auto simp: rests_def)
      moreover from step True
      have "iter_next B d (iter\<lparr>iter_it := i\<rparr>) = iter_next B d (iter\<lparr>iter_it := i2\<rparr>)" by (simp only: if_True)
      ultimately show ?thesis using less.hyps [OF _ i2(3,4)] unfolding same by (simp only:)
    next
      case False
      with x have new: "newest ?xs ?v x" by (simp add: newest_def)
      have "ahead items iter (kb (?ys ! p)) = x # ahead items iter (kb x)"
        by (rule ahead_first [OF new x(1) between(1)]) (use between(2) in \<open>auto simp: newest_def\<close>)
      moreover have "iter_valid B (iter\<lparr>iter_it := i2\<rparr>) = in_range iter x"
        using valid_iff [OF i2(3,4)] i2(1) x(2) False by simp
      ultimately show ?thesis using step False i2 by auto
    qed
  qed
qed

end

text \<open>
  \<open>near\<close>: the iterator has not yet to enter its range.  From such a place on, the first row
  out of the range is behind it, and so are all rows after it.
\<close>

definition near :: "('t, 'i) iterator \<Rightarrow> bytes \<Rightarrow> bool" where
  "near iter k \<longleftrightarrow>
     (if iter_reverse iter then contents (iter_end iter) \<noteq> [] \<longrightarrow> k \<le> contents (iter_end iter)
      else contents (iter_start iter) \<le> k)"

lemma near_frame [simp]: "near (iter\<lparr>iter_it := i\<rparr>) = near iter" "near (iter\<lparr>iter_reset := b\<rparr>) = near iter"
  by (simp_all add: near_def fun_eq_iff)

lemma near_dless: "near iter k \<Longrightarrow> dless (iter_reverse iter) k k' \<Longrightarrow> near iter k'"
  by (auto simp: near_def dless_def split: if_splits)

lemma in_range_near: "in_range iter x \<Longrightarrow> near iter (kb x)"
  by (auto simp: near_def in_range_def)

lemma leaving_range:
  assumes "near iter k" "dless (iter_reverse iter) k (kb x)" "\<not> in_range iter x"
    and "dless (iter_reverse iter) (kb x) (kb z)"
  shows "\<not> in_range iter z"
proof (cases "iter_reverse iter")
  case True
  with assms have lt: "kb x < k" "kb z < kb x" by (auto simp: dless_def)
  with True assms(1,3) have "kb x = [] \<or> \<not> contents (iter_start iter) \<le> kb x"
    by (auto simp: near_def in_range_def)
  with lt(2) show ?thesis by (auto simp: in_range_def)
next
  case False
  with assms have lt: "k < kb x" "kb x < kb z" by (auto simp: dless_def)
  then have "kb x \<noteq> []" by (metis Nil_le_Cons leD neq_Nil_conv)
  with False lt assms(1,3) have "contents (iter_end iter) \<noteq> []" "contents (iter_end iter) \<le> kb x"
    by (auto simp: near_def in_range_def)
  with lt(2) show ?thesis by (auto simp: in_range_def)
qed

subsection \<open>Coming to rest\<close>

text \<open>The rows a full iteration yields, and those still to come after a key.\<close>

definition selected :: "('t \<Rightarrow> dsItem list) \<Rightarrow> ('t, 'i) iterator \<Rightarrow> dsItem list" where
  "selected items iter =
     filter (\<lambda>x. newest (rows_of items iter) (iter_version iter) x \<and> in_range iter x) (walk items iter)"

definition selected_after :: "('t \<Rightarrow> dsItem list) \<Rightarrow> ('t, 'i) iterator \<Rightarrow> bytes \<Rightarrow> dsItem list" where
  "selected_after items iter k = filter (in_range iter) (ahead items iter k)"

lemma selected_frame [simp]:
  "selected items (iter\<lparr>iter_it := i\<rparr>) = selected items iter" "selected items (iter\<lparr>iter_reset := b\<rparr>) = selected items iter"
  "selected_after items (iter\<lparr>iter_it := i\<rparr>) = selected_after items iter"
  "selected_after items (iter\<lparr>iter_reset := b\<rparr>) = selected_after items iter"
  by (simp_all add: selected_def selected_after_def fun_eq_iff)

context item_tree
begin

lemma ahead_unfold:
  assumes "ahead items iter k = y # ys"
  shows "ys = ahead items iter (kb y)" "dless (iter_reverse iter) k (kb y)"
    "newest (rows_of items iter) (iter_version iter) y" "y \<in> set (rows_of items iter)"
proof -
  let ?r = "iter_reverse iter"
  let ?P = "\<lambda>x. dless ?r k (kb x) \<and> newest (rows_of items iter) (iter_version iter) x"
  have y: "?P y" "y \<in> set (rows_of items iter)"
    using assms filter_set [of ?P "walk items iter"] by (auto simp: ahead_def dest!: filter_eq_ConsD)
  then show "dless ?r k (kb y)" "newest (rows_of items iter) (iter_version iter) y" "y \<in> set (rows_of items iter)"
    by auto
  have first: "\<not> newest (rows_of items iter) (iter_version iter) z"
    if z: "z \<in> set (rows_of items iter)" "dless ?r k (kb z)" "dless ?r (kb z) (kb y)" for z
  proof
    assume new: "newest (rows_of items iter) (iter_version iter) z"
    then have "z \<in> set (ahead items iter k)" using z by (simp add: ahead_def)
    with assms z(3) have zys: "z \<in> set ys" by auto
    obtain us vs where w: "walk items iter = us @ y # vs" "ys = filter ?P vs"
      using assms by (auto simp: ahead_def dest!: filter_eq_ConsD)
    with zys obtain j where j: "j < length vs" "z = vs ! j" by (auto simp: in_set_conv_nth)
    have len: "length (rows_of items iter) = length us + Suc (length vs)"
      using w(1) by (metis length_Cons length_append towards_simps(1))
    have "dle ?r (kb (walk items iter ! length us)) (kb (walk items iter ! (length us + Suc j)))"
      by (rule towards_keys [OF sorted_items]) (use j len in auto)
    then have "dle ?r (kb y) (kb z)" using j by (simp add: w(1) nth_append)
    with z(3) show False using dle_dless_trans dless_irrefl by blast
  qed
  from ahead_first [OF _ y(2) _ this, of k] y assms show "ys = ahead items iter (kb y)" by simp
qed

text \<open>The first row out of the range ends the selection, and nothing is left after the last row.\<close>

lemma left_range:
  assumes near: "near iter k \<or> selected items iter = []"
    and "ahead items iter k = y # ys" "\<not> in_range iter y"
  shows "selected_after items iter k = [] \<and> selected_after items iter (kb y) = []"
proof -
  note y = ahead_unfold [OF assms(2)]
  have "\<not> in_range iter z" if z: "z \<in> set (ahead items iter (kb y))" for z
    using near
  proof
    assume "near iter k"
    from leaving_range [OF this y(2) assms(3), of z] z show ?thesis by (simp add: ahead_def)
  next
    assume "selected items iter = []"
    with z show ?thesis by (auto simp: selected_def ahead_def filter_empty_conv)
  qed
  with assms(2,3) y(1) show ?thesis by (auto simp: selected_after_def filter_empty_conv)
qed

lemma after_last:
  assumes "p < length (rows_of items iter)"
  shows "selected_after items iter (kb (walk items iter ! (length (rows_of items iter) - 1))) = []"
    "dle (iter_reverse iter) (kb (walk items iter ! p)) (kb (walk items iter ! (length (rows_of items iter) - 1)))"
  using scan_nothing [of "length (rows_of items iter) - 1" iter] walk_order [of p "length (rows_of items iter) - 1" iter] assms
  by (simp_all add: selected_after_def)

text \<open>The rows wanted from a key on, when the key has a row to show and when it has none.\<close>

lemma from_key_first:
  assumes "c \<in> set (rows_of items iter)" "newest (rows_of items iter) (iter_version iter) c" "in_range iter c"
  shows "filter (\<lambda>x. newest (rows_of items iter) (iter_version iter) x \<and> in_range iter x \<and> dle (iter_reverse iter) (kb c) (kb x))
      (walk items iter) = c # selected_after items iter (kb c)"
proof -
  let ?P = "\<lambda>x. newest (rows_of items iter) (iter_version iter) x \<and> in_range iter x \<and> dle (iter_reverse iter) (kb c) (kb x)"
  have "filter ?P (walk items iter) = c # filter (\<lambda>y. ?P y \<and> dless (iter_reverse iter) (kb c) (kb y)) (walk items iter)"
    by (rule filter_towards_first [OF sorted_items assms(1)]) (use assms(2,3) newest_order in \<open>auto simp: dle_def\<close>)
  also have "\<dots> = c # selected_after items iter (kb c)"
    by (auto simp: selected_after_def ahead_def dle_def intro!: filter_cong)
  finally show ?thesis .
qed

lemma from_key_none:
  assumes "\<And>x. kb x = k \<Longrightarrow> x \<in> set (rows_of items iter) \<Longrightarrow> \<not> (newest (rows_of items iter) (iter_version iter) x \<and> in_range iter x)"
  shows "filter (\<lambda>x. newest (rows_of items iter) (iter_version iter) x \<and> in_range iter x \<and> dle (iter_reverse iter) k (kb x))
      (walk items iter) = selected_after items iter k"
  unfolding selected_after_def ahead_def filter_filter using assms by (intro filter_cong) (auto simp: dle_def)

text \<open>
  The end of \<^verbatim>\<open>restart\<close> and \<^verbatim>\<open>seek\<close>: when the row the iterator came to is the newest visible
  one of its key, or its key has none, it goes on to the first row wanted.
\<close>

lemma settle:
  assumes inv: "iter_inv items its (iter\<lparr>iter_it := i\<rparr>)" and at: "rests items pos (iter\<lparr>iter_it := i\<rparr>) p"
    and run: "\<not> iter_reset iter" "\<not> closed d"
    and c: "c = walk items iter ! p"
      "version c \<le> iter_version iter \<and> latest (rows_of items iter) (kb c) (iter_version iter) = c \<or>
       \<not> iter_valid B (iter\<lparr>iter_it := i\<rparr>) \<and> (\<forall>x \<in> set (rows_of items iter). kb x = kb c \<longrightarrow> \<not> newest (rows_of items iter) (iter_version iter) x)"
    and wanted: "\<And>x. x \<in> set (rows_of items iter) \<Longrightarrow> newest (rows_of items iter) (iter_version iter) x \<Longrightarrow>
      in_range iter x \<Longrightarrow> W x \<longleftrightarrow> dle (iter_reverse iter) (kb c) (kb x)"
    and near: "near iter (kb c) \<or> selected items iter = []"
  shows "case filter W (selected items iter) of
      [] \<Rightarrow> \<exists>i'. (if \<not> iter_valid B (iter\<lparr>iter_it := i\<rparr>) then iter_next B d (iter\<lparr>iter_it := i\<rparr>)
                 else Some (Inr True, iter\<lparr>iter_it := i\<rparr>)) = Some (Inr False, iter\<lparr>iter_it := i'\<rparr>) \<and>
        iter_inv items its (iter\<lparr>iter_it := i'\<rparr>) \<and>
        (\<not> iter_reverse iter \<longrightarrow> (\<exists>q. rests items pos (iter\<lparr>iter_it := i'\<rparr>) q \<and>
          selected_after items iter (kb (walk items iter ! q)) = [] \<and> dle False (kb c) (kb (walk items iter ! q))))
    | y # R \<Rightarrow> \<exists>i' q. (if \<not> iter_valid B (iter\<lparr>iter_it := i\<rparr>) then iter_next B d (iter\<lparr>iter_it := i\<rparr>)
                 else Some (Inr True, iter\<lparr>iter_it := i\<rparr>)) = Some (Inr True, iter\<lparr>iter_it := i'\<rparr>) \<and>
        iter_inv items its (iter\<lparr>iter_it := i'\<rparr>) \<and> rests items pos (iter\<lparr>iter_it := i'\<rparr>) q \<and>
        walk items iter ! q = y \<and> R = selected_after items iter (kb y) \<and> near iter (kb y)"
proof -
  let ?xs = "rows_of items iter" and ?v = "iter_version iter" and ?r = "iter_reverse iter"
  let ?S = "filter W (selected items iter)"
  have S: "?S = filter (\<lambda>x. newest ?xs ?v x \<and> in_range iter x \<and> dle ?r (kb c) (kb x)) (walk items iter)"
    unfolding selected_def filter_filter using wanted by (intro filter_cong) auto
  have p: "p < length ?xs" using at by (simp add: rests_def)
  then have c_xs: "c \<in> set ?xs" using c(1) by (metis nth_mem towards_simps)
  have valid: "iter_valid B (iter\<lparr>iter_it := i\<rparr>) \<longleftrightarrow> in_range iter c \<and> version c \<le> ?v \<and> \<not> isDeleted c"
    using valid_iff [OF inv at] c(1) by simp
  show ?thesis
  proof (cases "iter_valid B (iter\<lparr>iter_it := i\<rparr>)")
    case True
    with valid c(2) have new: "newest ?xs ?v c" "in_range iter c" by (auto simp: newest_def)
    from from_key_first [OF c_xs this] True inv at c(1) in_range_near [OF new(2)] show ?thesis unfolding S by auto
  next
    case False
    have "\<not> (newest ?xs ?v x \<and> in_range iter x)" if "kb x = kb c" "x \<in> set ?xs" for x
      using that c(2) False valid by (auto simp: newest_def)
    from from_key_none [OF this] have S': "?S = selected_after items iter (kb c)" unfolding S .
    note step = iter_next_rests [OF inv at run, folded c(1)] and last = after_last [OF p, folded c(1)]
    show ?thesis
    proof (cases "ahead items iter (kb c)")
      case Nil
      then have "?S = []" by (simp add: S' selected_after_def)
      moreover from step Nil obtain i' where i': "iter_next B d (iter\<lparr>iter_it := i\<rparr>) = Some (Inr False, iter\<lparr>iter_it := i'\<rparr>)"
        "iter_inv items its (iter\<lparr>iter_it := i'\<rparr>)"
        "\<not> ?r \<longrightarrow> rests items pos (iter\<lparr>iter_it := i'\<rparr>) (length ?xs - 1)" by auto
      moreover have "\<not> ?r \<longrightarrow> (\<exists>q. rests items pos (iter\<lparr>iter_it := i'\<rparr>) q \<and>
          selected_after items iter (kb (walk items iter ! q)) = [] \<and> dle False (kb c) (kb (walk items iter ! q)))"
        using i'(3) last by (intro impI exI [of _ "length ?xs - 1"]) (simp only: simp_thms)
      ultimately show ?thesis using False by auto
    next
      case (Cons y ys)
      note y = ahead_unfold [OF Cons]
      show ?thesis
      proof (cases "in_range iter y")
        case True
        then have "?S = y # selected_after items iter (kb y)" using Cons y(1) by (simp add: S' selected_after_def)
        with step Cons False True in_range_near [OF True] show ?thesis by auto
      next
        case out: False
        note after = left_range [OF near Cons out]
        then have "?S = []" by (simp add: S')
        with step Cons False out after y(2) show ?thesis by (fastforce simp: dle_def)
      qed
    qed
  qed
qed

end

end
