(* ===== verification/Mem_Seek.thy ===== *)
theory Mem_Seek
  imports Mem_Yield
begin

text \<open>
  Where \<^verbatim>\<open>restart\<close> and \<^verbatim>\<open>seek\<close> come to rest.  \<open>lands\<close> says that a call ended on the first
  of a list of rows, or returned false when the list is empty.
\<close>

definition lands ::
  "('t \<Rightarrow> dsItem list) \<Rightarrow> ('i \<Rightarrow> dsItem list) \<Rightarrow> ('i \<Rightarrow> cursor) \<Rightarrow>
   (bool res \<times> ('t, 'i) iterator) option \<Rightarrow> ('t, 'i) iterator \<Rightarrow> dsItem list \<Rightarrow> bool" where
  "lands items its pos result iter S \<longleftrightarrow>
     (case S of
        [] \<Rightarrow> \<exists>i'. result = Some (Inr False, iter\<lparr>iter_it := i'\<rparr>) \<and> iter_inv items its (iter\<lparr>iter_it := i'\<rparr>) \<and>
          (\<not> iter_reverse iter \<longrightarrow> pos i' = Past \<or> rows_of items iter = [] \<or>
             (\<exists>q. rests items pos (iter\<lparr>iter_it := i'\<rparr>) q \<and> near iter (kb (walk items iter ! q)) \<and>
                selected_after items iter (kb (walk items iter ! q)) = []))
      | y # R \<Rightarrow> \<exists>i' q. result = Some (Inr True, iter\<lparr>iter_it := i'\<rparr>) \<and> iter_inv items its (iter\<lparr>iter_it := i'\<rparr>) \<and>
          rests items pos (iter\<lparr>iter_it := i'\<rparr>) q \<and> walk items iter ! q = y \<and>
          R = selected_after items iter (kb y) \<and> near iter (kb y))"

lemma seek_ix_iff:
  assumes "sorted_wrt byKeys xs" "i < length xs"
  shows "byKeys (xs ! i) x \<longleftrightarrow> i < seek_ix byKeys xs x"
proof -
  let ?n = "seek_ix byKeys xs x"
  have "byKeys (xs ! i) x" if "i < ?n"
    using that takeWhile_nth [of i "\<lambda>y. byKeys y x" xs] nth_mem [of i "takeWhile (\<lambda>y. byKeys y x) xs"]
      set_takeWhileD [of "xs ! i" "\<lambda>y. byKeys y x" xs] by (simp add: seek_ix_def)
  moreover have "\<not> byKeys (xs ! i) x" if "?n \<le> i"
  proof -
    have "\<not> byKeys (xs ! ?n) x"
      using that assms(2) nth_length_takeWhile [of "\<lambda>y. byKeys y x" xs] by (simp add: seek_ix_def)
    moreover have "?n = i \<or> byKeys (xs ! ?n) (xs ! i)"
      using that assms by (cases "?n = i") (auto intro!: sorted_wrt_nth_byKeys)
    ultimately show ?thesis using byKeys.trans by metis
  qed
  ultimately show ?thesis by (meson not_le)
qed

lemma seek_ix_le: "seek_ix byKeys xs x \<le> length xs"
  by (simp add: seek_ix_def length_takeWhile_le)

lemma sorted_kb_le:
  assumes "sorted_wrt byKeys xs" "i \<le> j" "j < length xs"
  shows "kb (xs ! i) \<le> kb (xs ! j)"
  using assms sorted_wrt_nth_byKeys [OF assms(1), of i j] by (cases "i = j") (auto simp: byKeys_iff)

subsection \<open>The row a search rests on\<close>

text \<open>The version \<^verbatim>\<open>seek\<close> searches for: that of the row it would return for the key, if there is one.\<close>

definition seek_version :: "dsItem list \<Rightarrow> slice \<Rightarrow> 64 word \<Rightarrow> 64 word" where
  "seek_version xs k v = (let res = latest xs (contents k) v in if key res \<noteq> None \<and> \<not> isDeleted res then version res else v)"

abbreviation pivot :: "slice \<Rightarrow> 64 word \<Rightarrow> dsItem" where
  "pivot k v \<equiv> dsItem0\<lparr>key := k, version := v\<rparr>"

lemma newest_not_below:
  "contents k \<noteq> [] \<Longrightarrow> newest xs v y \<Longrightarrow> kb y = contents k \<Longrightarrow> version y < seek_version xs k v \<Longrightarrow> y \<notin> set xs"
  using kb_nonempty_key [of y] by (auto simp: newest_def seek_version_def Let_def split: if_splits)

lemma seek_ix_order:
  assumes "sorted_wrt byKeys xs" "n = seek_ix byKeys xs p" "n < length xs" "y \<in> set xs"
  shows "byKeys y p \<or> y = xs ! n \<or> byKeys (xs ! n) y"
  using assms seek_ix_iff [OF assms(1), of _ p] sorted_wrt_nth_byKeys [OF assms(1), of n]
  by (metis in_set_conv_nth linorder_neqE_nat)

text \<open>On a row the search found, for the version above.\<close>

definition found_at :: "dsItem list \<Rightarrow> slice \<Rightarrow> 64 word \<Rightarrow> nat \<Rightarrow> bool" where
  "found_at xs k v n \<longleftrightarrow>
     sorted_wrt byKeys xs \<and> contents k \<noteq> [] \<and> n = seek_ix byKeys xs (pivot k (seek_version xs k v)) \<and> n < length xs"

lemma found_ge: "found_at xs k v n \<Longrightarrow> contents k \<le> kb (xs ! n)"
  using seek_ix_iff [of xs n "pivot k (seek_version xs k v)"] by (auto simp: found_at_def byKeys_iff)

lemma found_order:
  "found_at xs k v n \<Longrightarrow> y \<in> set xs \<Longrightarrow> byKeys y (pivot k (seek_version xs k v)) \<or> y = xs ! n \<or> byKeys (xs ! n) y"
  using seek_ix_order by (auto simp: found_at_def)

lemma found_visible:
  assumes "found_at xs k v n"
  shows "version (xs ! n) \<le> v \<or> (\<forall>y \<in> set xs. kb y = kb (xs ! n) \<longrightarrow> \<not> newest xs v y)"
proof (rule ccontr)
  assume "\<not> ?thesis"
  then obtain y where y: "kb y = kb (xs ! n)" "newest xs v y" "\<not> version (xs ! n) \<le> v" "y \<in> set xs" by auto
  with found_order [OF assms y(4)] found_ge [OF assms] have "kb y = contents k" "version y < seek_version xs k v"
    by (auto simp: byKeys_iff newest_def)
  with newest_not_below [of k xs v y] assms y(2,4) show False by (auto simp: found_at_def)
qed

lemma found_first:
  assumes "found_at xs k v n" "y \<in> set xs" "newest xs v y"
  shows "contents k \<le> kb y \<longleftrightarrow> kb (xs ! n) \<le> kb y"
proof
  assume "contents k \<le> kb y"
  with newest_not_below [of k xs v y] assms have "\<not> byKeys y (pivot k (seek_version xs k v))"
    by (auto simp: byKeys_iff found_at_def)
  with found_order [OF assms(1,2)] show "kb (xs ! n) \<le> kb y" by (auto simp: byKeys_iff)
qed (use found_ge [OF assms(1)] in auto)

lemma nothing_found:
  assumes "sorted_wrt byKeys xs" "contents k \<noteq> []" "length xs \<le> seek_ix byKeys xs (pivot k (seek_version xs k v))"
    and "y \<in> set xs" "newest xs v y"
  shows "\<not> contents k \<le> kb y"
proof -
  obtain j where "j < length xs" "y = xs ! j" using assms(4) by (auto simp: in_set_conv_nth)
  with seek_ix_iff [OF assms(1), of j] assms(3) have "byKeys y (pivot k (seek_version xs k v))" by simp
  with newest_not_below [OF assms(2,5)] assms(4) show ?thesis by (auto simp: byKeys_iff)
qed

text \<open>
  The row a reverse \<^verbatim>\<open>seek\<close> is to rest on: a row of the target key, the last row below it, or,
  when there is none, whichever.
\<close>

definition nearest_below :: "dsItem list \<Rightarrow> bytes \<Rightarrow> nat \<Rightarrow> bool" where
  "nearest_below xs b n \<longleftrightarrow> n < length xs \<and>
     (kb (xs ! n) \<le> b \<and> (\<forall>y \<in> set xs. kb y \<le> b \<longrightarrow> kb y \<le> kb (xs ! n)) \<or> (\<forall>y \<in> set xs. b < kb y))"

lemma nearest_last:
  assumes "sorted_wrt byKeys xs" "xs \<noteq> []" "\<forall>y \<in> set xs. kb y \<le> b"
  shows "nearest_below xs b (length xs - 1)"
proof -
  have "kb y \<le> kb (xs ! (length xs - 1))" if "y \<in> set xs" for y
    using that sorted_kb_le [OF assms(1), of _ "length xs - 1"] by (fastforce simp: in_set_conv_nth)
  with assms(2,3) show ?thesis by (simp add: nearest_below_def)
qed

lemma nearest_prev:
  assumes "sorted_wrt byKeys xs" "Suc m < length xs" "kb (xs ! m) \<le> b" "b < kb (xs ! Suc m)"
  shows "nearest_below xs b m"
proof -
  have "kb (xs ! j) \<le> kb (xs ! m)" if "j < length xs" "kb (xs ! j) \<le> b" for j
  proof (cases "j \<le> m")
    case False
    with sorted_kb_le [OF assms(1), of "Suc m" j] that assms(4) show ?thesis by auto
  qed (use sorted_kb_le [OF assms(1)] assms(2) in simp)
  with assms(2,3) show ?thesis by (auto simp: nearest_below_def in_set_conv_nth)
qed

lemma nearest_none:
  assumes "sorted_wrt byKeys xs" "xs \<noteq> []" "b < kb (xs ! 0)"
  shows "nearest_below xs b (length xs - 1)"
proof -
  have "b < kb y" if "y \<in> set xs" for y
    using that sorted_kb_le [OF assms(1), of 0] assms(3) by (fastforce simp: in_set_conv_nth)
  with assms(2) show ?thesis by (simp add: nearest_below_def)
qed

context item_tree
begin

lemma settle_lands:
  assumes inv: "iter_inv items its (iter\<lparr>iter_it := i\<rparr>)" and at: "rests items pos (iter\<lparr>iter_it := i\<rparr>) p"
    and run: "\<not> iter_reset iter" "\<not> closed d"
    and c: "c = walk items iter ! p"
      "version c \<le> iter_version iter \<and> latest (rows_of items iter) (kb c) (iter_version iter) = c \<or>
       \<not> iter_valid B (iter\<lparr>iter_it := i\<rparr>) \<and> (\<forall>x \<in> set (rows_of items iter). kb x = kb c \<longrightarrow> \<not> newest (rows_of items iter) (iter_version iter) x)"
    and wanted: "\<And>x. x \<in> set (rows_of items iter) \<Longrightarrow> newest (rows_of items iter) (iter_version iter) x \<Longrightarrow>
      in_range iter x \<Longrightarrow> W x \<longleftrightarrow> dle (iter_reverse iter) (kb c) (kb x)"
    and near: "near iter (kb c) \<or> iter_reverse iter \<and> selected items iter = []"
  shows "lands items its pos
    (if \<not> iter_valid B (iter\<lparr>iter_it := i\<rparr>) then iter_next B d (iter\<lparr>iter_it := i\<rparr>)
     else Some (Inr True, iter\<lparr>iter_it := i\<rparr>)) iter (filter W (selected items iter))"
proof -
  from near have "near iter (kb c) \<or> selected items iter = []" by blast
  note res = settle [OF inv at run c wanted this]
  have "near iter k" if "dle False (kb c) k" "\<not> iter_reverse iter" for k
    using near near_dless [of iter "kb c" k] that by (auto simp: dle_def)
  with res show ?thesis
    unfolding lands_def by (cases "filter W (selected items iter)") fastforce+
qed

lemma load_lands:
  assumes inv: "iter_inv items its (iter\<lparr>iter_it := i\<rparr>)" and at: "rests items pos (iter\<lparr>iter_it := i\<rparr>) p"
    and run: "\<not> iter_reset iter" "\<not> closed d"
    and x: "x = walk items iter ! p"
      "version x \<le> iter_version iter \<or>
       (\<forall>y \<in> set (rows_of items iter). kb y = kb x \<longrightarrow> \<not> newest (rows_of items iter) (iter_version iter) y)"
    and wanted: "\<And>y. y \<in> set (rows_of items iter) \<Longrightarrow> newest (rows_of items iter) (iter_version iter) y \<Longrightarrow>
      in_range iter y \<Longrightarrow> W y \<longleftrightarrow> dle (iter_reverse iter) (kb x) (kb y)"
    and near: "near iter (kb x) \<or> iter_reverse iter \<and> selected items iter = []"
  shows "lands items its pos
    (Option.bind (loadLatestItem B (iter\<lparr>iter_it := i\<rparr>)) (\<lambda>iter.
       if \<not> iter_valid B iter then iter_next B d iter else Some (Inr True, iter)))
    iter (filter W (selected items iter))"
proof -
  let ?xs = "rows_of items iter" and ?v = "iter_version iter"
  have "p < length ?xs" using at by (simp add: rests_def)
  then have x_xs: "x \<in> set ?xs" using x(1) by (metis nth_mem towards_simps)
  obtain i' q where i': "loadLatestItem B (iter\<lparr>iter_it := i\<rparr>) = Some (iter\<lparr>iter_it := i'\<rparr>)"
    "iter_inv items its (iter\<lparr>iter_it := i'\<rparr>)" "rests items pos (iter\<lparr>iter_it := i'\<rparr>) q"
    "walk items iter ! q = (if version x \<le> ?v then latest ?xs (kb x) ?v else x)"
    using loadLatestItem_ex [OF inv at] by (auto simp: x(1) simp del: split_paired_Ex)
  define c where "c = walk items iter ! q"
  have "kb c = kb x \<and> (version c \<le> ?v \<and> latest ?xs (kb c) ?v = c \<or>
       \<not> iter_valid B (iter\<lparr>iter_it := i'\<rparr>) \<and> (\<forall>x \<in> set ?xs. kb x = kb c \<longrightarrow> \<not> newest ?xs ?v x))"
  proof (cases "version x \<le> ?v")
    case True
    with latest_visible [OF sorted_items x_xs refl True] i'(4) show ?thesis by (simp add: c_def)
  next
    case False
    with i'(4) have "c = x" by (simp add: c_def)
    moreover have "\<not> iter_valid B (iter\<lparr>iter_it := i'\<rparr>)"
      using valid_iff [OF i'(2,3)] False i'(4) by simp
    ultimately show ?thesis using x(2) False by simp
  qed
  then have kb: "kb c = kb x" and c: "version c \<le> ?v \<and> latest ?xs (kb c) ?v = c \<or>
       \<not> iter_valid B (iter\<lparr>iter_it := i'\<rparr>) \<and> (\<forall>x \<in> set ?xs. kb x = kb c \<longrightarrow> \<not> newest ?xs ?v x)" by auto
  from settle_lands [OF i'(2,3) run c_def c, of W] wanted near kb i'(1) show ?thesis by simp
qed

subsection \<open>Seeking forward\<close>

lemma seek_with_forward:
  assumes "\<not> iter_reverse iter" "\<not> lt k (iter_start iter)"
  shows "seek_with B k g iter =
    (let i = iter\<lparr>iter_reset := False\<rparr>; r = it_seek B (iter_it iter) (pivot k (seek_version (rows_of items iter) k (iter_version iter)))
     in if \<not> fst r then Some (Inr False, i\<lparr>iter_it := snd r\<rparr>)
        else Option.bind (loadLatestItem B (i\<lparr>iter_it := snd r\<rparr>)) (\<lambda>iter.
          if \<not> iter_valid B iter then g iter else Some (Inr True, iter)))"
  using assms by (simp add: seek_with_def get_latest case_prod_beta Let_def seek_version_def)

lemma seek_forward:
  assumes inv: "iter_inv items its iter" and "\<not> iter_reverse iter" "\<not> closed d"
    and le: "contents (iter_start iter) \<le> contents k" and ne: "contents k \<noteq> []"
  shows "lands items its pos (seek_with B k (iter_next B d) iter) (iter\<lparr>iter_reset := False\<rparr>)
    (filter (\<lambda>x. contents k \<le> kb x) (selected items iter))"
proof -
  let ?iter = "iter\<lparr>iter_reset := False\<rparr>" and ?xs = "rows_of items iter" and ?v = "iter_version iter"
  let ?p = "pivot k (seek_version ?xs k ?v)"
  let ?i = "snd (it_seek B (iter_it iter) ?p)" and ?n = "seek_ix byKeys ?xs ?p"
  have its: "its (iter_it iter) = ?xs" using inv by (rule iter_inv_its)
  have inv': "iter_inv items its (?iter\<lparr>iter_it := ?i\<rparr>)" using inv by (simp add: iter_inv_def Let_def)
  have "\<not> lt k (iter_start iter)" using le by (auto simp: lt_iff)
  note eq = seek_with_forward [OF assms(2) this]
  show ?thesis
  proof (cases "?n < length ?xs")
    case False
    then have "length ?xs \<le> ?n" by simp
    with nothing_found [OF _ ne this] sorted_items have "filter (\<lambda>x. contents k \<le> kb x) (selected items iter) = []"
      by (auto simp: selected_def filter_empty_conv)
    moreover have "\<not> fst (it_seek B (iter_it iter) ?p)" "pos ?i = Past"
      using seek_past [of "iter_it iter" ?p] its False seek_ix_le [of ?xs ?p] by auto
    ultimately show ?thesis using eq inv' by (auto simp: lands_def)
  next
    case True
    with its seek_ok [of "iter_it iter" ?p] have ok: "fst (it_seek B (iter_it iter) ?p)" "pos ?i = At ?n" by auto
    have at: "rests items pos (?iter\<lparr>iter_it := ?i\<rparr>) ?n" using ok(2) True assms(2) by (simp add: rests_def)
    have f: "found_at ?xs k ?v ?n" using True ne sorted_items by (simp add: found_at_def)
    have "lands items its pos (Option.bind (loadLatestItem B (?iter\<lparr>iter_it := ?i\<rparr>)) (\<lambda>iter.
         if \<not> iter_valid B iter then iter_next B d iter else Some (Inr True, iter))) ?iter
      (filter (\<lambda>x. contents k \<le> kb x) (selected items ?iter))"
      by (rule load_lands [OF inv' at, where x = "?xs ! ?n"])
        (use assms(2,3) le found_ge [OF f] found_visible [OF f] found_first [OF f] in \<open>auto simp: towards_def near_def dle_def dless_def\<close>)
    with eq ok(1) show ?thesis by simp
  qed
qed

subsection \<open>Seeking in reverse\<close>

text \<open>Where the steps of a reverse \<^verbatim>\<open>seek\<close> lead on a tree that is not empty.\<close>

lemma seek_reversed_steps:
  "seek_reversed B i target v =
     (let r = it_seek B i (pivot target v); s = it_prev B (snd r)
      in if \<not> fst r then it_last B (snd r)
         else if kb (it_item B (snd r)) = contents target then (True, snd r)
         else if fst s then (True, snd s) else it_last B (snd s))"
  by (auto simp: seek_reversed_def bytes_Equal_def case_prod_beta prod_eq_iff Let_def)

lemma goes_last:
  assumes "its i = xs" "xs \<noteq> []"
  shows "\<exists>i'. it_last B i = (True, i') \<and> its i' = xs \<and> pos i' = At (length xs - 1)"
  using last_ok [of i] assms by (auto simp: prod_eq_iff)

lemma land_reverse:
  assumes its: "its i = xs" and ne: "xs \<noteq> []" and sorted: "sorted_wrt byKeys xs"
  shows "\<exists>i' n. seek_reversed B i target v = (True, i') \<and> its i' = xs \<and> pos i' = At n \<and> nearest_below xs (contents target) n"
proof -
  let ?p = "pivot target v" let ?n = "seek_ix byKeys xs ?p" and ?i1 = "snd (it_seek B i ?p)"
  note ix = seek_ix_iff [OF sorted, of _ ?p]
  show ?thesis
  proof (cases "?n < length xs")
    case False
    with seek_ix_le [of xs ?p] seek_past [of i ?p] its have ok: "\<not> fst (it_seek B i ?p)" "its ?i1 = xs" by auto
    have "kb (xs ! j) \<le> contents target" if "j < length xs" for j using ix [OF that] False that by (auto simp: byKeys_iff)
    then have "\<forall>y \<in> set xs. kb y \<le> contents target" by (auto simp: in_set_conv_nth)
    with nearest_last [OF sorted ne] goes_last [OF ok(2) ne] ok(1) show ?thesis by (auto simp: seek_reversed_steps Let_def)
  next
    case True
    with seek_ok [of i ?p] its have ok: "fst (it_seek B i ?p)" "pos ?i1 = At ?n" "its ?i1 = xs" by auto
    have item: "it_item B ?i1 = xs ! ?n" using item_at [OF ok(2)] ok(3) True by simp
    show ?thesis
    proof (cases "kb (xs ! ?n) = contents target")
      case same: True
      then have "nearest_below xs (contents target) ?n" using True by (auto simp: nearest_below_def)
      with same ok item show ?thesis by (auto simp: seek_reversed_steps Let_def)
    next
      case False
      with ix [OF True] have gt: "contents target < kb (xs ! ?n)" by (auto simp: byKeys_iff)
      show ?thesis
      proof (cases ?n)
        case 0
        then have "\<not> fst (it_prev B ?i1)" "its (snd (it_prev B ?i1)) = xs" using prev_first ok by auto
        with nearest_none [OF sorted ne] goes_last [OF this(2) ne] gt 0 ok(1) item False show ?thesis
          by (auto simp: seek_reversed_steps Let_def)
      next
        case (Suc m)
        then have m: "m < length xs" "fst (it_prev B ?i1)" "pos (snd (it_prev B ?i1)) = At m" "its (snd (it_prev B ?i1)) = xs"
          using prev_at [of ?i1 m] ok True by auto
        have "kb (xs ! m) \<le> contents target" using ix [OF m(1)] Suc by (auto simp: byKeys_iff)
        with nearest_prev [OF sorted, of m] True gt Suc m ok(1) item False show ?thesis
          by (auto simp: seek_reversed_steps Let_def)
      qed
    qed
  qed
qed

text \<open>The target of a reverse \<^verbatim>\<open>seek\<close>: the key, or the end of the range if that lies before it.\<close>

definition seek_target :: "('t, 'i) iterator \<Rightarrow> slice \<Rightarrow> slice" where
  "seek_target iter k = (if iter_end iter \<noteq> None \<and> lt (iter_end iter) k then iter_end iter else k)"

lemma seek_target_cases:
  assumes "iter_end iter \<noteq> Some []"
  shows "contents (seek_target iter k) = contents k \<and> (contents (iter_end iter) \<noteq> [] \<longrightarrow> contents k \<le> contents (iter_end iter)) \<or>
    contents (seek_target iter k) = contents (iter_end iter) \<and> contents (iter_end iter) \<noteq> [] \<and> contents (iter_end iter) < contents k"
  using assms by (cases "iter_end iter") (auto simp: seek_target_def lt_iff)

lemma seek_with_reverse:
  assumes "iter_reverse iter"
  shows "seek_with B k g iter =
    (let i = iter\<lparr>iter_reset := False\<rparr>;
         r = seek_reversed B (iter_it iter) (seek_target iter k) (seek_version (rows_of items iter) k (iter_version iter))
     in if \<not> fst r then Some (Inr False, i\<lparr>iter_it := snd r\<rparr>)
        else Option.bind (loadLatestItem B (i\<lparr>iter_it := snd r\<rparr>)) (\<lambda>iter.
          if \<not> iter_valid B iter then g iter else Some (Inr True, iter)))"
  using assms by (simp add: seek_with_def get_latest case_prod_beta Let_def seek_target_def seek_version_def)

lemma seek_reverse_empty:
  assumes "iter_inv items its iter" "iter_reverse iter" "rows_of items iter = []"
  shows "lands items its pos (seek_with B k g iter) (iter\<lparr>iter_reset := False\<rparr>) []"
proof -
  let ?v = "seek_version (rows_of items iter) k (iter_version iter)"
  let ?r = "seek_reversed B (iter_it iter) (seek_target iter k) ?v"
  have "its (iter_it iter) = []" using iter_inv_its [OF assms(1)] assms(3) by simp
  then have "\<not> fst ?r" "its (snd ?r) = []"
    using seek_past [of "iter_it iter"] last_empty [of "snd (it_seek B (iter_it iter) (pivot (seek_target iter k) ?v))"]
    by (auto simp: seek_reversed_steps Let_def seek_ix_def)
  with assms show ?thesis by (auto simp: seek_with_reverse lands_def iter_inv_def Let_def)
qed

lemma seek_reverse:
  assumes inv: "iter_inv items its iter" and rev: "iter_reverse iter" and "\<not> closed d"
    and all: "\<And>x. x \<in> set (rows_of items iter) \<Longrightarrow> version x \<le> iter_version iter"
    and end_: "iter_end iter \<noteq> Some []"
    and reach: "(\<exists>x \<in> set (rows_of items iter). kb x \<le> contents k) \<or>
      contents (iter_end iter) \<noteq> [] \<and> contents (iter_end iter) \<le> contents k"
  shows "lands items its pos (seek_with B k (iter_next B d) iter) (iter\<lparr>iter_reset := False\<rparr>)
    (filter (\<lambda>x. kb x \<le> contents k) (selected items iter))"
proof (cases "rows_of items iter = []")
  case True
  then have "selected items iter = []" by (simp add: selected_def towards_def)
  with seek_reverse_empty [OF inv rev True] show ?thesis by simp
next
  case False
  let ?iter = "iter\<lparr>iter_reset := False\<rparr>" and ?xs = "rows_of items iter" and ?target = "seek_target iter k"
  note tgt = seek_target_cases [OF end_, of k]
  from land_reverse [OF iter_inv_its [OF inv] False sorted_items, of ?target "seek_version ?xs k (iter_version iter)"]
  obtain i' n where l: "seek_reversed B (iter_it iter) ?target (seek_version ?xs k (iter_version iter)) = (True, i')" "its i' = ?xs"
    "pos i' = At n" "nearest_below ?xs (contents ?target) n" by blast
  have n: "n < length ?xs" and near: "kb (?xs ! n) \<le> contents ?target \<and> (\<forall>y \<in> set ?xs. kb y \<le> contents ?target \<longrightarrow> kb y \<le> kb (?xs ! n)) \<or>
      (\<forall>y \<in> set ?xs. contents ?target < kb y)" using l(4) by (auto simp: nearest_below_def)
  have inv': "iter_inv items its (?iter\<lparr>iter_it := i'\<rparr>)" using inv l(2) by (simp add: iter_inv_def Let_def)
  have at: "rests items pos (?iter\<lparr>iter_it := i'\<rparr>) (length ?xs - Suc n)" using l(3) n rev by (auto simp: rests_def)
  have x: "?xs ! n = walk items ?iter ! (length ?xs - Suc n)" using n rev by (simp add: towards_def rev_nth)
  have wrap: "\<not> in_range iter y" if "\<forall>y \<in> set ?xs. contents ?target < kb y" "y \<in> set ?xs" for y
    using that tgt reach by (force simp: in_range_def)
  have "lands items its pos (Option.bind (loadLatestItem B (?iter\<lparr>iter_it := i'\<rparr>)) (\<lambda>iter.
       if \<not> iter_valid B iter then iter_next B d iter else Some (Inr True, iter))) ?iter
    (filter (\<lambda>x. kb x \<le> contents k) (selected items ?iter))"
  proof (rule load_lands [OF inv' at _ _ x])
    fix y assume y: "y \<in> set (rows_of items ?iter)" "in_range ?iter y"
    then have "kb y \<le> contents k \<longleftrightarrow> kb y \<le> contents ?target" using tgt by (auto simp: in_range_def)
    also have "\<dots> \<longleftrightarrow> kb y \<le> kb (?xs ! n)" using near wrap [of y] y by auto
    finally show "(kb y \<le> contents k) = dle (iter_reverse ?iter) (kb (?xs ! n)) (kb y)" using rev by (auto simp: dle_def dless_def)
  next
    show "near ?iter (kb (?xs ! n)) \<or> iter_reverse ?iter \<and> selected items ?iter = []"
      using near tgt wrap rev by (auto simp: near_def selected_def filter_empty_conv)
  qed (use all n assms(3) in auto)
  with l(1) rev show ?thesis by (simp add: seek_with_reverse)
qed

end

end
