(* ===== verification/Iface.thy ===== *)
theory Iface
  imports CoreKV
begin

text \<open>
  The interfaces of \<^verbatim>\<open>kv.go\<close> and \<^verbatim>\<open>txn.go\<close> as records of functions over the state
  \<open>'s\<close> of a store and the state \<open>'i\<close> of an iterator, and the contracts a client of them
  may rely on as locales.  The wrappers (\<^verbatim>\<open>namespace\<close>, \<^verbatim>\<open>chunk\<close>) are written against the
  records and verified against the locales; the stores interpret the locales.

  An operation may change the state of the store, and a loop inside it may not end:
  results are optional, \<open>None\<close> is a call that never returns.
\<close>

subsection \<open>Iterators\<close>

record ('s, 'i) Iterator =
  i_Next :: "'s \<Rightarrow> 'i \<Rightarrow> (bool res \<times> 'i) option"
  i_Key :: "'i \<Rightarrow> slice res"
  i_Value :: "'i \<Rightarrow> slice res"
  i_Seek :: "'s \<Rightarrow> slice \<Rightarrow> 'i \<Rightarrow> (bool res \<times> 'i) option"
  i_Reset :: "'i \<Rightarrow> 'i"
  i_Close :: "'i \<Rightarrow> err \<times> 'i"

type_synonym entry = "slice \<times> slice"

text \<open>
  The loop every consumer writes (\<^verbatim>\<open>test/action/iterate.go\<close>): call \<^verbatim>\<open>Next\<close> until it says
  there is nothing more and keep the key and the value it rests on each time.
\<close>

partial_function (option) collect ::
  "('s, 'i) Iterator \<Rightarrow> 's \<Rightarrow> 'i \<Rightarrow> (entry list res \<times> 'i) option" where
  "collect I s i =
     Option.bind (i_Next I s i) (\<lambda>(r, i).
       case r of
         Inl e \<Rightarrow> Some (Inl e, i)
       | Inr hasValue \<Rightarrow>
           if \<not> hasValue then Some (Inr [], i)
           else case i_Key I i of
                  Inl e \<Rightarrow> Some (Inl e, i)
                | Inr k \<Rightarrow>
                    (case i_Value I i of
                       Inl e \<Rightarrow> Some (Inl e, i)
                     | Inr v \<Rightarrow>
                         Option.bind (collect I s i) (\<lambda>(r, i). Some (map_sum id (Cons (k, v)) r, i))))"

text \<open>The entries the first \<open>n\<close> calls of \<^verbatim>\<open>Next\<close> rest on.\<close>

primrec visits :: "nat \<Rightarrow> ('s, 'i) Iterator \<Rightarrow> 's \<Rightarrow> 'i \<Rightarrow> (entry list res \<times> 'i) option" where
  "visits 0 I s i = Some (Inr [], i)"
| "visits (Suc n) I s i =
     Option.bind (i_Next I s i) (\<lambda>(r, i).
       case r of
         Inl e \<Rightarrow> Some (Inl e, i)
       | Inr hasValue \<Rightarrow>
           if \<not> hasValue then Some (Inr [], i)
           else case i_Key I i of
                  Inl e \<Rightarrow> Some (Inl e, i)
                | Inr k \<Rightarrow>
                    (case i_Value I i of
                       Inl e \<Rightarrow> Some (Inl e, i)
                     | Inr v \<Rightarrow>
                         Option.bind (visits n I s i) (\<lambda>(r, i). Some (map_sum id (Cons (k, v)) r, i))))"

text \<open>
  \<open>iterates s i L R\<close>: a full iteration yields the entries \<open>L\<close>, the calls of \<^verbatim>\<open>Next\<close> from
  here on yield \<open>R\<close>.  A forward iterator stays at its end; about calling \<^verbatim>\<open>Next\<close> again at
  the end of a reverse one nothing is promised.  \<open>seekable\<close> are the keys \<^verbatim>\<open>Seek\<close> is
  promised to find its way to.
\<close>

definition key_before :: "bool \<Rightarrow> slice \<Rightarrow> entry \<Rightarrow> bool" where
  "key_before forward k e \<longleftrightarrow>
     (if forward then contents (fst e) < contents k else contents k < contents (fst e))"

locale kv_iterator =
  fixes I :: "('s, 'i) Iterator"
    and iterates :: "'s \<Rightarrow> 'i \<Rightarrow> entry list \<Rightarrow> entry list \<Rightarrow> bool"
    and forward :: "'i \<Rightarrow> bool"
    and seekable :: "'i \<Rightarrow> slice \<Rightarrow> bool"
  assumes next_end: "iterates s i L [] \<Longrightarrow>
      \<exists>i'. i_Next I s i = Some (Inr False, i') \<and> forward i' = forward i \<and>
        fst (i_Close I i') = None \<and> iterates s (i_Reset I i') L L \<and> (forward i \<longrightarrow> iterates s i' L [])"
    and next_entry: "iterates s i L ((k, v) # R) \<Longrightarrow>
      \<exists>i'. i_Next I s i = Some (Inr True, i') \<and> forward i' = forward i \<and>
        i_Key I i' = Inr k \<and> i_Value I i' = Inr v \<and> iterates s i' L R"
    and reset: "iterates s i L R \<Longrightarrow> iterates s (i_Reset I i) L L"
    and forward_reset [simp]: "forward (i_Reset I i) = forward i"
    and seek_end: "iterates s i L R \<Longrightarrow> seekable i k \<Longrightarrow>
      dropWhile (key_before (forward i) k) L = [] \<Longrightarrow>
      \<exists>i'. i_Seek I s k i = Some (Inr False, i') \<and> iterates s (i_Reset I i') L L"
    and seek_entry: "iterates s i L R \<Longrightarrow> seekable i k \<Longrightarrow>
      dropWhile (key_before (forward i) k) L = (k1, v1) # R1 \<Longrightarrow>
      \<exists>i'. i_Seek I s k i = Some (Inr True, i') \<and> forward i' = forward i \<and>
        i_Key I i' = Inr k1 \<and> i_Value I i' = Inr v1 \<and> iterates s i' L R1"
    and close: "iterates s i L R \<Longrightarrow> fst (i_Close I i) = None"
begin

lemma collect_iterates:
  "iterates s i L R \<Longrightarrow> \<exists>i'. collect I s i = Some (Inr R, i') \<and> iterates s (i_Reset I i') L L"
proof (induction R arbitrary: i)
  case Nil
  from next_end [OF Nil] show ?case by (subst collect.simps) auto
next
  case (Cons e R)
  obtain k v where e: "e = (k, v)" by (cases e)
  from next_entry Cons.prems e obtain i' where i': "i_Next I s i = Some (Inr True, i')"
    "i_Key I i' = Inr k" "i_Value I i' = Inr v" "iterates s i' L R" by blast
  with Cons.IH [of i'] e show ?case by (subst collect.simps) auto
qed

text \<open>Iterating again after a reset gives the same entries.\<close>

lemma collect_again:
  assumes "iterates s i L R"
  shows "\<exists>i' i''. collect I s i = Some (Inr R, i') \<and> collect I s (i_Reset I i') = Some (Inr L, i'')"
  using collect_iterates [OF assms] collect_iterates by blast

end

subsection \<open>Stores\<close>

record ('s, 'i) ReaderWriter =
  rw_Get :: "'s \<Rightarrow> slice \<Rightarrow> (slice res \<times> 's) option"
  rw_Has :: "'s \<Rightarrow> slice \<Rightarrow> (bool res \<times> 's) option"
  rw_Iterator :: "'s \<Rightarrow> IterOptions \<Rightarrow> 'i res \<times> 's"
  rw_Set :: "'s \<Rightarrow> slice \<Rightarrow> slice \<Rightarrow> (err \<times> 's) option"
  rw_Delete :: "'s \<Rightarrow> slice \<Rightarrow> (err \<times> 's) option"
  rw_it :: "('s, 'i) Iterator" \<comment> \<open>the methods of the iterators \<^verbatim>\<open>Iterator\<close> returns\<close>

record ('s, 'i) Txn = "('s, 'i) ReaderWriter" +
  tx_Commit :: "'s \<Rightarrow> (err \<times> 's) option"
  tx_Discard :: "'s \<Rightarrow> 's option"

record ('s, 'i, 'ts, 'ti) TxnReaderWriter = "('s, 'i) ReaderWriter" +
  ts_NewTxn :: "bool \<Rightarrow> 's \<Rightarrow> 'ts \<times> 's"
  ts_Txn :: "('ts, 'ti) Txn" \<comment> \<open>the methods of the transactions \<^verbatim>\<open>NewTxn\<close> returns\<close>

text \<open>
  The keys an iterator with these options is meant to yield.  A key equal to the prefix is
  among them: all the stores yield it, though the comment in \<^verbatim>\<open>kv.go\<close> says they do not.
\<close>

definition wanted :: "IterOptions \<Rightarrow> bytes \<Rightarrow> bool" where
  "wanted opts k \<longleftrightarrow>
     (case Prefix opts of
        Some p \<Rightarrow> bytes_HasPrefix k p
      | None \<Rightarrow> contents (Start opts) \<le> k \<and> (contents (End opts) \<noteq> [] \<longrightarrow> k < contents (End opts)))"

text \<open>Prefixes for which the end of the prefix is found.\<close>

definition bounded_prefix :: "IterOptions \<Rightarrow> bool" where
  "bounded_prefix opts \<longleftrightarrow> contents (Prefix opts) = [] \<or> \<not> all_ff (contents (Prefix opts))"

declare wanted_def [run_defs] bounded_prefix_def [run_defs]

text \<open>
  The contract of the reads and writes of a store: it behaves like a map from keys to
  values.  \<open>ok n s\<close> says that it is open and can take \<open>n\<close> more writes, \<open>view s\<close> is the map,
  \<open>accepts\<close> the keys and values it takes (databases have limits), and \<open>stored\<close> what becomes of a
  value (databases do not tell nil from empty).
\<close>

definition found :: "slice option \<Rightarrow> slice res" where
  "found x = (case x of None \<Rightarrow> Inl ErrNotFound | Some v \<Rightarrow> Inr v)"

lemma found_simps [simp]: "found None = Inl ErrNotFound" "found (Some v) = Inr v"
  by (simp_all add: found_def)

locale kv_map =
  fixes RW :: "('s, 'i) ReaderWriter"
    and ok :: "nat \<Rightarrow> 's \<Rightarrow> bool"
    and view :: "'s \<Rightarrow> bytes \<Rightarrow> slice option"
    and accepts :: "slice \<Rightarrow> slice \<Rightarrow> bool"
    and stored :: "slice \<Rightarrow> slice"
  assumes ok_less: "ok n s \<Longrightarrow> m \<le> n \<Longrightarrow> ok m s"
    and get: "ok n s \<Longrightarrow> contents k \<noteq> [] \<Longrightarrow>
      \<exists>s'. rw_Get RW s k = Some (found (view s (contents k)), s') \<and> ok n s' \<and> view s' = view s"
    and has: "ok n s \<Longrightarrow> contents k \<noteq> [] \<Longrightarrow>
      \<exists>s'. rw_Has RW s k = Some (Inr (view s (contents k) \<noteq> None), s') \<and> ok n s' \<and> view s' = view s"
    and put: "ok (Suc n) s \<Longrightarrow> contents k \<noteq> [] \<Longrightarrow> accepts k v \<Longrightarrow>
      \<exists>s'. rw_Set RW s k v = Some (None, s') \<and> ok n s' \<and> view s' = (view s)(contents k := Some (stored v))"
    and remove: "ok (Suc n) s \<Longrightarrow> contents k \<noteq> [] \<Longrightarrow> accepts k None \<Longrightarrow>
      \<exists>s'. rw_Delete RW s k = Some (None, s') \<and> ok n s' \<and> view s' = (view s)(contents k := None)"

text \<open>A sequence of writes, what it makes of a map, and that every write in it is within some limits.\<close>

datatype kv_write = W_Set slice slice | W_Delete slice

fun batch :: "(slice \<Rightarrow> 'v) \<Rightarrow> kv_write list \<Rightarrow> (bytes \<Rightarrow> 'v option) \<Rightarrow> bytes \<Rightarrow> 'v option" where
  "batch f [] m = m"
| "batch f (W_Set k v # ws) m = batch f ws (m(contents k := Some (f v)))"
| "batch f (W_Delete k # ws) m = batch f ws (m(contents k := None))"

primrec allowed :: "(slice \<Rightarrow> slice \<Rightarrow> bool) \<Rightarrow> kv_write \<Rightarrow> bool" where
  "allowed accepts (W_Set k v) = (contents k \<noteq> [] \<and> accepts k v)"
| "allowed accepts (W_Delete k) = (contents k \<noteq> [] \<and> accepts k None)"

text \<open>What iterating over a map with some options is to list.\<close>

definition lists :: "(bytes \<Rightarrow> slice option) \<Rightarrow> IterOptions \<Rightarrow> entry list \<Rightarrow> bool" where
  "lists m opts L \<longleftrightarrow>
     sorted_wrt (\<lambda>a b. dless (Reverse opts) (contents (fst a)) (contents (fst b))) L \<and>
     (\<forall>k. map_of (map (apfst contents) L) k = (if wanted opts k then m k else None))"

text \<open>Entries in the order of a direction, as a map.\<close>

abbreviation in_order :: "bool \<Rightarrow> entry list \<Rightarrow> bool" where
  "in_order rvs L \<equiv> sorted_wrt (\<lambda>a b. dless rvs (contents (fst a)) (contents (fst b))) L"

abbreviation ascending :: "entry list \<Rightarrow> bool" where
  "ascending L \<equiv> sorted_wrt (\<lambda>a b. contents (fst a) < contents (fst b)) L"

lemma map_of_in_order:
  assumes "in_order rvs L"
  shows "map_of (map (apfst contents) L) k = Some v \<longleftrightarrow> (\<exists>e \<in> set L. contents (fst e) = k \<and> snd e = v)"
proof -
  have "distinct (map (contents \<circ> fst) L)"
    using assms by (induction L) auto
  then have "distinct (map fst (map (apfst contents) L))" by (simp add: comp_def)
  from map_of_eq_Some_iff [OF this, of k v] show ?thesis by force
qed

lemma map_of_ascending:
  "ascending L \<Longrightarrow> map_of (map (apfst contents) L) k = Some v \<longleftrightarrow> (\<exists>e \<in> set L. contents (fst e) = k \<and> snd e = v)"
  using map_of_in_order [of False L k v] by simp

text \<open>
  The contract of a store: a map that takes every key and value as it is, and whose iterators
  list the entries the options ask for, in order.  It is the contract the in-memory store and
  namespaces over it meet: a key equal to \<^verbatim>\<open>Prefix\<close> is listed and \<^verbatim>\<open>KeysOnly\<close> is ignored, where
  the comments of \<^verbatim>\<open>kv.go\<close> say otherwise.
\<close>

locale kv_store = kv_iterator "rw_it RW" iterates forward seekable + kv_map RW ok view "\<lambda>_ _. True" "\<lambda>v. v"
  for RW :: "('s, 'i) ReaderWriter" and iterates forward seekable ok view +
  assumes iterator: "ok n s \<Longrightarrow> bounded_prefix opts \<Longrightarrow> End opts \<noteq> Some [] \<Longrightarrow>
      \<exists>i s' L. rw_Iterator RW s opts = (Inr i, s') \<and> ok n s' \<and> view s' = view s \<and>
        iterates s' i L L \<and> forward i = (\<not> Reverse opts) \<and> lists (view s) opts L"
begin

lemma set: "ok (Suc n) s \<Longrightarrow> contents k \<noteq> [] \<Longrightarrow>
    \<exists>s'. rw_Set RW s k v = Some (None, s') \<and> ok n s' \<and> view s' = (view s)(contents k := Some v)"
  by (rule put) simp_all

lemma delete: "ok (Suc n) s \<Longrightarrow> contents k \<noteq> [] \<Longrightarrow>
    \<exists>s'. rw_Delete RW s k = Some (None, s') \<and> ok n s' \<and> view s' = (view s)(contents k := None)"
  by (rule remove) simp_all

end

end
