(* ===== verification/Mem_IterLaws.thy ===== *)
theory Mem_IterLaws
  imports Mem_Seek Iface
begin

text \<open>
  The in-memory iterator meets the contract \<open>kv_iterator\<close> of the interface, over every tree
  that meets the package's contract.  The one restriction: a reverse iterator must not read
  at a version below that of a row of its tree (see \<open>reverse_skips_older_row\<close>).
\<close>

definition entry_of :: "dsItem \<Rightarrow> entry" where
  "entry_of x = (key x, val x)"

definition mem_Iterator ::
  "('t, dsItem, 'i) btree_ops \<Rightarrow> (('t, 'u) Datastore, ('t, 'i) iterator) Iterator" where
  "mem_Iterator B =
     \<lparr>i_Next = iter_Next B, i_Key = (\<lambda>iter. Inr (iter_Key B iter)), i_Value = iter_Value B,
      i_Seek = iter_Seek B, i_Reset = iter_Reset, i_Close = iter_Close\<rparr>"

definition mem_iterates ::
  "('t \<Rightarrow> dsItem list) \<Rightarrow> ('i \<Rightarrow> dsItem list) \<Rightarrow> ('i \<Rightarrow> cursor) \<Rightarrow>
   ('t, 'u) Datastore \<Rightarrow> ('t, 'i) iterator \<Rightarrow> entry list \<Rightarrow> entry list \<Rightarrow> bool" where
  "mem_iterates items its pos d iter L R \<longleftrightarrow>
     \<not> closed d \<and> iter_inv items its iter \<and>
     (iter_reverse iter \<longrightarrow> (\<forall>x \<in> set (rows_of items iter). version x \<le> iter_version iter)) \<and>
     L = map entry_of (selected items iter) \<and>
     (if iter_reset iter then R = L
      else (\<exists>p. rests items pos iter p \<and> near iter (kb (walk items iter ! p)) \<and>
              R = map entry_of (selected_after items iter (kb (walk items iter ! p)))) \<or>
           R = [] \<and> \<not> iter_reverse iter \<and> (pos (iter_it iter) = Past \<or> rows_of items iter = []))"

lemma mem_iteratesD:
  assumes "mem_iterates items its pos d iter L R"
  shows "\<not> closed d"
    "iter_reverse iter \<longrightarrow> (\<forall>x \<in> set (rows_of items iter). version x \<le> iter_version iter)"
    "L = map entry_of (selected items iter)" "iter_inv items its iter"
  using assms unfolding mem_iterates_def by blast+

definition mem_seekable :: "('t \<Rightarrow> dsItem list) \<Rightarrow> ('t, 'i) iterator \<Rightarrow> slice \<Rightarrow> bool" where
  "mem_seekable items iter k \<longleftrightarrow>
     (if iter_reverse iter
      then iter_end iter \<noteq> Some [] \<and> (\<exists>x \<in> set (rows_of items iter). kb x \<le> contents k)
      else contents (iter_start iter) \<le> contents k \<and> contents k \<noteq> [])"

context item_tree
begin

lemma selected_sorted: "sorted_wrt (\<lambda>x y. dless (iter_reverse iter) (kb x) (kb y)) (selected items iter)"
proof -
  let ?r = "iter_reverse iter" and ?ys = "walk items iter"
  have "sorted_wrt (\<lambda>x y. dle ?r (kb x) (kb y) \<and> x \<noteq> y) ?ys"
    unfolding sorted_wrt_iff_nth_less
    using towards_keys [OF sorted_items] towards_distinct [OF sorted_items, of ?r "iter_values iter"]
    by (auto simp: nth_eq_iff_index_eq)
  then have "sorted_wrt (\<lambda>x y. dle ?r (kb x) (kb y) \<and> x \<noteq> y) (selected items iter)"
    unfolding selected_def by (rule sorted_wrt_filter)
  then show ?thesis
    by (rule sorted_wrt_mono_rel [rotated]) (auto simp: selected_def dle_def dest: newest_unique)
qed

lemma restart_last:
  assumes inv: "iter_inv items its iter" and "\<not> closed d"
    and last: "iter_reverse iter" "contents (iter_end iter) = []"
    and all: "\<And>x. x \<in> set (rows_of items iter) \<Longrightarrow> version x \<le> iter_version iter"
  shows "lands items its pos (restart_with B (iter_next B d) iter) (iter\<lparr>iter_reset := False\<rparr>) (selected items iter)"
proof -
  let ?iter = "iter\<lparr>iter_reset := False\<rparr>" and ?xs = "rows_of items iter" and ?v = "iter_version iter"
  have its: "its (iter_it iter) = ?xs" using inv by (rule iter_inv_its)
  have keep: "iter_inv items its (?iter\<lparr>iter_it := i\<rparr>)" if "its i = ?xs" for i
    using inv that by (simp add: iter_inv_def Let_def)
  let ?i = "snd (it_last B (iter_it iter))"
  have eq: "restart_with B (iter_next B d) iter =
      (if \<not> fst (it_last B (iter_it iter)) then Some (Inr False, ?iter\<lparr>iter_it := ?i\<rparr>)
       else if \<not> iter_valid B (?iter\<lparr>iter_it := ?i\<rparr>) then iter_next B d (?iter\<lparr>iter_it := ?i\<rparr>)
       else Some (Inr True, ?iter\<lparr>iter_it := ?i\<rparr>))"
    using last by (simp add: restart_with_def len_def case_prod_beta Let_def)
  show ?thesis
  proof (cases "?xs = []")
    case True
    with eq last_empty [of "iter_it iter"] its keep [of ?i] last show ?thesis
      by (auto simp: lands_def selected_def towards_def)
  next
    case False
    with its last_ok [of "iter_it iter"] have ok: "fst (it_last B (iter_it iter))" "pos ?i = At (length ?xs - 1)" by auto
    have at: "rests items pos (?iter\<lparr>iter_it := ?i\<rparr>) 0" using ok(2) last False by (simp add: rests_def)
    have c: "?xs ! (length ?xs - 1) = walk items ?iter ! 0" using last False by (simp add: towards_def rev_nth)
    let ?c = "?xs ! (length ?xs - 1)"
    have c_xs: "?c \<in> set ?xs" using False by simp
    have top: "y = ?c \<or> byKeys y ?c" if "y \<in> set ?xs" for y
      using that sorted_wrt_last [OF sorted_items [of "iter_values iter"] that] False by (auto simp: last_conv_nth)
    have "version y \<le> version ?c" if "y \<in> set ?xs" "kb y = kb ?c" for y
      using top [OF that(1)] that(2) by (auto simp: byKeys_iff)
    then have "version ?c \<le> ?v \<and> latest ?xs (kb ?c) ?v = ?c"
      using all [OF c_xs] latest_some [OF sorted_items c_xs refl] by blast
    moreover have "dle True (kb ?c) (kb y)" if "y \<in> set ?xs" for y
      using top [OF that] by (auto simp: dle_def dless_def byKeys_iff)
    ultimately have "lands items its pos
        (if \<not> iter_valid B (?iter\<lparr>iter_it := ?i\<rparr>) then iter_next B d (?iter\<lparr>iter_it := ?i\<rparr>)
         else Some (Inr True, ?iter\<lparr>iter_it := ?i\<rparr>)) ?iter (filter (\<lambda>_. True) (selected items ?iter))"
      using last assms(2) keep [of ?i] its
      by (intro settle_lands [OF _ at _ _ c]) (auto simp: near_def)
    with eq ok(1) show ?thesis by simp
  qed
qed

lemma first_visible:
  assumes "sorted_wrt byKeys xs"
  shows "version (xs ! 0) \<le> v \<or> (\<forall>y \<in> set xs. kb y = kb (xs ! 0) \<longrightarrow> \<not> newest xs v y)"
proof (rule ccontr)
  assume "\<not> ?thesis"
  then obtain y where y: "\<not> version (xs ! 0) \<le> v" "y \<in> set xs" "kb y = kb (xs ! 0)" "version y \<le> v" by (auto simp: newest_def)
  then obtain j where "j < length xs" "y = xs ! j" by (metis in_set_conv_nth)
  with y sorted_wrt_nth_byKeys [OF assms, of 0 j] show False by (cases "j = 0") (auto simp: byKeys_iff)
qed

lemma restart_first:
  assumes inv: "iter_inv items its iter" and "\<not> closed d"
    and first: "\<not> iter_reverse iter" "contents (iter_start iter) = []"
  shows "lands items its pos (restart_with B (iter_next B d) iter) (iter\<lparr>iter_reset := False\<rparr>) (selected items iter)"
proof -
  let ?iter = "iter\<lparr>iter_reset := False\<rparr>" and ?xs = "rows_of items iter" and ?v = "iter_version iter"
  have its: "its (iter_it iter) = ?xs" using inv by (rule iter_inv_its)
  have keep: "iter_inv items its (?iter\<lparr>iter_it := i\<rparr>)" if "its i = ?xs" for i
    using inv that by (simp add: iter_inv_def Let_def)
  note low = first_visible [OF sorted_items [of "iter_values iter"], of ?v]
  let ?i = "snd (it_first B (iter_it iter))"
  have eq: "restart_with B (iter_next B d) iter =
      Option.bind (loadLatestItem B (?iter\<lparr>iter_it := ?i\<rparr>)) (\<lambda>iter.
        if \<not> fst (it_first B (iter_it ?iter)) then Some (Inr False, iter)
        else if \<not> iter_valid B iter then iter_next B d iter else Some (Inr True, iter))"
    using first by (cases "loadLatestItem B (?iter\<lparr>iter_it := ?i\<rparr>)")
      (simp_all add: restart_with_def len_def case_prod_beta Let_def)
  show ?thesis
  proof (cases "?xs = []")
    case True
    then have emp: "its ?i = []" using its by simp
    then have "loadLatestItem B (?iter\<lparr>iter_it := ?i\<rparr>) = Some (?iter\<lparr>iter_it := snd (it_next B ?i)\<rparr>)"
      using next_empty [of ?i] first
      by (simp add: loadLatestItem_def loadLatest_loop.simps case_prod_beta)
    moreover have "\<not> fst (it_first B (iter_it iter))" using first_empty its True by simp
    ultimately show ?thesis using eq keep [of "snd (it_next B ?i)"] emp True first
      by (auto simp: lands_def selected_def towards_def)
  next
    case False
    with its first_ok [of "iter_it iter"] have ok: "fst (it_first B (iter_it iter))" "pos ?i = At 0" by auto
    have at: "rests items pos (?iter\<lparr>iter_it := ?i\<rparr>) 0" using ok(2) first False by (simp add: rests_def)
    have "dle False (kb (?xs ! 0)) (kb y)" if "y \<in> set ?xs" for y
      using that sorted_kb_le [OF sorted_items, of 0 _ "iter_values iter"]
      by (auto simp: in_set_conv_nth dle_def dless_def le_less)
    then have "lands items its pos (Option.bind (loadLatestItem B (?iter\<lparr>iter_it := ?i\<rparr>)) (\<lambda>iter.
        if \<not> iter_valid B iter then iter_next B d iter else Some (Inr True, iter))) ?iter
        (filter (\<lambda>_. True) (selected items ?iter))"
      using first assms(2) keep [of ?i] its low
      by (intro load_lands [OF _ at, where x = "?xs ! 0"]) (auto simp: near_def towards_def)
    with eq ok(1) show ?thesis by simp
  qed
qed

lemma restart_lands:
  assumes inv: "iter_inv items its iter" and "\<not> closed d"
    and all: "\<And>x. iter_reverse iter \<Longrightarrow> x \<in> set (rows_of items iter) \<Longrightarrow> version x \<le> iter_version iter"
  shows "lands items its pos (restart_with B (iter_next B d) iter) (iter\<lparr>iter_reset := False\<rparr>) (selected items iter)"
proof -
  let ?iter = "iter\<lparr>iter_reset := False\<rparr>"
  consider (revend) "iter_reverse iter" "contents (iter_end iter) \<noteq> []"
    | (fwdstart) "\<not> iter_reverse iter" "contents (iter_start iter) \<noteq> []"
    | (last) "iter_reverse iter" "contents (iter_end iter) = []"
    | (first) "\<not> iter_reverse iter" "contents (iter_start iter) = []" by blast
  then show ?thesis
  proof cases
    case revend
    then have "restart_with B (iter_next B d) iter = seek_with B (iter_end ?iter) (iter_next B d) ?iter"
      by (simp add: restart_with_def len_def)
    moreover have "filter (\<lambda>x. kb x \<le> contents (iter_end ?iter)) (selected items ?iter) = selected items iter"
      using revend by (auto simp: selected_def in_range_def intro!: filter_cong)
    moreover have "iter_end ?iter \<noteq> Some []" using revend by auto
    ultimately show ?thesis
      using seek_reverse [of ?iter d "iter_end ?iter"] inv assms(2) all revend by simp
  next
    case fwdstart
    then have "restart_with B (iter_next B d) iter = seek_with B (iter_start ?iter) (iter_next B d) ?iter"
      by (simp add: restart_with_def len_def)
    moreover have "filter (\<lambda>x. contents (iter_start ?iter) \<le> kb x) (selected items ?iter) = selected items iter"
      using fwdstart by (auto simp: selected_def in_range_def intro!: filter_cong)
    ultimately show ?thesis
      using seek_forward [of ?iter d "iter_start ?iter"] inv assms(2) fwdstart by simp
  next
    case last
    with restart_last [OF inv assms(2)] all show ?thesis by blast
  next
    case first
    with restart_first [OF inv assms(2)] show ?thesis by blast
  qed
qed

lemma next_lands:
  assumes inv: "iter_inv items its iter" and at: "rests items pos iter p" and "\<not> iter_reset iter" "\<not> closed d"
    and near: "near iter (kb (walk items iter ! p))"
  shows "lands items its pos (iter_next B d iter) iter (selected_after items iter (kb (walk items iter ! p)))"
proof -
  let ?k = "kb (walk items iter ! p)"
  have iter: "iter\<lparr>iter_it := iter_it iter\<rparr> = iter" by simp
  note step = iter_next_rests [where iter = iter and i = "iter_it iter", unfolded iter, OF inv at assms(3,4)]
  have p: "p < length (rows_of items iter)" using at by (simp add: rests_def)
  show ?thesis
  proof (cases "ahead items iter ?k")
    case Nil
    let ?q = "length (rows_of items iter) - 1"
    have "selected_after items iter (kb (walk items iter ! ?q)) = []"
      using scan_nothing [of ?q iter] p by (simp add: selected_after_def)
    moreover have "dle (iter_reverse iter) ?k (kb (walk items iter ! ?q))"
      using towards_keys [OF sorted_items, of p ?q "iter_values iter" "iter_reverse iter"] p
      by (cases "p = ?q") (auto simp: dle_def)
    then have "near iter (kb (walk items iter ! ?q))"
      using near near_dless [OF near] unfolding dle_def by metis
    ultimately show ?thesis using step Nil by (auto simp: lands_def selected_after_def)
  next
    case (Cons y ys)
    note y = ahead_unfold [OF Cons]
    show ?thesis
    proof (cases "in_range iter y")
      case True
      with step Cons y(1) in_range_near [OF True] show ?thesis by (auto simp: lands_def selected_after_def)
    next
      case False
      have "\<not> in_range iter z" if "z \<in> set ys" for z
        using leaving_range [OF near y(2) False, of z] that y(1) by (simp add: ahead_def)
      then have "selected_after items iter ?k = []" "selected_after items iter (kb y) = []"
        using Cons False y(1) by (auto simp: selected_after_def filter_empty_conv)
      with step Cons False near_dless [OF near y(2)] show ?thesis by (auto simp: lands_def)
    qed
  qed
qed

lemma next_stays_ended:
  assumes inv: "iter_inv items its iter" and "\<not> iter_reset iter" "\<not> iter_reverse iter"
    and "pos (iter_it iter) = Past \<or> rows_of items iter = []"
  shows "lands items its pos (iter_next B d iter) iter []"
proof -
  let ?i = "snd (it_next B (iter_it iter))"
  have its: "its (iter_it iter) = rows_of items iter" using inv by (rule iter_inv_its)
  have "\<not> fst (it_next B (iter_it iter))" "pos ?i = Past \<or> rows_of items iter = []" "its ?i = rows_of items iter"
    using assms(4) next_past next_empty its by auto
  with assms show ?thesis
    by (subst iter_next.simps, subst scan_loop.simps) (auto simp: moveNext_def case_prod_beta lands_def iter_inv_def Let_def)
qed

text \<open>A call that lands on the first of the rows to come keeps the iteration going.\<close>

lemma lands_end:
  assumes "lands items its pos result iter []" "\<not> closed d" "\<not> iter_reset iter"
    and "iter_reverse iter \<longrightarrow> (\<forall>x \<in> set (rows_of items iter). version x \<le> iter_version iter)"
    and "L = map entry_of (selected items iter)"
  shows "\<exists>iter'. result = Some (Inr False, iter') \<and> iter_reverse iter' = iter_reverse iter \<and>
    mem_iterates items its pos d (iter_Reset iter') L L \<and>
    (\<not> iter_reverse iter \<longrightarrow> mem_iterates items its pos d iter' L [])"
proof -
  from assms(1) obtain i' where i': "result = Some (Inr False, iter\<lparr>iter_it := i'\<rparr>)"
    "iter_inv items its (iter\<lparr>iter_it := i'\<rparr>)"
    "\<not> iter_reverse iter \<longrightarrow> pos i' = Past \<or> rows_of items iter = [] \<or>
       (\<exists>q. rests items pos (iter\<lparr>iter_it := i'\<rparr>) q \<and> near iter (kb (walk items iter ! q)) \<and>
          selected_after items iter (kb (walk items iter ! q)) = [])"
    by (auto simp: lands_def)
  have "mem_iterates items its pos d (iter_Reset (iter\<lparr>iter_it := i'\<rparr>)) L L"
    using i'(2) assms(2,4,5) by (simp add: mem_iterates_def iter_Reset_def)
  moreover have "mem_iterates items its pos d (iter\<lparr>iter_it := i'\<rparr>) L []" if "\<not> iter_reverse iter"
    using i'(2,3) assms(2-5) that by (auto simp: mem_iterates_def)
  ultimately show ?thesis using i'(1) by auto
qed

lemma lands_entry:
  assumes "lands items its pos result iter (y # S)" "\<not> closed d" "\<not> iter_reset iter"
    and "iter_reverse iter \<longrightarrow> (\<forall>x \<in> set (rows_of items iter). version x \<le> iter_version iter)"
    and "L = map entry_of (selected items iter)"
  shows "\<exists>iter'. result = Some (Inr True, iter') \<and> iter_reverse iter' = iter_reverse iter \<and>
    iter_Key B iter' = key y \<and> iter_Value B iter' = Inr (val y) \<and>
    mem_iterates items its pos d iter' L (map entry_of S)"
proof -
  from assms(1) obtain i' q where i': "result = Some (Inr True, iter\<lparr>iter_it := i'\<rparr>)"
    "iter_inv items its (iter\<lparr>iter_it := i'\<rparr>)" "rests items pos (iter\<lparr>iter_it := i'\<rparr>) q"
    "walk items iter ! q = y" "S = selected_after items iter (kb y)" "near iter (kb y)"
    by (auto simp: lands_def)
  with rests_item [OF i'(2,3)] assms(2-) show ?thesis
    by (auto simp: iter_Key_def iter_Value_def mem_iterates_def)
qed

lemma next_lands_iterates:
  assumes "mem_iterates items its pos d iter L R"
  shows "\<exists>S. R = map entry_of S \<and> lands items its pos (iter_next B d iter) (iter\<lparr>iter_reset := False\<rparr>) S"
proof (cases "iter_reset iter")
  case True
  with assms restart_lands [of iter d] show ?thesis
    by (subst iter_next.simps) (auto simp: mem_iterates_def)
next
  case False
  then have same: "iter\<lparr>iter_reset := False\<rparr> = iter" by simp
  from False assms consider p where "rests items pos iter p" "near iter (kb (walk items iter ! p))"
      "R = map entry_of (selected_after items iter (kb (walk items iter ! p)))"
    | "R = []" "\<not> iter_reverse iter" "pos (iter_it iter) = Past \<or> rows_of items iter = []"
    by (auto simp: mem_iterates_def)
  then show ?thesis
  proof cases
    case 1
    with next_lands [of iter _ d] False assms show ?thesis unfolding same by (auto simp: mem_iterates_def)
  next
    case 2
    with next_stays_ended [of iter d] False assms show ?thesis unfolding same by (auto simp: mem_iterates_def)
  qed
qed

lemma seek_lands_iterates:
  assumes "mem_iterates items its pos d iter L R" "mem_seekable items iter k"
  shows "\<exists>S. dropWhile (key_before (\<not> iter_reverse iter) k) L = map entry_of S \<and>
    lands items its pos (iter_Seek B d k iter) (iter\<lparr>iter_reset := False\<rparr>) S"
proof -
  let ?r = "iter_reverse iter"
  define S where "S = filter (\<lambda>x. \<not> dless ?r (kb x) (contents k)) (selected items iter)"
  have "dropWhile (\<lambda>x. dless ?r (kb x) (contents k)) (selected items iter) = S"
    unfolding S_def by (rule dropWhile_eq_filter_sorted [OF selected_sorted]) (rule dless_trans)
  moreover have "key_before (\<not> ?r) k \<circ> entry_of = (\<lambda>x. dless ?r (kb x) (contents k))"
    by (auto simp: fun_eq_iff key_before_def entry_of_def dless_def)
  ultimately have "dropWhile (key_before (\<not> ?r) k) L = map entry_of S"
    using mem_iteratesD(3) [OF assms(1)] by (simp add: dropWhile_map)
  moreover have "lands items its pos (iter_Seek B d k iter) (iter\<lparr>iter_reset := False\<rparr>) S"
    using assms seek_forward [of iter d k] seek_reverse [of iter d k]
    by (cases ?r) (auto simp: mem_iterates_def mem_seekable_def iter_Seek_def seek_def S_def dless_def not_less)
  ultimately show ?thesis by blast
qed

lemma mem_kv_iterator:
  "kv_iterator (mem_Iterator B) (mem_iterates items its pos) (\<lambda>iter. \<not> iter_reverse iter) (mem_seekable items)"
proof
  fix d iter L
  assume it: "mem_iterates items its pos d iter L []"
  then have "lands items its pos (iter_next B d iter) (iter\<lparr>iter_reset := False\<rparr>) []"
    using next_lands_iterates [OF it] by auto
  from lands_end [OF this, of d L] mem_iteratesD [OF it]
  show "\<exists>i'. i_Next (mem_Iterator B) d iter = Some (Inr False, i') \<and> (\<not> iter_reverse i') = (\<not> iter_reverse iter) \<and>
        fst (i_Close (mem_Iterator B) i') = None \<and> mem_iterates items its pos d (i_Reset (mem_Iterator B) i') L L \<and>
        (\<not> iter_reverse iter \<longrightarrow> mem_iterates items its pos d i' L [])"
    by (auto simp: mem_Iterator_def iter_Next_def iter_Close_def)
next
  fix d iter L k v R
  assume it: "mem_iterates items its pos d iter L ((k, v) # R)"
  then obtain y S where y: "entry_of y = (k, v)" "R = map entry_of S"
      "lands items its pos (iter_next B d iter) (iter\<lparr>iter_reset := False\<rparr>) (y # S)"
    using next_lands_iterates [OF it] by (auto simp: Cons_eq_map_conv)
  from lands_entry [OF y(3), of d L] mem_iteratesD [OF it] y(1,2)
  show "\<exists>i'. i_Next (mem_Iterator B) d iter = Some (Inr True, i') \<and> (\<not> iter_reverse i') = (\<not> iter_reverse iter) \<and>
        i_Key (mem_Iterator B) i' = Inr k \<and> i_Value (mem_Iterator B) i' = Inr v \<and> mem_iterates items its pos d i' L R"
    by (auto simp: mem_Iterator_def iter_Next_def entry_of_def)
next
  fix d iter L R k
  assume it: "mem_iterates items its pos d iter L R" and k: "mem_seekable items iter k"
    and none: "dropWhile (key_before (\<not> iter_reverse iter) k) L = []"
  from seek_lands_iterates [OF it k] none
  have "lands items its pos (iter_Seek B d k iter) (iter\<lparr>iter_reset := False\<rparr>) []" by auto
  from lands_end [OF this, of d L] mem_iteratesD [OF it]
  show "\<exists>i'. i_Seek (mem_Iterator B) d k iter = Some (Inr False, i') \<and>
      mem_iterates items its pos d (i_Reset (mem_Iterator B) i') L L"
    by (auto simp: mem_Iterator_def)
next
  fix d iter L R k k1 v1 R1
  assume it: "mem_iterates items its pos d iter L R" and k: "mem_seekable items iter k"
    and some: "dropWhile (key_before (\<not> iter_reverse iter) k) L = (k1, v1) # R1"
  from seek_lands_iterates [OF it k] some obtain y S where y: "entry_of y = (k1, v1)" "R1 = map entry_of S"
      "lands items its pos (iter_Seek B d k iter) (iter\<lparr>iter_reset := False\<rparr>) (y # S)"
    by (auto simp: Cons_eq_map_conv)
  from lands_entry [OF y(3), of d L] mem_iteratesD [OF it] y(1,2)
  show "\<exists>i'. i_Seek (mem_Iterator B) d k iter = Some (Inr True, i') \<and> (\<not> iter_reverse i') = (\<not> iter_reverse iter) \<and>
        i_Key (mem_Iterator B) i' = Inr k1 \<and> i_Value (mem_Iterator B) i' = Inr v1 \<and> mem_iterates items its pos d i' L R1"
    by (auto simp: mem_Iterator_def entry_of_def)
qed (auto simp: mem_iterates_def mem_Iterator_def iter_Reset_def iter_Close_def)

end

interpretation list_iter: kv_iterator "mem_Iterator (list_btree byKeys dsItem0)"
    "mem_iterates (list_items byKeys) fst (\<lambda>i. fst (snd i))"
    "\<lambda>iter. \<not> iter_reverse iter" "mem_seekable (list_items byKeys)"
  by (rule item_list.mem_kv_iterator)

end
