(* ===== verification/Mem_TxnIter.thy ===== *)
theory Mem_TxnIter
  imports Mem_IterLaws
begin

text \<open>
  The iterator of a transaction (\<^verbatim>\<open>memory/txn.go\<close>): two iterators, one over the operations of
  the transaction and one over the store at its snapshot, advanced in turn.  The Go struct
  points to one of the two as \<^verbatim>\<open>activeIter\<close>; here the pointer is a name.
\<close>

datatype active = NoIter | TxnIter | StoreIter

record ('t, 'i) txnIterator =
  ti_opts :: IterOptions
  txnIter :: "('t, 'i) iterator"
  storeIter :: "('t, 'i) iterator"
  pendingTxnKey :: slice
  pendingStoreKey :: slice
  activeIter :: active

definition selectIterator ::
  "('t, dsItem, 'i) btree_ops \<Rightarrow> bool \<Rightarrow> bool \<Rightarrow> ('t, 'i) txnIterator \<Rightarrow> bool \<times> ('t, 'i) txnIterator" where
  "selectIterator B hasPendingTxnKey hasPendingStoreKey iter =
     (if \<not> hasPendingTxnKey \<and> \<not> hasPendingStoreKey then (False, iter)
      else if \<not> hasPendingTxnKey then (True, iter\<lparr>activeIter := StoreIter, pendingStoreKey := None\<rparr>)
      else if \<not> hasPendingStoreKey then (True, iter\<lparr>activeIter := TxnIter, pendingTxnKey := None\<rparr>)
      else let iter = iter\<lparr>pendingTxnKey := iter_Key B (txnIter iter),
                           pendingStoreKey := iter_Key B (storeIter iter)\<rparr>
           in if Reverse (ti_opts iter) \<and> gte (pendingTxnKey iter) (pendingStoreKey iter) \<or>
                 \<not> Reverse (ti_opts iter) \<and> lt (pendingTxnKey iter) (pendingStoreKey iter)
              then (True, iter\<lparr>activeIter := TxnIter, pendingTxnKey := None\<rparr>)
              else (True, iter\<lparr>activeIter := StoreIter, pendingStoreKey := None\<rparr>))"

definition ti_Next ::
  "('t, dsItem, 'i) btree_ops \<Rightarrow> ('t, 'u) Datastore \<Rightarrow> ('t, 'i) txnIterator \<Rightarrow>
   (bool res \<times> ('t, 'i) txnIterator) option" where
  "ti_Next B d iter =
     Option.bind (if len (pendingTxnKey iter) \<noteq> 0 then Some (Inr True, txnIter iter)
                  else iter_Next B d (txnIter iter)) (\<lambda>(r, ti).
       let iter = iter\<lparr>txnIter := ti\<rparr> in
       case r of
         Inl e \<Rightarrow> Some (Inl e, iter)
       | Inr txnHasNext \<Rightarrow>
           Option.bind (if len (pendingStoreKey iter) \<noteq> 0 then Some (Inr True, storeIter iter)
                        else iter_Next B d (storeIter iter)) (\<lambda>(r, si).
             let iter = iter\<lparr>storeIter := si\<rparr> in
             case r of
               Inl e \<Rightarrow> Some (Inl e, iter)
             | Inr storeHasNext \<Rightarrow>
                 Some (let (ok, iter) = selectIterator B txnHasNext storeHasNext iter in (Inr ok, iter))))"

definition ti_Key :: "('t, dsItem, 'i) btree_ops \<Rightarrow> ('t, 'i) txnIterator \<Rightarrow> slice" where
  "ti_Key B iter =
     (case activeIter iter of
        NoIter \<Rightarrow> None | TxnIter \<Rightarrow> iter_Key B (txnIter iter) | StoreIter \<Rightarrow> iter_Key B (storeIter iter))"

definition ti_Value :: "('t, dsItem, 'i) btree_ops \<Rightarrow> ('t, 'i) txnIterator \<Rightarrow> slice res" where
  "ti_Value B iter =
     (case activeIter iter of
        NoIter \<Rightarrow> Inr None | TxnIter \<Rightarrow> iter_Value B (txnIter iter) | StoreIter \<Rightarrow> iter_Value B (storeIter iter))"

definition ti_Seek ::
  "('t, dsItem, 'i) btree_ops \<Rightarrow> ('t, 'u) Datastore \<Rightarrow> slice \<Rightarrow> ('t, 'i) txnIterator \<Rightarrow>
   (bool res \<times> ('t, 'i) txnIterator) option" where
  "ti_Seek B d k iter =
     Option.bind (iter_Seek B d k (txnIter iter)) (\<lambda>(r, ti).
       let iter = iter\<lparr>txnIter := ti\<rparr> in
       case r of
         Inl e \<Rightarrow> Some (Inl e, iter)
       | Inr txnSeekOk \<Rightarrow>
           Option.bind (iter_Seek B d k (storeIter iter)) (\<lambda>(r, si).
             let iter = iter\<lparr>storeIter := si\<rparr> in
             case r of
               Inl e \<Rightarrow> Some (Inl e, iter)
             | Inr storeSeekOk \<Rightarrow>
                 Some (let (ok, iter) = selectIterator B txnSeekOk storeSeekOk iter in (Inr ok, iter))))"

definition ti_Reset :: "('t, 'i) txnIterator \<Rightarrow> ('t, 'i) txnIterator" where
  "ti_Reset iter =
     iter\<lparr>activeIter := NoIter, pendingTxnKey := None, pendingStoreKey := None,
          txnIter := iter_Reset (txnIter iter), storeIter := iter_Reset (storeIter iter)\<rparr>"

definition ti_Close :: "('t, 'i) txnIterator \<Rightarrow> err \<times> ('t, 'i) txnIterator" where
  "ti_Close iter =
     (let (e, ti) = iter_Close (txnIter iter); iter = iter\<lparr>txnIter := ti\<rparr>
      in if e \<noteq> None then (e, iter)
         else let (e, si) = iter_Close (storeIter iter) in (e, iter\<lparr>storeIter := si\<rparr>))"

definition txn_Iterator ::
  "('t, dsItem, 'i) btree_ops \<Rightarrow> 't basicTxn \<Rightarrow> ('t, 'u) Datastore \<Rightarrow> IterOptions \<Rightarrow> ('t, 'i) txnIterator res" where
  "txn_Iterator B t d opts =
     (if closed d then Inl ErrDBClosed
      else if Prefix opts \<noteq> None
      then Inr \<lparr>ti_opts = opts,
             txnIter = newPrefixIter B (ops t) (Prefix opts) (Reverse opts) (getTxnVersion t),
             storeIter = newPrefixIter B (ds_values d) (Prefix opts) (Reverse opts) (getDSVersion t),
             pendingTxnKey = None, pendingStoreKey = None, activeIter = NoIter\<rparr>
      else Inr \<lparr>ti_opts = opts,
             txnIter = newRangeIter B (ops t) (Start opts) (End opts) (Reverse opts) (getTxnVersion t),
             storeIter = newRangeIter B (ds_values d) (Start opts) (End opts) (Reverse opts) (getDSVersion t),
             pendingTxnKey = None, pendingStoreKey = None, activeIter = NoIter\<rparr>)"

text \<open>
  \<^verbatim>\<open>Iterator\<close> of the store: of the transaction in the context if there is one, else over the
  current version.  The two kinds of iterator it may return are a sum.
\<close>

definition store_Iterator ::
  "('t, dsItem, 'i) btree_ops \<Rightarrow> ('t, 'u) Datastore \<Rightarrow> IterOptions \<Rightarrow> ('t, 'i) iterator res" where
  "store_Iterator B d opts =
     (if closed d then Inl ErrDBClosed
      else if Prefix opts \<noteq> None
      then Inr (newPrefixIter B (ds_values d) (Prefix opts) (Reverse opts) (getVersion d))
      else Inr (newRangeIter B (ds_values d) (Start opts) (End opts) (Reverse opts) (getVersion d)))"

definition Datastore_Iterator ::
  "('t, dsItem, 'i) btree_ops \<Rightarrow> 't basicTxn option \<Rightarrow> ('t, 'u) Datastore \<Rightarrow> IterOptions \<Rightarrow>
   (('t, 'i) txnIterator + ('t, 'i) iterator) res" where
  "Datastore_Iterator B ctx d opts =
     (case ctx of
        Some tx \<Rightarrow> map_sum id Inl (txn_Iterator B tx d opts)
      | None \<Rightarrow> map_sum id Inr (store_Iterator B d opts))"

definition mem_txnIterator ::
  "('t, dsItem, 'i) btree_ops \<Rightarrow> (('t, 'u) Datastore, ('t, 'i) txnIterator) Iterator" where
  "mem_txnIterator B =
     \<lparr>i_Next = ti_Next B, i_Key = (\<lambda>iter. Inr (ti_Key B iter)), i_Value = ti_Value B,
      i_Seek = ti_Seek B, i_Reset = ti_Reset, i_Close = ti_Close\<rparr>"

lemmas txn_iter_defs [run_defs] =
  selectIterator_def ti_Next_def ti_Key_def ti_Value_def ti_Seek_def ti_Reset_def ti_Close_def
  txn_Iterator_def store_Iterator_def Datastore_Iterator_def mem_Iterator_def mem_txnIterator_def
  DefaultIterOptions_def entry_of_def

subsection \<open>Fresh iterators\<close>

definition options_iter ::
  "('t, dsItem, 'i) btree_ops \<Rightarrow> 't \<Rightarrow> IterOptions \<Rightarrow> u64 \<Rightarrow> ('t, 'i) iterator" where
  "options_iter B tree opts v =
     (if Prefix opts \<noteq> None then newPrefixIter B tree (Prefix opts) (Reverse opts) v
      else newRangeIter B tree (Start opts) (End opts) (Reverse opts) v)"

lemma store_Iterator_eq:
  "store_Iterator B d opts = (if closed d then Inl ErrDBClosed else Inr (options_iter B (ds_values d) opts (ds_version d)))"
  by (simp add: store_Iterator_def options_iter_def getVersion_def)

lemma options_iter_simps [simp]:
  "iter_version (options_iter B tree opts v) = v" "iter_values (options_iter B tree opts v) = tree"
  "iter_reverse (options_iter B tree opts v) = Reverse opts" "iter_reset (options_iter B tree opts v)"
  by (simp_all add: options_iter_def newPrefixIter_def newRangeIter_def Let_def case_prod_beta)

lemma options_iter_range:
  assumes "bounded_prefix opts"
  shows "in_range (options_iter B tree opts v) x \<longleftrightarrow> kb x \<noteq> [] \<and> wanted opts (kb x)"
proof (cases "Prefix opts")
  case None
  then show ?thesis by (simp add: in_range_def options_iter_def newRangeIter_def wanted_def)
next
  case (Some p)
  then have iter: "iter_start (options_iter B tree opts v) = Some p"
    "iter_end (options_iter B tree opts v) = bytesPrefixEnd (Some p)"
    by (simp_all add: options_iter_def newPrefixIter_def Let_def case_prod_beta)
  show ?thesis
  proof (cases "p = []")
    case True
    then have "bytesPrefixEnd (Some p) = Some []" by (simp add: bytesPrefixEnd_def)
    with iter True Some show ?thesis by (simp add: in_range_def wanted_def)
  next
    case False
    with assms Some have "\<not> all_ff (contents (Some p))" by (simp add: bounded_prefix_def)
    note bounds = bytesPrefixEnd_interval [OF this]
    have "contents (bytesPrefixEnd (Some p)) \<noteq> []"
    proof
      assume "contents (bytesPrefixEnd (Some p)) = []"
      with bounds [of p] show False by (simp add: HasPrefix_iff)
    qed
    with bounds [of "kb x"] iter Some show ?thesis by (auto simp: in_range_def wanted_def)
  qed
qed

context item_tree
begin

lemma options_iter_inv: "iter_inv items its (options_iter B tree opts v)"
proof -
  let ?i = "bt_iter B tree"
  have l: "it_item B (snd (it_last B ?i)) = last (items tree)" if "items tree \<noteq> []"
    using last_ok [of ?i] that item_at [of "snd (it_last B ?i)"] by (auto simp: last_conv_nth)
  have f: "it_item B (snd (it_first B (snd (it_last B ?i)))) = hd (items tree)" if "items tree \<noteq> []"
    using first_ok [of "snd (it_last B ?i)"] that item_at [of "snd (it_first B (snd (it_last B ?i)))" 0]
    by (auto simp: hd_conv_nth)
  have "\<not> fst (it_last B ?i)" if "items tree = []" using last_empty [of ?i] that by simp
  with l f show ?thesis
    by (auto simp: iter_inv_def options_iter_def newPrefixIter_def newRangeIter_def Let_def case_prod_beta)
qed

lemma options_iterates:
  assumes "\<not> closed d" "Reverse opts \<longrightarrow> (\<forall>x \<in> set (items tree). version x \<le> v)"
  shows "mem_iterates items its pos d (options_iter B tree opts v)
    (map entry_of (selected items (options_iter B tree opts v)))
    (map entry_of (selected items (options_iter B tree opts v)))"
  using assms options_iter_inv by (simp add: mem_iterates_def)

lemma selected_distinct: "distinct (map kb (selected items iter))"
  using selected_sorted [of iter] by (auto simp: distinct_conv_nth sorted_wrt_iff_nth_less)
    (metis dless_irrefl linorder_neqE_nat)

text \<open>What a full iteration yields, as a map: the view at the iterator's version, cut to its range.\<close>

lemma selected_entry:
  "x \<in> set (selected items iter) \<longleftrightarrow>
     x \<in> set (rows_of items iter) \<and> newest (rows_of items iter) (iter_version iter) x \<and> in_range iter x"
  by (auto simp: selected_def)

end

end
