(* ===== verification/Mem_Commit.thy ===== *)
theory Mem_Commit
  imports Mem_View
begin

text \<open>
  Committing and discarding: the outcome of the conflict check, the rows a commit adds,
  and that both methods return, with the running-transaction table cleaned up.
\<close>

text \<open>
  A transaction conflicts when the store has moved on and some key among its operations
  has a newer row than the one it started from.
\<close>

definition conflicts :: "('t \<Rightarrow> dsItem list) \<Rightarrow> 't basicTxn \<Rightarrow> ('t, 'u) Datastore \<Rightarrow> bool" where
  "conflicts items t d \<longleftrightarrow> dsVersion t \<noteq> ds_version d \<and>
     (\<exists>x \<in> set (items (ops t)).
        version (latest (items (ds_values d)) (kb x) (ds_version d)) \<noteq>
        version (latest (items (ds_values d)) (kb x) (dsVersion t)))"

text \<open>The rows after the writes \<open>ws\<close> are stored with version \<open>v\<close>.\<close>

definition commit_items :: "u64 \<Rightarrow> dsItem list \<Rightarrow> dsItem list \<Rightarrow> dsItem list" where
  "commit_items v xs ws = fold (\<lambda>w. list_set byKeys (w\<lparr>version := v\<rparr>)) ws xs"

declare conflicts_def [run_defs] commit_items_def [run_defs]

lemma sorted_commit_items: "sorted_wrt byKeys xs \<Longrightarrow> sorted_wrt byKeys (commit_items v xs ws)"
  unfolding commit_items_def by (induction ws arbitrary: xs) (auto intro: byKeys.sorted_list_set)

lemma set_commit_items_subset:
  "set (commit_items v xs ws) \<subseteq> set xs \<union> (\<lambda>w. w\<lparr>version := v\<rparr>) ` set ws"
  unfolding commit_items_def
  by (induction ws arbitrary: xs) (force simp: set_list_set)+

lemma commit_items_keeps:
  assumes "\<And>x. x \<in> set xs \<Longrightarrow> version x < v"
  shows "set xs \<subseteq> set (commit_items v xs ws)"
proof
  fix x assume x: "x \<in> set xs"
  have step: "x \<in> set ys \<Longrightarrow> x \<in> set (list_set byKeys (w\<lparr>version := v\<rparr>) ys)" for ys w
    using assms [OF x] by (cases "kb w" "kb x" rule: linorder_cases) (auto simp: list_set_def byKeys_iff)
  have "x \<in> set ys \<Longrightarrow> x \<in> set (commit_items v ys ws)" for ys
    by (induction ws arbitrary: ys) (simp_all add: commit_items_def step)
  with x show "x \<in> set (commit_items v xs ws)" by blast
qed

lemma latest_commit_items:
  assumes "sorted_wrt byKeys xs" "distinct (map kb ws)"
    and "\<And>y. y \<in> set xs \<Longrightarrow> kb y \<in> kb ` set ws \<Longrightarrow> version y < v"
  shows "latest (commit_items v xs ws) k v' =
    (case map_of (map (\<lambda>w. (kb w, w)) ws) k of
       Some w \<Rightarrow> if v \<le> v' then w\<lparr>version := v\<rparr> else latest xs k v'
     | None \<Rightarrow> latest xs k v')"
  using assms
proof (induction ws arbitrary: xs)
  case Nil
  then show ?case by (simp add: commit_items_def)
next
  case (Cons w ws)
  let ?xs = "list_set byKeys (w\<lparr>version := v\<rparr>) xs"
  have step: "commit_items v xs (w # ws) = commit_items v ?xs ws"
    by (simp add: commit_items_def)
  have sorted: "sorted_wrt byKeys ?xs"
    using Cons.prems(1) by (rule byKeys.sorted_list_set)
  have lower: "version y < v" if "y \<in> set ?xs" "kb y \<in> kb ` set ws" for y
    using that Cons.prems(2,3) by (auto simp: set_list_set)
  have new: "latest ?xs k v' = (if k = kb w \<and> v \<le> v' then w\<lparr>version := v\<rparr> else latest xs k v')"
    using latest_list_set_new [OF Cons.prems(1), of "w\<lparr>version := v\<rparr>" k v'] Cons.prems(3) by auto
  have fresh: "map_of (map (\<lambda>w. (kb w, w)) ws) (kb w) = None"
    using Cons.prems(2) by (force simp: map_of_eq_None_iff)
  show ?case
    unfolding step using Cons.IH [OF sorted _ lower] Cons.prems(2) new fresh
    by (auto split: option.split)
qed

text \<open>The table of running transactions does not matter for any reading of the store.\<close>

lemma inFlight_irrelevant [simp]:
  "store_view items (d\<lparr>inFlightTxn := u\<rparr>) = store_view items d"
  "txn_view items t (d\<lparr>inFlightTxn := u\<rparr>) = txn_view items t d"
  "store_inv items (d\<lparr>inFlightTxn := u\<rparr>) = store_inv items d"
  "txn_inv items t (d\<lparr>inFlightTxn := u\<rparr>) = txn_inv items t d"
  "txn_wf items t (d\<lparr>inFlightTxn := u\<rparr>) = txn_wf items t d"
  "conflicts items t (d\<lparr>inFlightTxn := u\<rparr>) = conflicts items t d"
  by (simp_all add: store_view_def txn_view_def store_inv_def txn_inv_def txn_wf_def conflicts_def fun_eq_iff Let_def)

context mem_trees
begin

subsection \<open>The conflict check\<close>

lemma fold_conflict_body:
  "fold_while (conflict_body B t d) xs None =
     (if \<exists>x \<in> set xs. version (latest (items (ds_values d)) (kb x) (ds_version d)) \<noteq>
        version (latest (items (ds_values d)) (kb x) (dsVersion t))
      then Some ErrTxnConflict else None)"
  by (induction xs) (auto simp: conflict_body_def get_latest getVersion_def getDSVersion_def Let_def)

lemma checkForConflicts_eq:
  "checkForConflicts B t d = Some (if conflicts items t d then Some ErrTxnConflict else None)"
proof -
  obtain i' where "for_next B (conflict_body B t d) (bt_iter B (ops t)) None =
      Some (i', fold_while (conflict_body B t d) (items (ops t)) None)"
    using for_next_iter [of "conflict_body B t d" "ops t" None] by blast
  then show ?thesis
    by (simp add: checkForConflicts_def fold_conflict_body conflicts_def getVersion_def getDSVersion_def)
qed

subsection \<open>The commit\<close>

lemma items_commit_fold:
  "items (fold_while (commit_body B v) xs tree) = commit_items v (items tree) (filter (\<lambda>x. \<not> isGet x) xs)"
  by (induction xs arbitrary: tree) (auto simp: commit_body_def commit_items_def items_set)

lemma commit_conflict:
  "conflicts items t d \<Longrightarrow> commit B t d = Some (Some ErrTxnConflict, d)"
  by (simp add: commit_def checkForConflicts_eq)

lemma commit_ok:
  assumes "\<not> conflicts items t d"
  obtains tree where "commit B t d = Some (None, d\<lparr>ds_version := ds_version d + 1, ds_values := tree\<rparr>)"
    and "items tree = commit_items (ds_version d + 1) (items (ds_values d)) (writes items t)"
proof -
  let ?v = "ds_version d + 1"
  let ?tree = "fold_while (commit_body B ?v) (items (ops t)) (ds_values d)"
  obtain i' where "for_next B (commit_body B ?v) (bt_iter B (ops t)) (ds_values d) = Some (i', ?tree)"
    using for_next_iter [of "commit_body B ?v" "ops t" "ds_values d"] by blast
  with assms have "commit B t d = Some (None, d\<lparr>ds_version := ?v, ds_values := ?tree\<rparr>)"
    by (simp add: commit_def checkForConflicts_eq nextVersion_def Let_def)
  moreover have "items ?tree = commit_items ?v (items (ds_values d)) (writes items t)"
    by (simp add: items_commit_fold writes_def)
  ultimately show thesis by (rule that)
qed

lemma distinct_writes:
  assumes "txn_wf items t d"
  shows "distinct (map kb (writes items t))"
proof -
  have distinct: "sorted_wrt byKeys ws \<Longrightarrow> \<forall>x \<in> set ws. version x = v \<Longrightarrow> distinct (map kb ws)" for ws v
  proof (induction ws)
    case (Cons w ws)
    have "kb w \<noteq> kb y" if "y \<in> set ws" for y
      using Cons.prems that by (metis byKeys_iff less_irrefl list.set_intros sorted_wrt.simps(2))
    with Cons show ?case by auto
  qed simp
  have "sorted_wrt byKeys (writes items t)"
    unfolding writes_def using sorted_items [of "ops t"] by (rule sorted_wrt_filter)
  moreover have "\<forall>x \<in> set (writes items t). version x = dsVersion t + 1"
    using assms by (auto simp: txn_wf_def)
  ultimately show ?thesis by (rule distinct)
qed

lemma writes_lookup:
  assumes "txn_wf items t d"
  shows "map_of (map (\<lambda>w. (kb w, w)) (writes items t)) k =
    (if k \<in> written items t then Some (latest (items (ops t)) k (dsVersion t + 1)) else None)"
proof (cases "k \<in> written items t")
  case True
  then obtain w where w: "w \<in> set (writes items t)" "kb w = k" by (auto simp: written_def)
  with assms have v: "version w = dsVersion t + 1" "w \<in> set (items (ops t))"
    by (auto simp: writes_def txn_wf_def)
  have "latest (items (ops t)) k (dsVersion t + 1) = w"
    by (rule latest_some [OF sorted_items]) (use w v in auto)
  moreover have "map_of (map (\<lambda>w. (kb w, w)) (writes items t)) k = Some w"
    using w distinct_writes [OF assms] by (intro map_of_is_SomeI) (auto simp: comp_def)
  ultimately show ?thesis using True by simp
next
  case False
  then show ?thesis by (force simp: written_def map_of_eq_None_iff)
qed

text \<open>
  After a successful commit the store reads, at every version, as it did before, except
  that from the new version on the written keys have the transaction's values.
\<close>

lemma commit_view:
  assumes inv: "store_inv items d" "txn_wf items t d" and max: "ds_version d \<noteq> - 1"
    and tree: "items tree = commit_items (ds_version d + 1) (items (ds_values d)) (writes items t)"
  shows "view (items tree) v k =
    (if k \<in> written items t \<and> ds_version d + 1 \<le> v then txn_view items t d k
     else view (items (ds_values d)) v k)"
proof -
  have lower: "version y < ds_version d + 1" if "y \<in> set (items (ds_values d))" for y
    using store_invD(3) [OF inv(1) that] word_less_plus_1 [OF max] by (rule le_less_trans)
  have own: "key (latest (items (ops t)) k (dsVersion t + 1)) \<noteq> None" if "k \<in> written items t"
  proof -
    from writes_lookup [OF inv(2), of k] that
    have "map_of (map (\<lambda>w. (kb w, w)) (writes items t)) k = Some (latest (items (ops t)) k (dsVersion t + 1))"
      by simp
    from map_of_SomeD [OF this] inv(2)
    have "kb (latest (items (ops t)) k (dsVersion t + 1)) \<noteq> []"
      by (auto simp: txn_wf_def)
    then show ?thesis by (rule kb_nonempty_key)
  qed
  have "latest (items tree) k v =
      (if k \<in> written items t \<and> ds_version d + 1 \<le> v
       then (latest (items (ops t)) k (dsVersion t + 1))\<lparr>version := ds_version d + 1\<rparr>
       else latest (items (ds_values d)) k v)"
    unfolding tree
    by (subst latest_commit_items [OF sorted_items distinct_writes [OF inv(2)] lower])
      (auto simp: writes_lookup [OF inv(2)])
  with own show ?thesis
    by (auto simp: view_def txn_view_def item_value_def Let_def)
qed

lemma commit_store_inv:
  assumes inv: "store_inv items d" "txn_wf items t d" and max: "ds_version d \<noteq> - 1"
    and tree: "items tree = commit_items (ds_version d + 1) (items (ds_values d)) (writes items t)"
  shows "store_inv items (d\<lparr>ds_version := ds_version d + 1, ds_values := tree\<rparr>)"
proof -
  have pos: "0 < ds_version d + 1" using word_plus_1_neq_0 [OF max] by (simp add: word_gt_0)
  have le: "v \<le> ds_version d \<Longrightarrow> v \<le> ds_version d + 1" for v
    using word_less_plus_1 [OF max] by simp
  have "kb x \<noteq> [] \<and> 0 < version x \<and> version x \<le> ds_version d + 1 \<and> \<not> isGet x" if "x \<in> set (items tree)" for x
    using that set_commit_items_subset [of "ds_version d + 1" "items (ds_values d)" "writes items t"]
      inv pos le unfolding tree store_inv_def txn_wf_def writes_def by fastforce
  then show ?thesis by (simp add: store_inv_def)
qed

subsection \<open>Discarding\<close>

lemma fold_expired_body:
  "fold_while (expired_body now) xs (ds, n) =
     (ds @ filter (\<lambda>x. now > ft_expiresAt x) xs, n + length (filter (\<lambda>x. now > ft_expiresAt x) xs))"
  by (induction xs arbitrary: ds n) (auto simp: expired_body_def)

lemma clearOld_loop_round:
  "clearOld_loop T now u =
     (let ds = filter (\<lambda>x. now > ft_expiresAt x) (fitems u)
      in if ds = [] then Some u else clearOld_loop T now (fold (\<lambda>x t. bt_delete T t x) ds u))"
proof -
  obtain i' where "for_next T (expired_body now) (bt_iter T u) ([], 0) =
      Some (i', fold_while (expired_body now) (fitems u) ([], 0))"
    using F.for_next_iter [of "expired_body now" u "([], 0)"] by blast
  then show ?thesis
    by (subst clearOld_loop.simps) (simp add: fold_expired_body Let_def)
qed

lemma clearOld_loop_returns:
  obtains u' where "clearOld_loop T now u = Some u'"
    and "fitems u' = filter (\<lambda>x. \<not> now > ft_expiresAt x) (fitems u)"
proof -
  let ?ds = "filter (\<lambda>x. now > ft_expiresAt x) (fitems u)"
  let ?u = "fold (\<lambda>x t. bt_delete T t x) ?ds u"
  have rest: "fitems ?u = filter (\<lambda>x. \<not> now > ft_expiresAt x) (fitems u)"
    using F.items_fold_delete [OF byDSVersion.weak_order_axioms, of ?ds u]
    by (auto intro: filter_cong)
  have "clearOld_loop T now ?u = Some ?u"
    by (subst clearOld_loop_round) (simp add: rest filter_empty_conv)
  then have "clearOld_loop T now u = Some ?u"
    by (subst clearOld_loop_round) (simp add: Let_def)
  with rest that show thesis by blast
qed

lemma clearOldInFlightTxn_returns:
  obtains u where "clearOldInFlightTxn T now d = Some (d\<lparr>inFlightTxn := u\<rparr>)"
    and "fitems u = filter (\<lambda>x. \<not> now > ft_expiresAt x) (fitems (inFlightTxn d))"
proof (cases "bt_height T (inFlightTxn d) = 0")
  case True
  with that [of "inFlightTxn d"] show thesis
    by (simp add: clearOldInFlightTxn_def F.height_items)
next
  case False
  obtain u where "clearOld_loop T now (inFlightTxn d) = Some u"
    and "fitems u = filter (\<lambda>x. \<not> now > ft_expiresAt x) (fitems (inFlightTxn d))"
    by (rule clearOld_loop_returns)
  with False that show thesis by (simp add: clearOldInFlightTxn_def)
qed

lemma txn_Discard_returns:
  assumes "\<not> discarded t"
  obtains u where "txn_Discard B T now t d =
      Some (t\<lparr>ops := bt_clear B (ops t), discarded := True\<rparr>, d\<lparr>inFlightTxn := u\<rparr>)"
    and "fitems u = filter (\<lambda>x. \<not> now > ft_expiresAt x \<and>
      \<not> (ft_dsVersion x = dsVersion t \<and> ft_txnVersion x = dsVersion t + 1)) (fitems (inFlightTxn d))"
proof -
  let ?e = "dsTxn0\<lparr>ft_dsVersion := dsVersion t, ft_txnVersion := dsVersion t + 1\<rparr>"
  let ?d = "d\<lparr>inFlightTxn := bt_delete T (inFlightTxn d) ?e\<rparr>"
  obtain u where u: "clearOldInFlightTxn T now ?d = Some (?d\<lparr>inFlightTxn := u\<rparr>)"
    "fitems u = filter (\<lambda>x. \<not> now > ft_expiresAt x) (fitems (inFlightTxn ?d))"
    by (rule clearOldInFlightTxn_returns)
  have del: "byDSVersion x ?e \<or> byDSVersion ?e x \<longleftrightarrow>
      \<not> (ft_dsVersion x = dsVersion t \<and> ft_txnVersion x = dsVersion t + 1)" for x
    by (auto simp: byDSVersion_def)
  have "txn_Discard B T now t d = Some (t\<lparr>ops := bt_clear B (ops t), discarded := True\<rparr>, d\<lparr>inFlightTxn := u\<rparr>)"
    using assms u(1) by (simp add: txn_Discard_def clearInFlightTxn_def getDSVersion_def getTxnVersion_def)
  moreover have "fitems u = filter (\<lambda>x. \<not> now > ft_expiresAt x \<and>
      \<not> (ft_dsVersion x = dsVersion t \<and> ft_txnVersion x = dsVersion t + 1)) (fitems (inFlightTxn d))"
    unfolding u(2) by (auto simp: F.items_delete list_del_def del intro: filter_cong)
  ultimately show thesis by (rule that)
qed

end

end
