(* ===== verification/Mem_Txn.thy ===== *)
theory Mem_Txn
  imports Mem_Commit
begin

text \<open>
  The correctness of transactions and of the datastore's own methods, stated on the maps
  of \<open>Mem_View\<close>: reads see the snapshot with the transaction's own writes on top, commits
  apply exactly the writes or nothing, a committed transaction saw no stale key, and the
  datastore's methods are the operations of a map.
\<close>

context mem_trees
begin

subsection \<open>Methods of a transaction\<close>

lemma txn_Get_eq:
  assumes "\<not> closed d" "\<not> discarded t" "len k \<noteq> 0"
  shows "txn_Get B t d k =
    (case txn_view items t d (contents k) of None \<Rightarrow> Inl ErrNotFound | Some v \<Rightarrow> Inr v,
     snd (txn_get B t d k))"
  using assms txn_get_value [of t d k, symmetric]
  by (auto simp: txn_Get_def case_prod_beta item_value_def)

lemma txn_Has_eq:
  assumes "\<not> closed d" "\<not> discarded t" "len k \<noteq> 0"
  shows "txn_Has B t d k = (Inr (txn_view items t d (contents k) \<noteq> None), snd (txn_get B t d k))"
  using assms txn_get_value [of t d k, symmetric]
  by (auto simp: txn_Has_def case_prod_beta item_value_def)

lemma txn_GetSize_eq:
  assumes "\<not> closed d" "\<not> discarded t" "len k \<noteq> 0"
  shows "txn_GetSize B t d k =
    (case txn_view items t d (contents k) of None \<Rightarrow> Inl ErrNotFound | Some v \<Rightarrow> Inr (len v),
     snd (txn_get B t d k))"
  using assms txn_get_value [of t d k, symmetric]
  by (auto simp: txn_GetSize_def case_prod_beta item_value_def)

lemma txn_Set_eq:
  assumes "txn_inv items t d" "\<not> closed d" "\<not> discarded t" "\<not> readOnly t" "len k \<noteq> 0"
  obtains t' where "txn_Set B t d k v = (None, t')" "txn_inv items t' d"
    "txn_view items t' d = (txn_view items t d)(contents k := Some v)"
    "dsVersion t' = dsVersion t" "discarded t' = discarded t" "readOnly t' = readOnly t"
proof -
  let ?w = "dsItem0\<lparr>key := k, version := dsVersion t + 1, val := v\<rparr>"
  let ?t = "t\<lparr>ops := bt_set B (ops t) ?w\<rparr>"
  from assms(5) have k: "contents k \<noteq> []" "k \<noteq> None" by (cases k; simp)+
  then have "txn_inv items ?t d" "txn_view items ?t d = (txn_view items t d)(contents k := Some v)"
    using stage_inv [OF assms(1), of ?w] stage_view [OF assms(1), of ?w] by (auto simp: item_value_def)
  with assms show thesis
    by (intro that [of ?t]) (simp_all add: txn_Set_def getTxnVersion_def getDSVersion_def)
qed

lemma txn_Delete_eq:
  assumes inv: "store_inv items d" "txn_inv items t d"
    and "\<not> closed d" "\<not> discarded t" "\<not> readOnly t" "len k \<noteq> 0"
  obtains t' where "txn_Delete B t d k = (None, t')" "txn_inv items t' d"
    "\<And>k'. k' \<noteq> [] \<Longrightarrow> txn_view items t' d k' = ((txn_view items t d)(contents k := None)) k'"
    "dsVersion t' = dsVersion t" "discarded t' = discarded t" "readOnly t' = readOnly t"
proof -
  let ?t = "snd (txn_get B t d k)"
  let ?w = "dsItem0\<lparr>key := k, version := dsVersion t + 1, isDeleted := True\<rparr>"
  from assms(6) have k: "contents k \<noteq> []" "k \<noteq> None" by (cases k; simp)+
  note get = txn_get_inv [OF inv assms(6)] txn_get_view [OF inv assms(6)] txn_get_frame [of t d k]
  show thesis
  proof (cases "item_value (fst (txn_get B t d k)) = None")
    case True
    then have "txn_Delete B t d k = (None, ?t)"
      using assms by (auto simp: txn_Delete_def case_prod_beta item_value_def)
    with True get txn_get_value [of t d k] show thesis
      by (intro that [of ?t]) auto
  next
    case False
    let ?t' = "?t\<lparr>ops := bt_set B (ops ?t) ?w\<rparr>"
    from False have "txn_Delete B t d k = (None, ?t')"
      using assms get by (auto simp: txn_Delete_def case_prod_beta item_value_def getTxnVersion_def getDSVersion_def)
    moreover have "txn_inv items ?t' d"
      using stage_inv [OF get(1), of ?w] get k by simp
    moreover have "txn_view items ?t' d = (txn_view items ?t d)(contents k := None)"
      using stage_view [OF get(1), of ?w] get k by (simp add: item_value_def)
    ultimately show thesis using get by (intro that [of ?t']) auto
  qed
qed

subsection \<open>Commit\<close>

lemma latest_store_above:
  assumes "store_inv items d" "ds_version d \<le> v"
  shows "latest (items (ds_values d)) k v = latest (items (ds_values d)) k (ds_version d)"
proof -
  have "filter (\<lambda>x. kb x = k \<and> version x \<le> v) (items (ds_values d)) =
      filter (\<lambda>x. kb x = k \<and> version x \<le> ds_version d) (items (ds_values d))"
    by (rule filter_cong) (use store_invD(3) [OF assms(1)] assms(2) in \<open>auto intro: order.trans\<close>)
  then show ?thesis by (simp add: latest_def)
qed

lemma txn_Commit_conflict:
  assumes "\<not> closed d" "\<not> discarded t" "\<not> readOnly t" "conflicts items t d"
  obtains u where "txn_Commit B T now t d =
    Some (Some ErrTxnConflict, t\<lparr>ops := bt_clear B (ops t), discarded := True\<rparr>, d\<lparr>inFlightTxn := u\<rparr>)"
proof -
  obtain u where "txn_Discard B T now t d =
      Some (t\<lparr>ops := bt_clear B (ops t), discarded := True\<rparr>, d\<lparr>inFlightTxn := u\<rparr>)"
    using txn_Discard_returns [OF assms(2)] by blast
  with assms show thesis
    by (intro that [of u]) (simp add: txn_Commit_def commit_conflict)
qed

lemma txn_Commit_ok:
  assumes "\<not> closed d" "\<not> discarded t" "\<not> readOnly t" "\<not> conflicts items t d"
  obtains tree u where "txn_Commit B T now t d =
      Some (None, t\<lparr>ops := bt_clear B (ops t), discarded := True\<rparr>,
        d\<lparr>ds_version := ds_version d + 1, ds_values := tree, inFlightTxn := u\<rparr>)"
    and "items tree = commit_items (ds_version d + 1) (items (ds_values d)) (writes items t)"
proof -
  obtain tree where tree:
    "commit B t d = Some (None, d\<lparr>ds_version := ds_version d + 1, ds_values := tree\<rparr>)"
    "items tree = commit_items (ds_version d + 1) (items (ds_values d)) (writes items t)"
    using commit_ok [OF assms(4)] by blast
  let ?d = "d\<lparr>ds_version := ds_version d + 1, ds_values := tree\<rparr>"
  obtain u where "txn_Discard B T now t ?d =
      Some (t\<lparr>ops := bt_clear B (ops t), discarded := True\<rparr>, ?d\<lparr>inFlightTxn := u\<rparr>)"
    using txn_Discard_returns [OF assms(2), of now ?d] by blast
  with assms tree show thesis
    by (intro that [of u tree]) (simp_all add: txn_Commit_def)
qed

lemma txn_Commit_spec:
  assumes inv: "store_inv items d" "txn_inv items t d" and max: "ds_version d \<noteq> - 1"
    and live: "\<not> closed d" "\<not> discarded t" "\<not> readOnly t"
  shows "\<exists>e t' d'. txn_Commit B T now t d = Some (e, t', d') \<and> discarded t' \<and> store_inv items d' \<and>
    (if conflicts items t d
     then e = Some ErrTxnConflict \<and> ds_version d' = ds_version d \<and> ds_values d' = ds_values d
     else e = None \<and> ds_version d' = ds_version d + 1 \<and>
       store_view items d' = (\<lambda>k. if k \<in> written items t then txn_view items t d k else store_view items d k) \<and>
       (\<forall>v \<le> ds_version d. view (items (ds_values d')) v = view (items (ds_values d)) v))"
proof (cases "conflicts items t d")
  case True
  then obtain u where "txn_Commit B T now t d =
      Some (Some ErrTxnConflict, t\<lparr>ops := bt_clear B (ops t), discarded := True\<rparr>, d\<lparr>inFlightTxn := u\<rparr>)"
    using txn_Commit_conflict [OF live] by blast
  with True inv(1) show ?thesis by simp
next
  case False
  then obtain tree u where c: "txn_Commit B T now t d =
      Some (None, t\<lparr>ops := bt_clear B (ops t), discarded := True\<rparr>,
        d\<lparr>ds_version := ds_version d + 1, ds_values := tree, inFlightTxn := u\<rparr>)"
    and tree: "items tree = commit_items (ds_version d + 1) (items (ds_values d)) (writes items t)"
    using txn_Commit_ok [OF live] by blast
  let ?d = "d\<lparr>ds_version := ds_version d + 1, ds_values := tree\<rparr>"
  have less: "ds_version d < ds_version d + 1" using max by (rule word_less_plus_1)
  note v = commit_view [OF inv(1) txn_inv_wf [OF inv(2)] max tree]
  have "latest (items (ds_values d)) k (ds_version d + 1) = latest (items (ds_values d)) k (ds_version d)" for k
    using latest_store_above [OF inv(1), of "ds_version d + 1"] less by simp
  then have old: "view (items (ds_values d)) (ds_version d + 1) k = view (items (ds_values d)) (ds_version d) k" for k
    by (simp add: view_def)
  have "store_view items ?d = (\<lambda>k. if k \<in> written items t then txn_view items t d k else store_view items d k)"
    using v old by (auto simp: store_view_def fun_eq_iff)
  moreover have "\<forall>v \<le> ds_version d. view (items tree) v = view (items (ds_values d)) v"
    using v less by (auto simp: fun_eq_iff)
  moreover have "store_inv items ?d" using commit_store_inv [OF inv(1) txn_inv_wf [OF inv(2)] max tree] .
  ultimately show ?thesis
    using False c by (simp add: store_view_def store_inv_def)
qed

text \<open>A commit that succeeds found every key it read or wrote as the transaction saw it.\<close>

lemma no_conflict_same_row:
  assumes inv: "store_inv items d" "txn_inv items t d" and "\<not> conflicts items t d"
    and "x \<in> set (items (ops t))"
  shows "latest (items (ds_values d)) (kb x) (ds_version d) = latest (items (ds_values d)) (kb x) (dsVersion t)"
proof (cases "dsVersion t = ds_version d")
  case False
  let ?l = "latest (items (ds_values d)) (kb x)"
  from False assms(3,4) have same: "version (?l (ds_version d)) = version (?l (dsVersion t))"
    by (auto simp: conflicts_def)
  have zero: "?l v = dsItem0 \<or> 0 < version (?l v)" for v
    using latest_store [OF inv(1), of "kb x" v] store_invD(2) [OF inv(1)] by auto
  consider "?l (ds_version d) = dsItem0" | "?l (dsVersion t) = dsItem0"
    | "?l (ds_version d) \<in> set (items (ds_values d))" "kb (?l (ds_version d)) = kb x"
      "?l (dsVersion t) \<in> set (items (ds_values d))" "kb (?l (dsVersion t)) = kb x"
    using latest_store [OF inv(1), of "kb x" "ds_version d"] latest_store [OF inv(1), of "kb x" "dsVersion t"] by blast
  then show ?thesis
  proof cases
    case 3
    with same sorted_byKeys_unique [OF sorted_items [of "ds_values d"]] show ?thesis by simp
  qed (use same zero [of "ds_version d"] zero [of "dsVersion t"] in auto)
qed simp

subsection \<open>Isolation\<close>

text \<open>
  Another transaction's commit leaves the snapshot, and with it the whole view of a running
  transaction, untouched.
\<close>

lemma commit_isolated:
  assumes inv: "store_inv items d" "txn_inv items t d" "txn_inv items s d" and max: "ds_version d \<noteq> - 1"
    and tree: "items tree = commit_items (ds_version d + 1) (items (ds_values d)) (writes items s)"
  defines "d' \<equiv> d\<lparr>ds_version := ds_version d + 1, ds_values := tree\<rparr>"
  shows "txn_view items t d' = txn_view items t d" "txn_inv items t d'"
proof -
  have less: "ds_version d < ds_version d + 1" using max by (rule word_less_plus_1)
  with inv(2) have old: "\<not> ds_version d + 1 \<le> dsVersion t" by (auto simp: txn_inv_def)
  have lower: "version y < ds_version d + 1" if "y \<in> set (items (ds_values d))" for y
    using store_invD(3) [OF inv(1) that] less by (rule le_less_trans)
  have same: "latest (items tree) k (dsVersion t) = latest (items (ds_values d)) k (dsVersion t)" for k
    unfolding tree using old
    by (subst latest_commit_items [OF sorted_items distinct_writes [OF txn_inv_wf [OF inv(3)]] lower]) (auto split: option.split)
  then show "txn_view items t d' = txn_view items t d"
    by (simp add: d'_def txn_view_def view_def fun_eq_iff Let_def)
  from same inv(2) less show "txn_inv items t d'"
    by (auto simp: d'_def txn_inv_def)
qed

text \<open>The same for any outcome of the commit.\<close>

lemma txn_Commit_isolated:
  assumes "store_inv items d" "txn_inv items t d" "txn_inv items s d" "ds_version d \<noteq> - 1"
    and "txn_Commit B T now s d = Some (e, s', d')"
  shows "txn_view items t d' = txn_view items t d \<and> txn_inv items t d'"
proof (cases "closed d \<or> discarded s")
  case True
  with assms(2,5) show ?thesis by (auto simp: txn_Commit_def split: if_splits)
next
  case False
  then have live: "\<not> closed d" "\<not> discarded s" by auto
  consider "readOnly s" | "\<not> readOnly s" "conflicts items s d" | "\<not> readOnly s" "\<not> conflicts items s d"
    by blast
  then show ?thesis
  proof cases
    case 1
    obtain u where "d' = d\<lparr>inFlightTxn := u\<rparr>"
      using txn_Discard_returns [OF live(2), of now d] assms(5) live 1 by (force simp: txn_Commit_def)
    with assms(2) show ?thesis by simp
  next
    case 2
    obtain u where "d' = d\<lparr>inFlightTxn := u\<rparr>"
      using txn_Commit_conflict [OF live 2, of now] assms(5) by force
    with assms(2) show ?thesis by simp
  next
    case 3
    then obtain tree u where c: "txn_Commit B T now s d = Some (None, s\<lparr>ops := bt_clear B (ops s), discarded := True\<rparr>,
        d\<lparr>ds_version := ds_version d + 1, ds_values := tree, inFlightTxn := u\<rparr>)"
      and tree: "items tree = commit_items (ds_version d + 1) (items (ds_values d)) (writes items s)"
      using txn_Commit_ok [OF live] by blast
    with assms(5) commit_isolated [OF assms(1-4) tree] show ?thesis by auto
  qed
qed

text \<open>
  Two transactions from the same snapshot that write a common key: when one has committed,
  the other conflicts.
\<close>

lemma commit_makes_conflict:
  assumes inv: "store_inv items d" "txn_inv items s d" "txn_inv items t d" and max: "ds_version d \<noteq> - 1"
    and tree: "items tree = commit_items (ds_version d + 1) (items (ds_values d)) (writes items s)"
    and k: "k \<in> written items s" "k \<in> kb ` set (items (ops t))"
  defines "d' \<equiv> d\<lparr>ds_version := ds_version d + 1, ds_values := tree\<rparr>"
  shows "conflicts items t d'"
proof -
  have less: "ds_version d < ds_version d + 1" using max by (rule word_less_plus_1)
  from inv(3) have t: "dsVersion t \<le> ds_version d" by (simp add: txn_inv_def)
  have lower: "version y < ds_version d + 1" if "y \<in> set (items (ds_values d))" for y
    using store_invD(3) [OF inv(1) that] less by (rule le_less_trans)
  have new: "latest (items tree) k v =
      (if ds_version d + 1 \<le> v then (latest (items (ops s)) k (dsVersion s + 1))\<lparr>version := ds_version d + 1\<rparr>
       else latest (items (ds_values d)) k v)" for v
    unfolding tree using k(1)
    by (subst latest_commit_items [OF sorted_items distinct_writes [OF txn_inv_wf [OF inv(2)]] lower])
      (auto simp: writes_lookup [OF txn_inv_wf [OF inv(2)]])
  have "version (latest (items tree) k (dsVersion t)) \<le> dsVersion t"
    using new [of "dsVersion t"] t less latest_store [OF inv(1), of k "dsVersion t"] by auto
  with new [of "ds_version d + 1"] t less k(2) show ?thesis
    by (auto simp: conflicts_def d'_def not_le intro!: bexI)
qed

subsection \<open>The datastore as a map\<close>

lemma newTransaction_eq:
  assumes "newTransaction B T now ro d = (t, d')"
  shows "dsVersion t = ds_version d" "items (ops t) = []" "\<not> discarded t" "readOnly t = ro"
    "ds_version d' = ds_version d" "ds_values d' = ds_values d" "closed d' = closed d"
  using assms by (auto simp: newTransaction_def getVersion_def Let_def items_new)

lemma newTransaction_inv:
  assumes "newTransaction B T now ro d = (t, d')" "store_inv items d" "ds_version d \<noteq> - 1"
  shows "txn_inv items t d'" "store_inv items d'" "store_view items d' = store_view items d"
    "txn_view items t d' = store_view items d"
  using newTransaction_eq [OF assms(1)] assms(2,3)
  by (simp_all add: txn_inv_def store_inv_def store_view_def txn_view_def latest_none fun_eq_iff Let_def)

lemma Datastore_Get_eq:
  assumes "\<not> closed d" "len k \<noteq> 0"
  shows "Datastore_Get B None d k =
    (case store_view items d (contents k) of None \<Rightarrow> Inl ErrNotFound | Some v \<Rightarrow> Inr v, None)"
  using assms by (auto simp: Datastore_Get_def get_latest store_view_def view_def item_value_def getVersion_def Let_def)

lemma Datastore_Has_eq:
  assumes "\<not> closed d" "len k \<noteq> 0"
  shows "Datastore_Has B None d k = (Inr (store_view items d (contents k) \<noteq> None), None)"
  using assms by (auto simp: Datastore_Has_def get_latest store_view_def view_def item_value_def getVersion_def Let_def)

text \<open>Committing a transaction no commit has overtaken replaces the view by its own.\<close>

lemma fresh_commit:
  assumes inv: "store_inv items d" "txn_inv items t d" and max: "ds_version d \<noteq> - 1"
    and "dsVersion t = ds_version d" "\<not> closed d" "\<not> discarded t" "\<not> readOnly t"
  shows "\<exists>t' d'. txn_Commit B T now t d = Some (None, t', d') \<and> store_inv items d' \<and>
    ds_version d' = ds_version d + 1 \<and> closed d' = closed d \<and>
    (\<forall>k. k \<noteq> [] \<longrightarrow> store_view items d' k = txn_view items t d k)"
proof -
  from assms(4) have no: "\<not> conflicts items t d" by (simp add: conflicts_def)
  from txn_Commit_ok [OF assms(5-7) no, of now] obtain tree u where c: "txn_Commit B T now t d =
      Some (None, t\<lparr>ops := bt_clear B (ops t), discarded := True\<rparr>,
        d\<lparr>ds_version := ds_version d + 1, ds_values := tree, inFlightTxn := u\<rparr>)" by metis
  obtain t' d' where s: "txn_Commit B T now t d = Some (None, t', d')" "store_inv items d'"
    "ds_version d' = ds_version d + 1"
    "store_view items d' = (\<lambda>k. if k \<in> written items t then txn_view items t d k else store_view items d k)"
    using txn_Commit_spec [OF inv max assms(5-7), of now] no by auto
  have "txn_view items t d k = store_view items d k" if "k \<noteq> []" "k \<notin> written items t" for k
  proof -
    let ?own = "latest (items (ops t)) k (dsVersion t + 1)"
    have "isGet ?own" if "?own \<in> set (items (ops t))" "kb ?own = k"
      using that \<open>k \<notin> written items t\<close> by (force simp: written_def writes_def)
    then have "?own = dsItem0 \<or> ?own = (latest (items (ds_values d)) k (dsVersion t))\<lparr>isGet := True\<rparr>"
      using latest_ops [of t k "dsVersion t + 1"] inv(2) by (auto simp: txn_inv_def)
    then have "item_value ?own = view (items (ds_values d)) (dsVersion t) k" if "key ?own \<noteq> None"
      using that by (metis dsItem0_simps(1) item_value_isGet view_def)
    then show ?thesis
      using assms(4) by (simp add: txn_view_def store_view_def Let_def)
  qed
  with s c show ?thesis by auto
qed

lemma Datastore_Set_eq:
  assumes "store_inv items d" "ds_version d \<noteq> - 1" "\<not> closed d" "len k \<noteq> 0"
  shows "\<exists>d'. Datastore_Set B T t0 t1 None d k v = Some (None, None, d') \<and> store_inv items d' \<and>
    ds_version d' = ds_version d + 1 \<and> closed d' = closed d \<and>
    (\<forall>k'. k' \<noteq> [] \<longrightarrow> store_view items d' k' = ((store_view items d)(contents k := Some v)) k')"
proof -
  obtain t d1 where new: "newTransaction B T t0 False d = (t, d1)" by (cases "newTransaction B T t0 False d")
  note n = newTransaction_eq [OF new] newTransaction_inv [OF new assms(1,2)]
  obtain t' where t': "txn_Set B t d1 k v = (None, t')" "txn_inv items t' d1"
    "txn_view items t' d1 = (txn_view items t d1)(contents k := Some v)"
    "dsVersion t' = dsVersion t" "discarded t' = discarded t" "readOnly t' = readOnly t"
    using txn_Set_eq [of t d1 k v] n assms by auto
  obtain t'' d' where "txn_Commit B T t1 t' d1 = Some (None, t'', d')" "store_inv items d'"
    "ds_version d' = ds_version d1 + 1" "closed d' = closed d1"
    "\<forall>k. k \<noteq> [] \<longrightarrow> store_view items d' k = txn_view items t' d1 k"
    using fresh_commit [of d1 t' t1] t' n assms by auto
  with t' n assms show ?thesis
    by (simp add: Datastore_Set_def new)
qed

lemma Datastore_Delete_eq:
  assumes "store_inv items d" "ds_version d \<noteq> - 1" "\<not> closed d" "len k \<noteq> 0"
  shows "\<exists>d'. Datastore_Delete B T t0 t1 None d k = Some (None, None, d') \<and> store_inv items d' \<and>
    ds_version d' = ds_version d + 1 \<and> closed d' = closed d \<and>
    (\<forall>k'. k' \<noteq> [] \<longrightarrow> store_view items d' k' = ((store_view items d)(contents k := None)) k')"
proof -
  obtain t d1 where new: "newTransaction B T t0 False d = (t, d1)" by (cases "newTransaction B T t0 False d")
  note n = newTransaction_eq [OF new] newTransaction_inv [OF new assms(1,2)]
  obtain t' where t': "txn_Delete B t d1 k = (None, t')" "txn_inv items t' d1"
    "\<And>k'. k' \<noteq> [] \<Longrightarrow> txn_view items t' d1 k' = ((txn_view items t d1)(contents k := None)) k'"
    "dsVersion t' = dsVersion t" "discarded t' = discarded t" "readOnly t' = readOnly t"
    using txn_Delete_eq [of d1 t k] n assms by auto
  obtain t'' d' where "txn_Commit B T t1 t' d1 = Some (None, t'', d')" "store_inv items d'"
    "ds_version d' = ds_version d1 + 1" "closed d' = closed d1"
    "\<forall>k. k \<noteq> [] \<longrightarrow> store_view items d' k = txn_view items t' d1 k"
    using fresh_commit [of d1 t' t1] t' n assms by auto
  with t' n assms show ?thesis
    by (simp add: Datastore_Delete_def new)
qed

end

end
