(* ===== verification/Mem_Props.thy ===== *)
theory Mem_Props
  imports Mem_Txn
begin

text \<open>
  The properties of the in-memory store and its transactions, over any pair of trees that
  meet the package's contract (\<open>mem_trees\<close>), and their instances on the sorted-list trees.
\<close>

abbreviation lB :: "(dsItem list, dsItem, dsItem list_iter) btree_ops" where
  "lB \<equiv> list_btree byKeys dsItem0"

abbreviation lT :: "(dsTxn list, dsTxn, dsTxn list_iter) btree_ops" where
  "lT \<equiv> list_btree byDSVersion dsTxn0"

abbreviation lI :: "dsItem list \<Rightarrow> dsItem list" where
  "lI \<equiv> list_items byKeys"

interpretation mem_list: mem_trees lB lT lI fst "\<lambda>i. fst (snd i)" "list_items byDSVersion" fst "\<lambda>i. fst (snd i)"
  by unfold_locales

text \<open>A sample store with one row, and two transactions that overwrite its key.\<close>

definition row :: "bytes \<Rightarrow> u64 \<Rightarrow> bytes \<Rightarrow> dsItem" where
  "row k v x = \<lparr>key = Some k, version = v, val = Some x, isDeleted = False, isGet = False\<rparr>"

definition sample_store :: "(dsItem list, dsTxn list) Datastore" where
  "sample_store = \<lparr>ds_version = 1, ds_values = [row [1] 1 [7]], inFlightTxn = [], closed = False, closing = False\<rparr>"

definition sample_txn :: "bytes \<Rightarrow> dsItem list basicTxn" where
  "sample_txn x = \<lparr>ops = [row [1] 2 x], dsVersion = 1, readOnly = False, discarded = False\<rparr>"

lemmas sample_defs = row_def sample_store_def sample_txn_def

lemma sample_inv:
  "store_inv lI sample_store" "txn_inv lI (sample_txn x) sample_store" "ds_version sample_store \<noteq> - 1"
  "\<not> closed sample_store" "\<not> discarded (sample_txn x)" "\<not> readOnly (sample_txn x)"
  "\<not> conflicts lI (sample_txn x) sample_store" "written lI (sample_txn x) = {[1]}"
  by (simp_all add: sample_defs run_defs)

lemma sample_views:
  "store_view lI sample_store k = (if k = [1] then Some (Some [7]) else None)"
  "txn_view lI (sample_txn x) sample_store k = (if k = [1] then Some (Some x) else None)"
  by (simp_all add: sample_defs run_defs)

subsection \<open>Commit\<close>

text \<open>
  C1.  A commit is atomic.  On an open store, committing an open writable transaction always
  returns and ends the transaction.  If some key among its operations has a newer row than
  the one the transaction started from, it returns \<^verbatim>\<open>ErrTxnConflict\<close> and no row and no
  version changes; otherwise it succeeds, the version grows by one, the store reads as
  before except that every written key has the transaction's value, and what the store
  reads at any earlier version is unchanged.
\<close>

theorem commit_atomic:
  assumes "mem_trees B T items its pos fitems fits fpos"
    and "store_inv items d" "txn_inv items t d" "ds_version d \<noteq> - 1"
    and "\<not> closed d" "\<not> discarded t" "\<not> readOnly t"
  shows "\<exists>e t' d'. txn_Commit B T now t d = Some (e, t', d') \<and> discarded t' \<and> store_inv items d' \<and>
    (if conflicts items t d
     then e = Some ErrTxnConflict \<and> ds_version d' = ds_version d \<and> ds_values d' = ds_values d
     else e = None \<and> ds_version d' = ds_version d + 1 \<and>
       store_view items d' = (\<lambda>k. if k \<in> written items t then txn_view items t d k else store_view items d k) \<and>
       (\<forall>v \<le> ds_version d. view (items (ds_values d')) v = view (items (ds_values d)) v))"
  using mem_trees.txn_Commit_spec [OF assms(1)] assms(2-) by blast

theorem commit_atomic_witness:
  "\<exists>t' d'. txn_Commit lB lT 0 (sample_txn [8]) sample_store = Some (None, t', d') \<and>
     store_view lI d' [1] = Some (Some [8]) \<and> view (lI (ds_values d')) 1 [1] = Some (Some [7])"
proof -
  have "view (lI (ds_values sample_store)) 1 [1] = Some (Some [7])"
    by (simp add: sample_defs run_defs)
  moreover have "(1 :: u64) \<le> ds_version sample_store" by (simp add: sample_defs)
  ultimately show ?thesis
    using commit_atomic [OF mem_list.mem_trees_axioms, where d = sample_store and t = "sample_txn [8]" and now = 0]
      sample_inv(1,3,4) sample_inv(2,5-8) [of "[8]"] sample_views(2) [of "[8]" "[1]"] by auto
qed



text \<open>
  C5.  No update is lost: of two transactions on the same store that are open for writing, when
  one that wrote a key has committed, the commit of the other returns \<^verbatim>\<open>ErrTxnConflict\<close> and
  stores nothing, if the key is among its recorded operations, that is, if it wrote the key or
  read it and found it.  (A read of an absent key is not recorded, see
  \<open>absent_read_not_checked\<close>.)
\<close>

theorem lost_update_prevented:
  assumes "mem_trees B T items its pos fitems fits fpos"
    and "store_inv items d" "txn_inv items s d" "txn_inv items t d" "ds_version d \<noteq> - 1"
    and "\<not> readOnly s" "txn_Commit B T n1 s d = Some (None, s', d')"
    and "\<not> readOnly t" "\<not> discarded t" "k \<in> written items s" "k \<in> kb ` set (items (ops t))"
  shows "\<exists>t' d''. txn_Commit B T n2 t d' = Some (Some ErrTxnConflict, t', d'') \<and>
    ds_values d'' = ds_values d' \<and> ds_version d'' = ds_version d'"
proof -
  have live: "\<not> closed d" "\<not> discarded s"
    using assms(7) by (auto simp: txn_Commit_def split: if_splits)
  have "\<not> conflicts items s d"
  proof
    assume "conflicts items s d"
    then show False
      using mem_trees.txn_Commit_conflict [OF assms(1) live assms(6), of n1] assms(7) by auto
  qed
  then obtain tree u where c: "txn_Commit B T n1 s d = Some (None, s\<lparr>ops := bt_clear B (ops s), discarded := True\<rparr>,
        d\<lparr>ds_version := ds_version d + 1, ds_values := tree, inFlightTxn := u\<rparr>)"
    and tree: "items tree = commit_items (ds_version d + 1) (items (ds_values d)) (writes items s)"
    using mem_trees.txn_Commit_ok [OF assms(1) live assms(6)] by blast
  from c assms(7) have d': "d' = d\<lparr>ds_version := ds_version d + 1, ds_values := tree\<rparr>\<lparr>inFlightTxn := u\<rparr>"
    by simp
  have "conflicts items t d'"
    unfolding d' inFlight_irrelevant
    by (rule mem_trees.commit_makes_conflict [OF assms(1-5) tree assms(10,11)])
  moreover have "\<not> closed d'" using live by (simp add: d')
  ultimately obtain u' where "txn_Commit B T n2 t d' =
      Some (Some ErrTxnConflict, t\<lparr>ops := bt_clear B (ops t), discarded := True\<rparr>, d'\<lparr>inFlightTxn := u'\<rparr>)"
    using mem_trees.txn_Commit_conflict [OF assms(1) _ assms(9,8)] by blast
  then show ?thesis by simp
qed

theorem lost_update_prevented_witness:
  "\<exists>s' d' t' d''. txn_Commit lB lT 0 (sample_txn [8]) sample_store = Some (None, s', d') \<and>
     txn_Commit lB lT 0 (sample_txn [9]) d' = Some (Some ErrTxnConflict, t', d'')"
proof -
  obtain s' d' where c: "txn_Commit lB lT 0 (sample_txn [8]) sample_store = Some (None, s', d')"
    using mem_list.txn_Commit_ok [OF sample_inv(4-7), where now = 0] by metis
  have "[1] \<in> written lI (sample_txn [8])" "[1] \<in> kb ` set (lI (ops (sample_txn [9])))"
    by (simp_all add: sample_defs run_defs)
  from lost_update_prevented [OF mem_list.mem_trees_axioms sample_inv(1,2,2,3,6) c sample_inv(6,5) this] c
  show ?thesis by blast
qed

subsection \<open>Isolation\<close>

text \<open>
  Snapshot isolation: whatever the outcome of another transaction's commit, a running
  transaction reads exactly what it read before, and its invariant is kept.
\<close>

lemma snapshot_isolation:
  assumes "mem_trees B T items its pos fitems fits fpos"
    and "store_inv items d" "txn_inv items t d" "txn_inv items s d" "ds_version d \<noteq> - 1"
    and "txn_Commit B T now s d = Some (e, s', d')"
  shows "txn_view items t d' = txn_view items t d \<and> txn_inv items t d'"
  by (rule mem_trees.txn_Commit_isolated [OF assms])

subsection \<open>Reads and writes\<close>

text \<open>
  C20.  A transaction reads its own writes: after a \<^verbatim>\<open>Set\<close> on an open writable
  transaction, \<^verbatim>\<open>Get\<close> of an equal key gives the value set, \<^verbatim>\<open>Get\<close> of any other key
  gives what it gave before, and both \<^verbatim>\<open>Get\<close>s leave the transaction's view alone.
\<close>

theorem txn_reads_own_writes:
  assumes "mem_trees B T items its pos fitems fits fpos"
    and "store_inv items d" "txn_inv items t d" "\<not> closed d" "\<not> discarded t" "\<not> readOnly t" "len k \<noteq> 0"
  shows "\<exists>t'. txn_Set B t d k v = (None, t') \<and> txn_inv items t' d \<and>
    (\<forall>k'. len k' \<noteq> 0 \<longrightarrow>
       fst (txn_Get B t' d k') = (if contents k' = contents k then Inr v else fst (txn_Get B t d k')) \<and>
       (\<forall>x. x \<noteq> [] \<longrightarrow> txn_view items (snd (txn_Get B t' d k')) d x = txn_view items t' d x))"
proof -
  obtain t' where t': "txn_Set B t d k v = (None, t')" "txn_inv items t' d"
    "txn_view items t' d = (txn_view items t d)(contents k := Some v)"
    "discarded t' = discarded t"
    using mem_trees.txn_Set_eq [OF assms(1,3-7)] by metis
  moreover have "fst (txn_Get B t' d k') = (if contents k' = contents k then Inr v else fst (txn_Get B t d k')) \<and>
      (\<forall>x. x \<noteq> [] \<longrightarrow> txn_view items (snd (txn_Get B t' d k')) d x = txn_view items t' d x)"
    if "len k' \<noteq> 0" for k'
    using that t' assms mem_trees.txn_Get_eq [OF assms(1,4)] mem_trees.txn_get_view [OF assms(1,2) t'(2)] by auto
  ultimately show ?thesis by blast
qed

theorem txn_reads_own_writes_witness:
  "\<exists>t'. txn_Set lB (sample_txn [8]) sample_store (Some [2]) (Some [5]) = (None, t') \<and>
     fst (txn_Get lB t' sample_store (Some [2])) = Inr (Some [5]) \<and>
     fst (txn_Get lB t' sample_store (Some [1])) = Inr (Some [8])"
proof -
  have "fst (txn_Get lB (sample_txn [8]) sample_store (Some [1])) = Inr (Some [8])"
    by (simp add: sample_defs run_defs)
  then show ?thesis
    using txn_reads_own_writes [OF mem_list.mem_trees_axioms sample_inv(1) sample_inv(2) [of "[8]"] sample_inv(4-6),
        where k = "Some [2]" and v = "Some [5]"] by force
qed

text \<open>
  Deleting in a transaction: after a \<^verbatim>\<open>Delete\<close>, \<^verbatim>\<open>Get\<close> of an equal key returns
  \<^verbatim>\<open>ErrNotFound\<close> and \<^verbatim>\<open>Has\<close> false, whether or not the key was there, and every other
  key reads as before.
\<close>

lemma txn_delete_then_absent:
  assumes "mem_trees B T items its pos fitems fits fpos"
    and "store_inv items d" "txn_inv items t d" "\<not> closed d" "\<not> discarded t" "\<not> readOnly t" "len k \<noteq> 0"
  shows "\<exists>t'. txn_Delete B t d k = (None, t') \<and> txn_inv items t' d \<and>
    fst (txn_Has B t' d k) = Inr False \<and>
    (\<forall>k'. len k' \<noteq> 0 \<longrightarrow>
       fst (txn_Get B t' d k') = (if contents k' = contents k then Inl ErrNotFound else fst (txn_Get B t d k')))"
proof -
  obtain t' where t': "txn_Delete B t d k = (None, t')" "txn_inv items t' d"
    "\<And>k'. k' \<noteq> [] \<Longrightarrow> txn_view items t' d k' = ((txn_view items t d)(contents k := None)) k'"
    "discarded t' = discarded t"
    using mem_trees.txn_Delete_eq [OF assms] by metis
  from t' assms(7) have "txn_view items t' d (contents k) = None" by (simp add: len_0_iff)
  then have "fst (txn_Has B t' d k) = Inr False"
    using mem_trees.txn_Has_eq [OF assms(1,4)] t' assms by simp
  moreover have "fst (txn_Get B t' d k') = (if contents k' = contents k then Inl ErrNotFound else fst (txn_Get B t d k'))"
    if "len k' \<noteq> 0" for k'
    using that t' assms mem_trees.txn_Get_eq [OF assms(1,4)] by (auto simp: len_0_iff)
  ultimately show ?thesis using t' by blast
qed

text \<open>
  C21.  The datastore is a map.  On an open store, \<^verbatim>\<open>Set\<close> without a transaction in the
  context returns without error, and afterwards \<^verbatim>\<open>Get\<close> and \<^verbatim>\<open>Has\<close> see the new value under
  every equal key and exactly what they saw before under every other key.
\<close>

theorem datastore_set_then_get:
  assumes "mem_trees B T items its pos fitems fits fpos"
    and "store_inv items d" "ds_version d \<noteq> - 1" "\<not> closed d" "len k \<noteq> 0"
  shows "\<exists>d'. Datastore_Set B T t0 t1 None d k v = Some (None, None, d') \<and> store_inv items d' \<and>
    (\<forall>k'. len k' \<noteq> 0 \<longrightarrow>
       fst (Datastore_Get B None d' k') = (if contents k' = contents k then Inr v else fst (Datastore_Get B None d k')) \<and>
       fst (Datastore_Has B None d' k') = (if contents k' = contents k then Inr True else fst (Datastore_Has B None d k')))"
proof -
  obtain d' where d': "Datastore_Set B T t0 t1 None d k v = Some (None, None, d')" "store_inv items d'"
    "closed d' = closed d"
    "\<forall>k'. k' \<noteq> [] \<longrightarrow> store_view items d' k' = ((store_view items d)(contents k := Some v)) k'"
    using mem_trees.Datastore_Set_eq [OF assms, of t0 t1 v] by blast
  then show ?thesis
    using assms by (auto simp: len_0_iff mem_trees.Datastore_Get_eq [OF assms(1)] mem_trees.Datastore_Has_eq [OF assms(1)])
qed

theorem datastore_set_then_get_witness:
  "\<exists>d'. Datastore_Set lB lT 0 0 None sample_store (Some [2]) (Some [5]) = Some (None, None, d') \<and>
     fst (Datastore_Get lB None d' (Some [2])) = Inr (Some [5]) \<and>
     fst (Datastore_Get lB None d' (Some [1])) = Inr (Some [7])"
proof -
  have "fst (Datastore_Get lB None sample_store (Some [1])) = Inr (Some [7])"
    by (simp add: sample_defs run_defs)
  then show ?thesis
    using datastore_set_then_get [OF mem_list.mem_trees_axioms sample_inv(1,3,4), where k = "Some [2]" and v = "Some [5]"]
    by force
qed

text \<open>
  Deleting from the datastore: \<^verbatim>\<open>Delete\<close> on an open store returns no error even if
  the key is absent, and afterwards the key is not found and all others read as before.
\<close>

lemma datastore_delete_then_absent:
  assumes "mem_trees B T items its pos fitems fits fpos"
    and "store_inv items d" "ds_version d \<noteq> - 1" "\<not> closed d" "len k \<noteq> 0"
  shows "\<exists>d'. Datastore_Delete B T t0 t1 None d k = Some (None, None, d') \<and> store_inv items d' \<and>
    (\<forall>k'. len k' \<noteq> 0 \<longrightarrow>
       fst (Datastore_Get B None d' k') =
         (if contents k' = contents k then Inl ErrNotFound else fst (Datastore_Get B None d k')))"
proof -
  obtain d' where d': "Datastore_Delete B T t0 t1 None d k = Some (None, None, d')" "store_inv items d'"
    "closed d' = closed d"
    "\<forall>k'. k' \<noteq> [] \<longrightarrow> store_view items d' k' = ((store_view items d)(contents k := None)) k'"
    using mem_trees.Datastore_Delete_eq [OF assms, of t0 t1] by blast
  then show ?thesis
    using assms by (auto simp: len_0_iff mem_trees.Datastore_Get_eq [OF assms(1)])
qed

subsection \<open>Errors\<close>

text \<open>
  A read-only transaction cannot write: \<^verbatim>\<open>Set\<close> and \<^verbatim>\<open>Delete\<close> return
  \<^verbatim>\<open>ErrReadOnlyTxn\<close> without changing it, and \<^verbatim>\<open>Commit\<close> succeeds without changing a row
  or the version of the store.
\<close>

lemma read_only_never_writes:
  assumes "mem_trees B T items its pos fitems fits fpos" "readOnly t" "\<not> closed d" "\<not> discarded t"
  shows "txn_Set B t d k v = (Some ErrReadOnlyTxn, t) \<and> txn_Delete B t d k = (Some ErrReadOnlyTxn, t) \<and>
    (\<exists>t' d'. txn_Commit B T now t d = Some (None, t', d') \<and> discarded t' \<and>
       ds_values d' = ds_values d \<and> ds_version d' = ds_version d)"
proof -
  obtain u where "txn_Discard B T now t d =
      Some (t\<lparr>ops := bt_clear B (ops t), discarded := True\<rparr>, d\<lparr>inFlightTxn := u\<rparr>)"
    using mem_trees.txn_Discard_returns [OF assms(1,4), of now d] by blast
  with assms show ?thesis
    by (simp add: txn_Set_def txn_Delete_def txn_Commit_def)
qed

subsection \<open>What the conflict check does not see\<close>

text \<open>
  Reading a key that the snapshot does not hold is not remembered under that key: the
  row stored among the operations is the one with the nil key.  Whatever store \<open>d'\<close> the
  transaction later commits to, also one in which another transaction has created the key,
  the conflict check answers as if the read had not happened.
\<close>

lemma absent_read_not_checked:
  assumes "mem_trees B T items its pos fitems fits fpos"
    and "store_inv items d" "txn_inv items t d" "store_inv items d'" "len k \<noteq> 0"
    and "latest (items (ops t)) (contents k) (dsVersion t + 1) = dsItem0"
    and "latest (items (ds_values d)) (contents k) (dsVersion t) = dsItem0"
  shows "checkForConflicts B (snd (txn_get B t d k)) d' = checkForConflicts B t d'"
proof -
  let ?x = "dsItem0\<lparr>isGet := True\<rparr>"
  have get: "snd (txn_get B t d k) = t\<lparr>ops := bt_set B (ops t) ?x\<rparr>"
    using assms(6,7) by (simp add: mem_trees.txn_get_eq [OF assms(1)] Let_def)
  have tree: "btree B byKeys dsItem0 items its pos"
    using assms(1) by (rule item_tree.axioms [OF mem_trees.axioms(1)])
  have nil: "latest (items (ds_values d')) [] v = dsItem0" for v
    by (rule latest_none) (use store_invD(1) [OF assms(4)] in auto)
  have "conflicts items (t\<lparr>ops := bt_set B (ops t) ?x\<rparr>) d' = conflicts items t d'"
    unfolding conflicts_def using nil
    by (auto simp: btree.items_set [OF tree] set_list_set)
  with get show ?thesis by (simp add: mem_trees.checkForConflicts_eq [OF assms(1)])
qed

end
