(* ===== verification/Mem_Purge.thy ===== *)
theory Mem_Purge
  imports Mem_Props
begin

text \<open>
  The purge of old row versions (\<^verbatim>\<open>executePurge\<close>): rounds over the tree that collect the
  rows superseded by a newer row not above the purge version, at most a thousand per
  round, until a round finds none.  It returns, keeps every reading at or above the purge
  version, and leaves at most one such row per key.
\<close>

type_synonym purge_state = "dsItem \<times> dsItem list \<times> nat"

definition purge_body :: "u64 \<Rightarrow> dsItem \<Rightarrow> purge_state \<Rightarrow> bool \<times> purge_state" where
  "purge_body v cur s =
     (case s of (item, itemsToDelete, ntotal) \<Rightarrow>
        if version cur > v then (True, s)
        else let (itemsToDelete, ntotal) =
                   (if bytes_Equal (key item) (key cur) then (itemsToDelete @ [item], ntotal + 1)
                    else (itemsToDelete, ntotal));
                 item = cur
             in (\<not> ntotal \<ge> 1000, item, itemsToDelete, ntotal))"

definition purge_scan :: "('t, dsItem, 'i) btree_ops \<Rightarrow> u64 \<Rightarrow> 't \<Rightarrow> (dsItem list \<times> nat) option" where
  "purge_scan B v tree =
     (let i = snd (it_next B (bt_iter B tree));
          item = it_item B i
      in map_option (\<lambda>(_, _, itemsToDelete, ntotal). (itemsToDelete, ntotal))
           (for_next B (purge_body v) i (item, [], 0)))"

partial_function (option) purge_loop :: "('t, dsItem, 'i) btree_ops \<Rightarrow> u64 \<Rightarrow> 't \<Rightarrow> 't option" where
  "purge_loop B v tree =
     Option.bind (purge_scan B v tree)
       (\<lambda>(itemsToDelete, ntotal).
          if ntotal = 0 then Some tree
          else purge_loop B v (fold (\<lambda>x t. bt_delete B t x) itemsToDelete tree))"

definition purge_version :: "('u, dsTxn, 'j) btree_ops \<Rightarrow> ('t, 'u) Datastore \<Rightarrow> u64" where
  "purge_version T d =
     (let v = getVersion d
      in case bt_min T (inFlightTxn d) of Some oldest \<Rightarrow> ft_dsVersion oldest | None \<Rightarrow> v)"

definition executePurge ::
  "('t, dsItem, 'i) btree_ops \<Rightarrow> ('u, dsTxn, 'j) btree_ops \<Rightarrow> ('t, 'u) Datastore \<Rightarrow> ('t, 'u) Datastore option" where
  "executePurge B T d =
     map_option (\<lambda>tree. d\<lparr>ds_values := tree\<rparr>) (purge_loop B (purge_version T d) (ds_values d))"

declare purge_body_def [run_defs] purge_scan_def [run_defs] purge_version_def [run_defs] executePurge_def [run_defs]

lemma purge_body_skip: "version cur > v \<Longrightarrow> purge_body v cur s = (True, s)"
  by (simp add: purge_body_def case_prod_beta)

lemma purge_body_take:
  "\<not> version cur > v \<Longrightarrow> purge_body v cur (item, ds, n) =
     (let new = (if kb item = kb cur then [item] else [])
      in (\<not> n + length new \<ge> 1000, cur, ds @ new, n + length new))"
  by (simp add: purge_body_def bytes_Equal_def)

subsection \<open>Superseded rows\<close>

definition superseded :: "dsItem list \<Rightarrow> u64 \<Rightarrow> dsItem \<Rightarrow> bool" where
  "superseded xs v x \<longleftrightarrow> (\<exists>y \<in> set xs. kb y = kb x \<and> version x < version y \<and> version y \<le> v)"

text \<open>Removing superseded rows changes no reading at or above the purge version.\<close>

lemma latest_superseded:
  assumes "sorted_wrt byKeys xs" "sorted_wrt byKeys ys" "set ys \<subseteq> set xs" "v \<le> w"
    and "\<And>x. x \<in> set xs \<Longrightarrow> x \<notin> set ys \<Longrightarrow> superseded xs v x"
  shows "latest ys k w = latest xs k w"
  using assms(1)
proof (cases rule: latest_cases [where k = k and v = w])
  case none
  with assms(3) show ?thesis by (metis latest_none subsetD)
next
  case some
  let ?l = "latest xs k w"
  have "?l \<in> set ys"
  proof (rule ccontr)
    assume "?l \<notin> set ys"
    with some(1) assms(5) have "superseded xs v ?l" by blast
    then obtain y where "y \<in> set xs" "kb y = kb ?l" "version ?l < version y" "version y \<le> v"
      unfolding superseded_def by blast
    with some assms(4) show False by (metis leD order.trans)
  qed
  with some assms(2,3) show ?thesis by (intro latest_some) auto
qed

subsection \<open>One round\<close>

lemma superseded_mono: "superseded zs v x \<Longrightarrow> set zs \<subseteq> set xs \<Longrightarrow> superseded xs v x"
  unfolding superseded_def by blast

text \<open>Rows of a list that other rows of it supersede.\<close>

definition found_in :: "dsItem list \<Rightarrow> u64 \<Rightarrow> dsItem list \<Rightarrow> bool" where
  "found_in xs v new \<longleftrightarrow> set new \<subseteq> set xs \<and> (\<forall>x \<in> set new. superseded xs v x)"

lemma found_in_mono: "found_in zs v new \<Longrightarrow> set zs \<subseteq> set xs \<Longrightarrow> found_in xs v new"
  using superseded_mono unfolding found_in_def by blast

lemma found_in_append [simp]: "found_in xs v (as @ bs) \<longleftrightarrow> found_in xs v as \<and> found_in xs v bs"
  by (auto simp: found_in_def)

lemma purge_fold:
  assumes "sorted_wrt byKeys (item # ys)" "ntotal = length ds"
    and "fold_while (purge_body v) ys (item, ds, ntotal) = (item', ds', n')"
  shows "n' = length ds' \<and> (\<exists>new. ds' = ds @ new \<and> found_in (item # ys) v new)"
  using assms
proof (induction ys arbitrary: item ds ntotal)
  case (Cons y ys)
  show ?case
  proof (cases "version y > v")
    case True
    with Cons.prems have "fold_while (purge_body v) ys (item, ds, ntotal) = (item', ds', n')" "sorted_wrt byKeys (item # ys)"
      by (simp_all add: purge_body_skip)
    with Cons.IH Cons.prems(2) show ?thesis by (metis found_in_mono set_subset_Cons insert_mono list.simps(15))
  next
    case False
    define new1 where "new1 = (if kb item = kb y then [item] else [])"
    have one: "found_in (item # y # ys) v new1"
      using Cons.prems(1) False by (auto simp: new1_def found_in_def superseded_def byKeys_iff not_less split: if_splits)
    have body: "purge_body v y (item, ds, ntotal) = (\<not> ntotal + length new1 \<ge> 1000, y, ds @ new1, ntotal + length new1)"
      using False by (simp add: purge_body_take new1_def)
    have count: "ntotal + length new1 = length (ds @ new1)" using Cons.prems(2) by simp
    show ?thesis
    proof (cases "ntotal + length new1 \<ge> 1000")
      case True
      with Cons.prems(3) body count one show ?thesis by auto
    next
      case False
      with Cons.prems(3) body have rest: "fold_while (purge_body v) ys (y, ds @ new1, ntotal + length new1) = (item', ds', n')" by simp
      have "sorted_wrt byKeys (y # ys)" using Cons.prems(1) by simp
      from Cons.IH [OF this count rest] obtain new where "n' = length ds'" "ds' = ds @ new1 @ new" "found_in (y # ys) v new"
        by auto
      with one found_in_mono [of "y # ys" v new "item # y # ys"] show ?thesis
        by (intro conjI exI [of _ "new1 @ new"]) auto
    qed
  qed
qed (simp add: found_in_def)

text \<open>A round that finds nothing leaves no two rows of one key at or below the version.\<close>

definition purged :: "dsItem list \<Rightarrow> u64 \<Rightarrow> bool" where
  "purged xs v \<longleftrightarrow>
     (\<forall>y \<in> set xs. \<forall>z \<in> set xs. kb y = kb z \<and> version y \<le> v \<and> version z \<le> v \<longrightarrow> y = z)"

lemma purge_fold_none:
  assumes "sorted_wrt byKeys (item # ys)" "fold_while (purge_body v) ys (item, [], 0) = (item', ds', 0)"
    and "y \<in> set (item # ys)" "z \<in> set (item # ys)" "kb y = kb z" "version y \<le> v" "version z \<le> v"
  shows "y = z"
  using assms
proof (induction ys arbitrary: item)
  case (Cons a ys)
  show ?case
  proof (cases "version a > v")
    case True
    with Cons.prems have "fold_while (purge_body v) ys (item, [], 0) = (item', ds', 0)"
      by (simp add: purge_body_skip)
    with Cons True show ?thesis by auto
  next
    case False
    have differ: "kb item \<noteq> kb a"
    proof
      assume eq: "kb item = kb a"
      with False Cons.prems(2) have "fold_while (purge_body v) ys (a, [item], 1) = (item', ds', 0)"
        by (simp add: purge_body_take)
      moreover have "sorted_wrt byKeys (a # ys)" using Cons.prems(1) by simp
      ultimately show False using purge_fold [of a ys 1 "[item]" v item' ds' 0] by auto
    qed
    with False Cons.prems(2) have step: "fold_while (purge_body v) ys (a, [], 0) = (item', ds', 0)"
      by (simp add: purge_body_take)
    have "kb item < kb b" if "b \<in> set (a # ys)" for b
      using that Cons.prems(1) differ by (auto simp: byKeys_iff dest!: bspec [where x = b])
    then have item: "kb item \<noteq> kb b" if "b \<in> set (a # ys)" for b
      using that by (metis less_irrefl)
    show ?thesis
      using Cons.IH [OF _ step] Cons.prems item by (metis set_ConsD sorted_wrt.simps(2))
  qed
qed auto

context mem_trees
begin

lemma purge_scan_returns:
  obtains ds where "purge_scan B v tree = Some (ds, length ds)" "found_in (items tree) v ds"
    "ds = [] \<Longrightarrow> purged (items tree) v"
proof (cases "items tree")
  case Nil
  let ?i = "snd (it_next B (bt_iter B tree))"
  have "for_next B (purge_body v) ?i s = Some (snd (it_next B ?i), s)" for s
    using next_empty [of ?i] Nil by (subst for_next.simps) (simp add: case_prod_beta)
  then have "purge_scan B v tree = Some ([], 0)" by (simp add: purge_scan_def Let_def)
  with Nil that [of "[]"] show thesis by (simp add: found_in_def purged_def)
next
  case (Cons x xs)
  let ?i = "snd (it_next B (bt_iter B tree))"
  have i: "pos ?i = At 0" "its ?i = x # xs" "it_item B ?i = x"
    using Cons next_fresh [of "bt_iter B tree"] item_at [of ?i 0] by auto
  obtain item' ds n where f: "fold_while (purge_body v) xs (x, [], 0) = (item', ds, n)"
    by (cases "fold_while (purge_body v) xs (x, [], 0)") auto
  have sorted: "sorted_wrt byKeys (x # xs)" using sorted_items [of tree] Cons by simp
  have found: "n = length ds" "found_in (items tree) v ds" using purge_fold [OF sorted _ f] Cons by auto
  moreover have "purge_scan B v tree = Some (ds, n)"
    using for_next_At [of ?i 0 "purge_body v" "(x, [], 0)"] i f by (auto simp: purge_scan_def Let_def)
  moreover have "purged (items tree) v" if "ds = []"
    using purge_fold_none [OF sorted] f that found(1) Cons unfolding purged_def by (metis list.size(3))
  ultimately show thesis using that by blast
qed

lemma found_deleted:
  assumes "found_in (items tree) v ds"
  shows "items (fold (\<lambda>x t. bt_delete B t x) ds tree) = filter (\<lambda>y. y \<notin> set ds) (items tree)"
  using assms unfolding found_in_def by (intro items_fold_delete [OF byKeys.weak_order_axioms]) auto

lemma purge_loop_returns:
  "\<exists>tree'. purge_loop B v tree = Some tree' \<and> set (items tree') \<subseteq> set (items tree) \<and>
     (\<forall>k w. v \<le> w \<longrightarrow> latest (items tree') k w = latest (items tree) k w) \<and> purged (items tree') v"
proof (induction "length (items tree)" arbitrary: tree rule: less_induct)
  case less
  obtain ds where r: "purge_scan B v tree = Some (ds, length ds)" "found_in (items tree) v ds"
    "ds = [] \<Longrightarrow> purged (items tree) v" using purge_scan_returns [of v tree] by metis
  show ?case
  proof (cases ds)
    case Nil
    with r show ?thesis by (subst purge_loop.simps) simp
  next
    case (Cons x xs)
    let ?tree = "fold (\<lambda>x t. bt_delete B t x) ds tree"
    note rest = found_deleted [OF r(2)]
    have "x \<in> set (items tree)" using r(2) Cons by (simp add: found_in_def)
    then have "length (items ?tree) < length (items tree)"
      unfolding rest using Cons by (intro length_filter_less [of x]) auto
    from less [OF this] obtain tree' where t: "purge_loop B v ?tree = Some tree'"
      "set (items tree') \<subseteq> set (items ?tree)"
      "\<forall>k w. v \<le> w \<longrightarrow> latest (items tree') k w = latest (items ?tree) k w" "purged (items tree') v" by blast
    have "latest (items ?tree) k w = latest (items tree) k w" if "v \<le> w" for k w
      by (rule latest_superseded [OF sorted_items sorted_items _ that])
        (use rest r(2) in \<open>auto simp: found_in_def\<close>)
    moreover have "purge_loop B v tree = purge_loop B v ?tree" using r(1) Cons by (subst purge_loop.simps) simp
    ultimately show ?thesis using t rest by auto
  qed
qed

end

subsection \<open>Properties\<close>

text \<open>
  Purging returns and is invisible: the purge version is the oldest version a running
  transaction started from, or the current version when none is running; at every version
  from there on the store reads as before, so the store and every transaction that started
  at or after the purge version see no change, and of the rows at or below the purge
  version one per key is left.
\<close>

lemma purge_invisible:
  assumes "mem_trees B T items its pos fitems fits fpos" and "store_inv items d"
    and "purge_version T d \<le> ds_version d"
  shows "\<exists>d'. executePurge B T d = Some d' \<and> store_inv items d' \<and> ds_version d' = ds_version d \<and>
    store_view items d' = store_view items d \<and>
    (\<forall>t. purge_version T d \<le> dsVersion t \<longrightarrow> txn_view items t d' = txn_view items t d) \<and>
    (\<forall>y \<in> set (items (ds_values d')). \<forall>z \<in> set (items (ds_values d')).
       kb y = kb z \<and> version y \<le> purge_version T d \<and> version z \<le> purge_version T d \<longrightarrow> y = z)"
proof -
  let ?v = "purge_version T d"
  obtain tree where t: "purge_loop B ?v (ds_values d) = Some tree"
    "set (items tree) \<subseteq> set (items (ds_values d))"
    "\<forall>k w. ?v \<le> w \<longrightarrow> latest (items tree) k w = latest (items (ds_values d)) k w"
    "purged (items tree) ?v"
    using mem_trees.purge_loop_returns [OF assms(1)] by blast
  let ?d = "d\<lparr>ds_values := tree\<rparr>"
  have "executePurge B T d = Some ?d" using t(1) by (simp add: executePurge_def)
  moreover have "store_inv items ?d" using t(2) assms(2) by (auto simp: store_inv_def)
  moreover have "store_view items ?d = store_view items d"
    using t(3) assms(3) by (simp add: store_view_def view_def fun_eq_iff)
  moreover have "txn_view items t' ?d = txn_view items t' d" if "?v \<le> dsVersion t'" for t'
    using t(3) that by (simp add: txn_view_def view_def fun_eq_iff Let_def)
  ultimately show ?thesis using t(4) [unfolded purged_def] by auto
qed

definition purge_sample :: "(dsItem list, dsTxn list) Datastore" where
  "purge_sample = \<lparr>ds_version = 3, ds_values = [row [1] 1 [7], row [1] 2 [8], row [1] 3 [9]],
     inFlightTxn = [], closed = False, closing = False\<rparr>"

text \<open>
  Two transactions that start at the same version share one entry in the table of
  running transactions, because its key is the pair of versions.  Discarding one of them
  removes the entry for both, so a later purge can drop rows the other still reads: here
  the second transaction finds the key before the purge and no longer finds it afterwards.
\<close>

lemma purge_can_break_running_snapshot:
  "let (s, d1) = newTransaction lB lT 0 False sample_store;
       (t, d2) = newTransaction lB lT 0 False d1
   in Option.bind (txn_Discard lB lT 1 s d2) (\<lambda>(s', d3).
      Option.bind (Datastore_Set lB lT 1 1 None d3 (Some [1]) (Some [8])) (\<lambda>(e, _, d4).
      Option.bind (executePurge lB lT d4) (\<lambda>d5.
        Some (e, fst (txn_Get lB t d4 (Some [1])), fst (txn_Get lB t d5 (Some [1])))))) =
   Some (None, Inr (Some [7]), Inl ErrNotFound)"
proof -
  let ?t = "\<lparr>ops = [], dsVersion = 1, readOnly = False, discarded = False\<rparr> :: dsItem list basicTxn"
  let ?d4 = "sample_store\<lparr>ds_version := 2, ds_values := [row [1] 1 [7], row [1] 2 [8]]\<rparr>"
  let ?d5 = "?d4\<lparr>ds_values := [row [1] 2 [8]]\<rparr>"
  obtain e where new: "newTransaction lB lT 0 False sample_store = (?t, sample_store\<lparr>inFlightTxn := [e]\<rparr>)"
    "newTransaction lB lT 0 False (sample_store\<lparr>inFlightTxn := [e]\<rparr>) = (?t, sample_store\<lparr>inFlightTxn := [e]\<rparr>)"
    "txn_Discard lB lT 1 ?t (sample_store\<lparr>inFlightTxn := [e]\<rparr>) = Some (?t\<lparr>discarded := True\<rparr>, sample_store)"
    by (rule that [of "\<lparr>ft_dsVersion = 1, ft_txnVersion = 2, ft_expiresAt = hour\<rparr>"])
      (simp_all add: sample_defs run_defs)
  have set: "Datastore_Set lB lT 1 1 None sample_store (Some [1]) (Some [8]) = Some (None, None, ?d4)"
    by (simp add: sample_defs run_defs for_next.simps clearOld_loop.simps)
  have "purge_loop lB 2 [row [1] 2 [8]] = Some [row [1] 2 [8]]"
    "purge_loop lB 2 [row [1] 1 [7], row [1] 2 [8]] = purge_loop lB 2 [row [1] 2 [8]]"
    by (subst purge_loop.simps, simp add: row_def run_defs for_next.simps)+
  then have purge: "executePurge lB lT ?d4 = Some ?d5"
    by (simp add: executePurge_def purge_version_def getVersion_def sample_store_def list_btree_def list_items_def)
  have "fst (txn_Get lB ?t ?d4 (Some [1])) = Inr (Some [7])" "fst (txn_Get lB ?t ?d5 (Some [1])) = Inl ErrNotFound"
    by (simp_all add: sample_defs run_defs)
  then show ?thesis by (simp add: new set purge)
qed

end
