(* ===== verification/Mem_IterProps.thy ===== *)
theory Mem_IterProps
  imports Mem_TxnIter Mem_Purge
begin

text \<open>The properties of iterating over the in-memory store.\<close>

context item_tree
begin

lemma selected_view:
  assumes "bounded_prefix opts"
  shows "map_of (map (apfst contents) (map entry_of (selected items (options_iter B tree opts v)))) k =
    (if k \<noteq> [] \<and> wanted opts k then view (items tree) v k else None)"
proof -
  let ?S = "selected items (options_iter B tree opts v)"
  have sel: "x \<in> set ?S \<longleftrightarrow> x \<in> set (items tree) \<and> newest (items tree) v x \<and> kb x \<noteq> [] \<and> wanted opts (kb x)" for x
    by (auto simp: selected_entry options_iter_range [OF assms(1)])
  have mem: "(k, y) \<in> set (map (apfst contents) (map entry_of ?S)) \<longleftrightarrow>
      k \<noteq> [] \<and> wanted opts k \<and> view (items tree) v k = Some y" for y
  proof -
    have "(k, y) \<in> set (map (apfst contents) (map entry_of ?S)) \<longleftrightarrow>
        (\<exists>x. x \<in> set ?S \<and> kb x = k \<and> val x = y)"
      by (auto simp: entry_of_def image_iff)
    also have "\<dots> \<longleftrightarrow> k \<noteq> [] \<and> wanted opts k \<and> view (items tree) v k = Some y"
      using sorted_items [of tree]
    proof (cases rule: latest_cases [where k = k and v = v])
      case none
      then show ?thesis by (auto simp: sel newest_def view_def)
    next
      case some
      with kb_nonempty_key [of "latest (items tree) k v"] show ?thesis
        by (auto simp: sel newest_def view_def item_value_def)
    qed
    finally show ?thesis .
  qed
  show ?thesis
  proof (cases "map_of (map (apfst contents) (map entry_of ?S)) k")
    case None
    then have "\<not> (k \<noteq> [] \<and> wanted opts k \<and> view (items tree) v k = Some y)" for y
      using mem [of y] map_of_eq_None_iff by (metis fst_conv image_eqI)
    with None show ?thesis by (cases "view (items tree) v k") auto
  next
    case (Some y)
    with mem [of y] map_of_SomeD show ?thesis by fastforce
  qed
qed

lemma store_view_nil: "store_inv items d \<Longrightarrow> view (items (ds_values d)) v [] = None"
  using latest_none [of "items (ds_values d)" "[]" v] by (auto simp: view_def store_inv_def)

lemma entries_sorted:
  "sorted_wrt (\<lambda>a b. dless (iter_reverse iter) (contents (fst a)) (contents (fst b))) (map entry_of (selected items iter))"
  using selected_sorted [of iter] by (simp add: sorted_wrt_map entry_of_def)

end

subsection \<open>Complete iteration\<close>

text \<open>A prefix of \<^verbatim>\<open>0xff\<close> bytes is its own end, so that nothing is in range.\<close>

lemma unbounded_selected:
  assumes "\<not> bounded_prefix opts"
  shows "selected items (options_iter B tree opts v) = []"
proof -
  let ?iter = "options_iter B tree opts v"
  obtain p where p: "Prefix opts = Some p" "p \<noteq> []" "all_ff p" using assms by (cases "Prefix opts") (auto simp: bounded_prefix_def)
  then have "iter_start ?iter = Some p" "iter_end ?iter = Some p"
    using bytesPrefixEnd_all_ff [of "Some p"] by (simp_all add: options_iter_def newPrefixIter_def Let_def case_prod_beta)
  then have "\<not> in_range ?iter x" for x using p(2) by (auto simp: in_range_def)
  then show ?thesis by (simp add: selected_def)
qed

lemma selected_view_all:
  assumes "item_tree B items its pos"
  shows "map_of (map (apfst contents) (map entry_of (selected items (options_iter B tree opts v)))) k =
    (if k \<noteq> [] \<and> bounded_prefix opts \<and> wanted opts k then view (items tree) v k else None)"
  using item_tree.selected_view [OF assms, of opts] by (cases "bounded_prefix opts") (auto simp: unbounded_selected)

text \<open>
  C10.  Iterating lists the store.  On an open store, for every set of options, the iterator
  yields entries in strictly ascending order of keys (descending with \<^verbatim>\<open>Reverse\<close>) and ends;
  the entries are exactly the keys the options ask for that the store has at its current
  version, each with its value: rows of older versions, deleted keys and keys out of range
  never appear and none is left out.  The one exception is a prefix made of \<^verbatim>\<open>0xff\<close> bytes,
  with which nothing is yielded.  A key equal to \<^verbatim>\<open>Prefix\<close> is among the keys asked for, and
  \<^verbatim>\<open>KeysOnly\<close> does not keep the value back, both against the comments in \<^verbatim>\<open>kv.go\<close>.
\<close>

theorem iteration_lists_the_store:
  assumes "mem_trees B T items its pos fitems fits fpos" and "store_inv items d" "\<not> closed d"
  shows "\<exists>iter L iter'. Datastore_Iterator B None d opts = Inr (Inr iter) \<and>
    collect (mem_Iterator B) d iter = Some (Inr L, iter') \<and>
    sorted_wrt (\<lambda>a b. dless (Reverse opts) (contents (fst a)) (contents (fst b))) L \<and>
    (\<forall>k. map_of (map (apfst contents) L) k = (if bounded_prefix opts \<and> wanted opts k then store_view items d k else None))"
proof -
  have tree: "item_tree B items its pos" using assms(1) by (simp add: mem_trees_def)
  let ?iter = "options_iter B (ds_values d) opts (ds_version d)"
  let ?L = "map entry_of (selected items ?iter)"
  have "mem_iterates items its pos d ?iter ?L ?L"
    using item_tree.options_iterates [OF tree assms(3)] store_invD(3) [OF assms(2)] by blast
  then obtain iter' where "collect (mem_Iterator B) d ?iter = Some (Inr ?L, iter')"
    using kv_iterator.collect_iterates [OF item_tree.mem_kv_iterator [OF tree]] by blast
  moreover have "Datastore_Iterator B None d opts = Inr (Inr ?iter)"
    using assms(3) by (simp add: Datastore_Iterator_def store_Iterator_eq)
  moreover have "map_of (map (apfst contents) ?L) k = (if bounded_prefix opts \<and> wanted opts k then store_view items d k else None)" for k
    using selected_view_all [OF tree] item_tree.store_view_nil [OF tree assms(2)] by (auto simp: store_view_def)
  ultimately show ?thesis
    using item_tree.entries_sorted [OF tree, of ?iter] by auto
qed

lemmas iter_loops = collect.simps iter_next.simps scan_loop.simps loadLatest_loop.simps

text \<open>A store with three keys, one of them deleted and one with two versions.\<close>

definition iter_store :: "(dsItem list, dsTxn list) Datastore" where
  "iter_store = \<lparr>ds_version = 4,
     ds_values = [row [1] 1 [7], row [1] 3 [8], (row [2] 2 [9])\<lparr>isDeleted := True\<rparr>, row [3] 4 [5]],
     inFlightTxn = [], closed = False, closing = False\<rparr>"

lemma iter_store_inv: "store_inv lI iter_store" "\<not> closed iter_store"
  by (simp_all add: iter_store_def row_def run_defs)

theorem iteration_lists_the_store_witness:
  "\<exists>iter L iter'. Datastore_Iterator lB None iter_store (DefaultIterOptions\<lparr>Reverse := True\<rparr>) = Inr (Inr iter) \<and>
    collect (mem_Iterator lB) iter_store iter = Some (Inr L, iter') \<and>
    map_of (map (apfst contents) L) [1] = Some (Some [8]) \<and> map_of (map (apfst contents) L) [2] = None"
proof -
  have "bounded_prefix (DefaultIterOptions\<lparr>Reverse := True\<rparr>)"
    "wanted (DefaultIterOptions\<lparr>Reverse := True\<rparr>) [1]" "wanted (DefaultIterOptions\<lparr>Reverse := True\<rparr>) [2]"
    by (simp_all add: bounded_prefix_def wanted_def DefaultIterOptions_def)
  moreover have "store_view lI iter_store [1] = Some (Some [8])" "store_view lI iter_store [2] = None"
    by (simp_all add: iter_store_def row_def run_defs)
  ultimately show ?thesis
    using iteration_lists_the_store [OF mem_list.mem_trees_axioms iter_store_inv, of "DefaultIterOptions\<lparr>Reverse := True\<rparr>"]
    by force
qed

text \<open>
  \<^verbatim>\<open>Reset\<close> allows re-iteration: after any number of \<^verbatim>\<open>Next\<close> calls have run to the end, a
  reset iterator yields the same entries again, forward and in reverse.
\<close>

lemma reset_iterates_again:
  assumes "mem_trees B T items its pos fitems fits fpos" and "store_inv items d" "\<not> closed d"
    and "Datastore_Iterator B None d opts = Inr (Inr iter)"
  shows "\<exists>L iter' iter''. collect (mem_Iterator B) d iter = Some (Inr L, iter') \<and>
    collect (mem_Iterator B) d (iter_Reset iter') = Some (Inr L, iter'')"
proof -
  have tree: "item_tree B items its pos" using assms(1) by (simp add: mem_trees_def)
  have iter: "iter = options_iter B (ds_values d) opts (ds_version d)"
    using assms(3,4) by (simp add: Datastore_Iterator_def store_Iterator_eq)
  let ?L = "map entry_of (selected items iter)"
  have "mem_iterates items its pos d iter ?L ?L"
    unfolding iter using item_tree.options_iterates [OF tree assms(3)] store_invD(3) [OF assms(2)] by blast
  from kv_iterator.collect_again [OF item_tree.mem_kv_iterator [OF tree] this] show ?thesis
    by (auto simp: mem_Iterator_def)
qed

text \<open>
  C24.  \<^verbatim>\<open>Seek\<close> on a fresh iterator goes to the key or to the next one in its direction: it
  reports whether the iteration has an entry at or above the key (at or below it, in
  reverse); if so it rests on the first of them, and \<^verbatim>\<open>Next\<close> yields the ones after it.  For a
  forward iterator the key is not empty and not below its start.  For a reverse one the end
  is not an empty slice other than nil, and the store has a row, of whatever version and
  deleted or not, at or below the key: otherwise \<^verbatim>\<open>Seek\<close> wraps around.
\<close>

theorem seek_finds_next_key:
  assumes "mem_trees B T items its pos fitems fits fpos" and "store_inv items d" "\<not> closed d"
    and "Datastore_Iterator B None d opts = Inr (Inr iter)"
    and "if Reverse opts then iter_end iter \<noteq> Some [] \<and> (\<exists>x \<in> set (items (ds_values d)). kb x \<le> contents k)
         else contents (iter_start iter) \<le> contents k \<and> contents k \<noteq> []"
  shows "\<exists>L i1 i2 iter'. collect (mem_Iterator B) d iter = Some (Inr L, i1) \<and>
    (let rest = dropWhile (key_before (\<not> Reverse opts) k) L
     in iter_Seek B d k iter = Some (Inr (rest \<noteq> []), iter') \<and>
        (rest \<noteq> [] \<longrightarrow> (iter_Key B iter', iter_Value B iter') = (fst (hd rest), Inr (snd (hd rest))) \<and>
           collect (mem_Iterator B) d iter' = Some (Inr (tl rest), i2)))"
proof -
  have tree: "item_tree B items its pos" using assms(1) by (simp add: mem_trees_def)
  note laws = item_tree.mem_kv_iterator [OF tree]
  have iter: "iter = options_iter B (ds_values d) opts (ds_version d)"
    using assms(3,4) by (simp add: Datastore_Iterator_def store_Iterator_eq)
  let ?L = "map entry_of (selected items iter)"
  have it: "mem_iterates items its pos d iter ?L ?L"
    unfolding iter using item_tree.options_iterates [OF tree assms(3)] store_invD(3) [OF assms(2)] by blast
  have dir: "iter_reverse iter = Reverse opts" "rows_of items iter = items (ds_values d)" by (simp_all add: iter)
  have k: "mem_seekable items iter k" using assms(5) by (simp add: mem_seekable_def dir)
  obtain i1 where i1: "collect (mem_Iterator B) d iter = Some (Inr ?L, i1)"
    using kv_iterator.collect_iterates [OF laws it] by blast
  show ?thesis
  proof (cases "dropWhile (key_before (\<not> Reverse opts) k) ?L")
    case Nil
    with kv_iterator.seek_end [OF laws it k] dir(1) i1 show ?thesis by (auto simp: mem_Iterator_def)
  next
    case (Cons e R)
    obtain k1 v1 where e: "e = (k1, v1)" by (cases e)
    from kv_iterator.seek_entry [OF laws it k, of k1 v1 R] Cons e dir(1)
    obtain iter' where iter': "iter_Seek B d k iter = Some (Inr True, iter')" "iter_Key B iter' = k1"
      "iter_Value B iter' = Inr v1" "mem_iterates items its pos d iter' ?L R" by (auto simp: mem_Iterator_def)
    obtain i2 where "collect (mem_Iterator B) d iter' = Some (Inr R, i2)"
      using kv_iterator.collect_iterates [OF laws iter'(4)] by blast
    with iter' i1 Cons e show ?thesis by (intro exI [of _ ?L] exI [of _ i1] exI [of _ i2] exI [of _ iter']) simp
  qed
qed

theorem seek_finds_next_key_witness:
  "\<exists>iter'. iter_Seek lB iter_store (Some [2]) (options_iter lB (ds_values iter_store) (DefaultIterOptions\<lparr>Reverse := True\<rparr>) 4) =
    Some (Inr True, iter') \<and> iter_Key lB iter' = Some [1]"
proof -
  let ?opts = "DefaultIterOptions\<lparr>Reverse := True\<rparr>"
  let ?iter = "options_iter lB (ds_values iter_store) ?opts 4"
  have "Datastore_Iterator lB None iter_store ?opts = Inr (Inr ?iter)"
    by (simp add: Datastore_Iterator_def store_Iterator_eq iter_store_def)
  moreover have "iter_end ?iter \<noteq> Some []" by (simp add: DefaultIterOptions_def options_iter_def newRangeIter_def)
  moreover have "\<exists>x \<in> set (lI (ds_values iter_store)). kb x \<le> contents (Some [2])" by (simp add: iter_store_def row_def run_defs)
  ultimately have seek: "\<exists>L i1 i2 iter'. collect (mem_Iterator lB) iter_store ?iter = Some (Inr L, i1) \<and>
    (let rest = dropWhile (key_before False (Some [2])) L
     in iter_Seek lB iter_store (Some [2]) ?iter = Some (Inr (rest \<noteq> []), iter') \<and>
        (rest \<noteq> [] \<longrightarrow> (iter_Key lB iter', iter_Value lB iter') = (fst (hd rest), Inr (snd (hd rest))) \<and>
           collect (mem_Iterator lB) iter_store iter' = Some (Inr (tl rest), i2)))"
    using seek_finds_next_key [OF mem_list.mem_trees_axioms iter_store_inv, of ?opts ?iter "Some [2]"] by simp
  have "map_option fst (collect (mem_Iterator lB) iter_store ?iter) = Some (Inr [(Some [3], Some [5]), (Some [1], Some [8])])"
    by (simp add: iter_store_def options_iter_def row_def run_defs iter_loops cong: bind_weak_cong map_option_weak_cong)
  with seek show ?thesis by (auto simp: key_before_def)
qed

subsection \<open>Where iteration departs from its documentation\<close>

text \<open>
  A prefix made of \<^verbatim>\<open>0xff\<close> bytes only has no end, \<^verbatim>\<open>bytesPrefixEnd\<close> gives the prefix
  back, and the half-open range from the prefix to itself is empty: iterating with such a
  prefix yields nothing, whatever keys the store has.
\<close>

lemma ff_prefix_yields_nothing:
  assumes "mem_trees B T items its pos fitems fits fpos" and "store_inv items d" "\<not> closed d" "\<not> bounded_prefix opts"
  shows "\<exists>iter iter'. Datastore_Iterator B None d opts = Inr (Inr iter) \<and>
    collect (mem_Iterator B) d iter = Some (Inr [], iter')"
proof -
  have tree: "item_tree B items its pos" using assms(1) by (simp add: mem_trees_def)
  let ?iter = "options_iter B (ds_values d) opts (ds_version d)"
  have "mem_iterates items its pos d ?iter [] []"
    using item_tree.options_iterates [OF tree assms(3), of opts "ds_values d" "ds_version d"] store_invD(3) [OF assms(2)]
    by (simp add: unbounded_selected [OF assms(4)])
  then obtain iter' where "collect (mem_Iterator B) d ?iter = Some (Inr [], iter')"
    using kv_iterator.collect_iterates [OF item_tree.mem_kv_iterator [OF tree]] by blast
  with assms(3) show ?thesis by (auto simp: Datastore_Iterator_def store_Iterator_eq)
qed

text \<open>
  \<^verbatim>\<open>Seek\<close> to a key below the start of a forward iterator may pass over the start key
  itself: the version to look for is taken from the key asked for, not from the start it is
  replaced by.  Here the first key of the range is 2, its row has version 1, the store is
  at version 2, and seeking to 1 ends on key 3.
\<close>

lemma seek_below_start_skips_start:
  "let tree = [row [2] 1 [7], row [3] 2 [8]];
       d = sample_store\<lparr>ds_version := 2, ds_values := tree\<rparr>;
       iter = newRangeIter lB tree (Some [2]) None False 2
   in map_option (\<lambda>(r, i). (r, iter_Key lB i)) (iter_Seek lB d (Some [1]) iter) = Some (Inr True, Some [3]) \<and>
      map_option fst (collect (mem_Iterator lB) d iter) =
        Some (Inr [(Some [2], Some [7]), (Some [3], Some [8])])"
  by (simp add: sample_defs run_defs iter_loops cong: bind_weak_cong map_option_weak_cong)

text \<open>
  \<^verbatim>\<open>Seek\<close> of a reverse iterator to a key below all keys should find nothing; it wraps
  around to the last key instead.
\<close>

lemma reverse_seek_below_all_wraps:
  "let tree = [row [2] 1 [7], row [3] 2 [8]];
       d = sample_store\<lparr>ds_version := 2, ds_values := tree\<rparr>
   in map_option (\<lambda>(r, i). (r, iter_Key lB i)) (iter_Seek lB d (Some [1]) (newRangeIter lB tree None None True 2)) =
      Some (Inr True, Some [3])"
  by (simp add: sample_defs run_defs iter_loops cong: bind_weak_cong map_option_weak_cong)

text \<open>
  A reverse iterator that reads at an older version skips the last key when that key
  has a newer row: the transaction started at version 1 reads key 1, and does not meet it
  when it iterates in reverse, though it does when it iterates forward.
\<close>

lemma reverse_skips_older_row:
  "let d = sample_store\<lparr>ds_version := 2, ds_values := [row [1] 1 [7], row [1] 2 [8]]\<rparr>;
       t = \<lparr>ops = [], dsVersion = 1, readOnly = True, discarded = False\<rparr>;
       entries = (\<lambda>opts. case txn_Iterator lB t d opts of
         Inl e \<Rightarrow> Some (Inl e) | Inr iter \<Rightarrow> map_option fst (collect (mem_txnIterator lB) d iter))
   in fst (txn_Get lB t d (Some [1])) = Inr (Some [7]) \<and>
      entries DefaultIterOptions = Some (Inr [(Some [1], Some [7])]) \<and>
      entries (DefaultIterOptions\<lparr>Reverse := True\<rparr>) = Some (Inr [])"
  by (simp add: sample_defs run_defs iter_loops cong: bind_weak_cong map_option_weak_cong)

end
