(* ===== verification/Mem_Merge.thy ===== *)
theory Mem_Merge
  imports Mem_IterProps
begin

text \<open>
  What the iterator of a transaction yields: the merge of the operations of the transaction
  and of the store at its snapshot, store first on equal keys, nothing left out.
\<close>

fun merge_entries :: "entry list \<Rightarrow> entry list \<Rightarrow> entry list" where
  "merge_entries [] C = C"
| "merge_entries A [] = A"
| "merge_entries (a # A) (c # C) =
     (if lt (fst a) (fst c) then a # merge_entries A (c # C) else c # merge_entries (a # A) C)"

lemma merge_Nil_right [simp]: "merge_entries A [] = A"
  by (cases A) auto

lemma set_merge: "set (merge_entries A C) = set A \<union> set C"
  by (induction A C rule: merge_entries.induct) auto

lemma length_merge: "length (merge_entries A C) = length A + length C"
  by (induction A C rule: merge_entries.induct) auto

text \<open>One of the two iterators: on an entry not yet yielded, or between entries.\<close>

definition side ::
  "('t \<Rightarrow> dsItem list) \<Rightarrow> ('i \<Rightarrow> dsItem list) \<Rightarrow> ('i \<Rightarrow> cursor) \<Rightarrow> ('t, dsItem, 'i) btree_ops \<Rightarrow>
   ('t, 'u) Datastore \<Rightarrow> ('t, 'i) iterator \<Rightarrow> slice \<Rightarrow> entry list \<Rightarrow> bool" where
  "side items its pos B d iter pending A \<longleftrightarrow>
     \<not> iter_reverse iter \<and>
     (\<exists>L. if len pending \<noteq> 0
      then \<exists>v A'. A = (pending, v) # A' \<and> iter_Key B iter = pending \<and> iter_Value B iter = Inr v \<and>
             mem_iterates items its pos d iter L A'
      else mem_iterates items its pos d iter L A) \<and>
     (\<forall>e \<in> set A. len (fst e) \<noteq> 0)"

context item_tree
begin

lemma side_advance:
  assumes "side items its pos B d iter pending A"
  shows "\<exists>iter'. (if len pending \<noteq> 0 then Some (Inr True, iter) else iter_Next B d iter) = Some (Inr (A \<noteq> []), iter') \<and>
    side items its pos B d iter' (case A of [] \<Rightarrow> None | (k, v) # _ \<Rightarrow> k) A \<and>
    (\<forall>k v A'. A = (k, v) # A' \<longrightarrow> iter_Key B iter' = k \<and> iter_Value B iter' = Inr v \<and> side items its pos B d iter' None A')"
proof (cases "len pending \<noteq> 0")
  case True
  with assms show ?thesis by (auto simp: side_def)
next
  case False
  with assms obtain L where it: "mem_iterates items its pos d iter L A" and fwd: "\<not> iter_reverse iter"
    and ne: "\<forall>e \<in> set A. len (fst e) \<noteq> 0" by (auto simp: side_def)
  show ?thesis
  proof (cases A)
    case Nil
    with kv_iterator.next_end [OF mem_kv_iterator, of d iter L] it fwd False show ?thesis
      by (auto simp: mem_Iterator_def side_def)
  next
    case (Cons e A')
    obtain k v where e: "e = (k, v)" by (cases e)
    from kv_iterator.next_entry [OF mem_kv_iterator, of d iter L k v A'] it Cons e
    obtain iter' where "iter_Next B d iter = Some (Inr True, iter')" "(\<not> iter_reverse iter') = (\<not> iter_reverse iter)"
      "iter_Key B iter' = k" "iter_Value B iter' = Inr v" "mem_iterates items its pos d iter' L A'"
      by (auto simp: mem_Iterator_def)
    with False Cons e ne fwd show ?thesis by (auto simp: side_def)
  qed
qed

end

lemma side_no_pending: "len p = 0 \<Longrightarrow> side items its pos B d iter p A = side items its pos B d iter None A"
  by (simp add: side_def)

lemma side_Nil: "side items its pos B d iter p [] \<Longrightarrow> len p = 0"
  by (auto simp: side_def split: if_splits)

definition merges ::
  "('t \<Rightarrow> dsItem list) \<Rightarrow> ('i \<Rightarrow> dsItem list) \<Rightarrow> ('i \<Rightarrow> cursor) \<Rightarrow> ('t, dsItem, 'i) btree_ops \<Rightarrow>
   ('t, 'u) Datastore \<Rightarrow> ('t, 'i) txnIterator \<Rightarrow> entry list \<Rightarrow> entry list \<Rightarrow> bool" where
  "merges items its pos B d iter A C \<longleftrightarrow>
     \<not> Reverse (ti_opts iter) \<and> side items its pos B d (txnIter iter) (pendingTxnKey iter) A \<and>
     side items its pos B d (storeIter iter) (pendingStoreKey iter) C"

context item_tree
begin

lemma ti_Next_select:
  assumes "merges items its pos B d iter A C"
  obtains ti si where
    "ti_Next B d iter = Some (let (ok, iter) = selectIterator B (A \<noteq> []) (C \<noteq> []) (iter\<lparr>txnIter := ti, storeIter := si\<rparr>) in (Inr ok, iter))"
    "side items its pos B d ti (case A of [] \<Rightarrow> None | (k, v) # _ \<Rightarrow> k) A"
    "\<And>k v A'. A = (k, v) # A' \<Longrightarrow> iter_Key B ti = k \<and> iter_Value B ti = Inr v \<and> side items its pos B d ti None A'"
    "side items its pos B d si (case C of [] \<Rightarrow> None | (k, v) # _ \<Rightarrow> k) C"
    "\<And>k v C'. C = (k, v) # C' \<Longrightarrow> iter_Key B si = k \<and> iter_Value B si = Inr v \<and> side items its pos B d si None C'"
proof -
  from assms have sides: "side items its pos B d (txnIter iter) (pendingTxnKey iter) A"
    "side items its pos B d (storeIter iter) (pendingStoreKey iter) C" by (auto simp: merges_def)
  from side_advance [OF sides(1)] obtain ti where ti:
    "(if len (pendingTxnKey iter) \<noteq> 0 then Some (Inr True, txnIter iter) else iter_Next B d (txnIter iter)) = Some (Inr (A \<noteq> []), ti)"
    "side items its pos B d ti (case A of [] \<Rightarrow> None | (k, v) # _ \<Rightarrow> k) A"
    "\<forall>k v A'. A = (k, v) # A' \<longrightarrow> iter_Key B ti = k \<and> iter_Value B ti = Inr v \<and> side items its pos B d ti None A'" by blast
  from side_advance [OF sides(2)] obtain si where si:
    "(if len (pendingStoreKey iter) \<noteq> 0 then Some (Inr True, storeIter iter) else iter_Next B d (storeIter iter)) = Some (Inr (C \<noteq> []), si)"
    "side items its pos B d si (case C of [] \<Rightarrow> None | (k, v) # _ \<Rightarrow> k) C"
    "\<forall>k v C'. C = (k, v) # C' \<longrightarrow> iter_Key B si = k \<and> iter_Value B si = Inr v \<and> side items its pos B d si None C'" by blast
  have "ti_Next B d iter = Some (let (ok, iter) = selectIterator B (A \<noteq> []) (C \<noteq> []) (iter\<lparr>txnIter := ti, storeIter := si\<rparr>) in (Inr ok, iter))"
    unfolding ti_Next_def ti(1) using si(1)
    by (cases "len (pendingStoreKey iter) = 0") (auto simp: Let_def)
  with that ti(2,3) si(2,3) show thesis by blast
qed

text \<open>One call of Next: at the end of both sides, of one, and of neither.\<close>

definition yields_merged :: "('t, 'u) Datastore \<Rightarrow> ('t, 'i) txnIterator \<Rightarrow> entry \<Rightarrow> entry list \<Rightarrow> entry list \<Rightarrow> bool" where
  "yields_merged d iter e A C \<longleftrightarrow>
     (\<exists>iter'. ti_Next B d iter = Some (Inr True, iter') \<and> ti_Key B iter' = fst e \<and> ti_Value B iter' = Inr (snd e) \<and>
       merges items its pos B d iter' A C)"

lemma merges_next_end: "merges items its pos B d iter [] [] \<Longrightarrow> \<exists>iter'. ti_Next B d iter = Some (Inr False, iter')"
  by (erule ti_Next_select) (simp add: selectIterator_def)

lemma merges_next_store:
  assumes m: "merges items its pos B d iter [] (c # C)"
  shows "yields_merged d iter c [] C"
proof (rule ti_Next_select [OF m])
  fix ti si
  assume n: "ti_Next B d iter = Some (let (ok, iter) = selectIterator B ([] \<noteq> []) (c # C \<noteq> []) (iter\<lparr>txnIter := ti, storeIter := si\<rparr>) in (Inr ok, iter))"
    "side items its pos B d ti (case [] of [] \<Rightarrow> None | (k, v) # _ \<Rightarrow> k) []"
    "\<And>k v C'. c # C = (k, v) # C' \<Longrightarrow> iter_Key B si = k \<and> iter_Value B si = Inr v \<and> side items its pos B d si None C'"
  obtain k v where c: "c = (k, v)" by (cases c)
  have p: "len (pendingTxnKey iter) = 0" using m side_Nil by (auto simp: merges_def)
  from n(1,2) n(3) [of k v C] m c p show ?thesis
    by (auto simp: yields_merged_def selectIterator_def ti_Key_def ti_Value_def merges_def side_no_pending [OF p])
qed

lemma merges_next_txn:
  assumes m: "merges items its pos B d iter (a # A) []"
  shows "yields_merged d iter a A []"
proof (rule ti_Next_select [OF m])
  fix ti si
  assume n: "ti_Next B d iter = Some (let (ok, iter) = selectIterator B (a # A \<noteq> []) ([] \<noteq> []) (iter\<lparr>txnIter := ti, storeIter := si\<rparr>) in (Inr ok, iter))"
    "\<And>k v A'. a # A = (k, v) # A' \<Longrightarrow> iter_Key B ti = k \<and> iter_Value B ti = Inr v \<and> side items its pos B d ti None A'"
    "side items its pos B d si (case [] of [] \<Rightarrow> None | (k, v) # _ \<Rightarrow> k) []"
  obtain k v where a: "a = (k, v)" by (cases a)
  have p: "len (pendingStoreKey iter) = 0" using m side_Nil by (auto simp: merges_def)
  from n(1,3) n(2) [of k v A] m a p show ?thesis
    by (auto simp: yields_merged_def selectIterator_def ti_Key_def ti_Value_def merges_def side_no_pending [OF p])
qed

lemma merges_next_both:
  assumes m: "merges items its pos B d iter (a # A) (c # C)"
  shows "if lt (fst a) (fst c) then yields_merged d iter a A (c # C) else yields_merged d iter c (a # A) C"
proof (rule ti_Next_select [OF m])
  fix ti si
  assume n: "ti_Next B d iter =
      Some (let (ok, iter) = selectIterator B (a # A \<noteq> []) (c # C \<noteq> []) (iter\<lparr>txnIter := ti, storeIter := si\<rparr>) in (Inr ok, iter))"
    "side items its pos B d ti (case a # A of [] \<Rightarrow> None | (k, v) # _ \<Rightarrow> k) (a # A)"
    "\<And>k v A'. a # A = (k, v) # A' \<Longrightarrow> iter_Key B ti = k \<and> iter_Value B ti = Inr v \<and> side items its pos B d ti None A'"
    "side items its pos B d si (case c # C of [] \<Rightarrow> None | (k, v) # _ \<Rightarrow> k) (c # C)"
    "\<And>k v C'. c # C = (k, v) # C' \<Longrightarrow> iter_Key B si = k \<and> iter_Value B si = Inr v \<and> side items its pos B d si None C'"
  obtain k v k' v' where e: "a = (k, v)" "c = (k', v')" by (cases a; cases c)
  from n(1,2,4) n(3) [of k v A] n(5) [of k' v' C] m e show ?thesis
    by (auto simp: yields_merged_def selectIterator_def ti_Key_def ti_Value_def merges_def Let_def)
qed

lemma merges_next:
  assumes m: "merges items its pos B d iter A C"
  shows "case merge_entries A C of
      [] \<Rightarrow> \<exists>iter'. ti_Next B d iter = Some (Inr False, iter')
    | e # M \<Rightarrow> \<exists>A' C'. yields_merged d iter e A' C' \<and> M = merge_entries A' C'"
proof (cases A)
  case A: Nil
  show ?thesis
  proof (cases C)
    case Nil
    with m A merges_next_end show ?thesis by simp
  next
    case (Cons c C')
    with m A merges_next_store [of d iter c C'] show ?thesis by (auto intro: exI [of _ "[]"])
  qed
next
  case A: (Cons a A')
  show ?thesis
  proof (cases C)
    case Nil
    with m A merges_next_txn [of d iter a A'] show ?thesis by (auto intro!: exI [where x = A'] exI [where x = "[]" and P = "\<lambda>C. yields_merged d iter a A' C \<and> A' = merge_entries A' C"])
  next
    case (Cons c C')
    with m A merges_next_both [of d iter a A' c C'] show ?thesis by (auto split: if_splits)
  qed
qed

lemma collect_merges:
  "merges items its pos B d iter A C \<Longrightarrow>
     \<exists>iter'. collect (mem_txnIterator B) d iter = Some (Inr (merge_entries A C), iter')"
proof (induction "merge_entries A C" arbitrary: iter A C)
  case Nil
  from merges_next [OF Nil.prems] Nil.hyps show ?case
    by (subst collect.simps) (auto simp: mem_txnIterator_def)
next
  case (Cons e M)
  from merges_next [OF Cons.prems] Cons.hyps(2) obtain iter' A' C' where
    n: "ti_Next B d iter = Some (Inr True, iter')" "ti_Key B iter' = fst e" "ti_Value B iter' = Inr (snd e)"
      "M = merge_entries A' C'" "merges items its pos B d iter' A' C'"
    by (auto simp: yields_merged_def split: list.splits)
  from Cons.hyps(1) [OF n(4,5)] obtain i2 where "collect (mem_txnIterator B) d iter' = Some (Inr M, i2)"
    using n(4) by auto
  with n Cons.hyps(2) show ?case
    by (subst collect.simps) (auto simp: mem_txnIterator_def Cons.hyps(2) [symmetric])
qed

end

subsection \<open>Merging sorted entries\<close>

lemma merge_ascending:
  "ascending A \<Longrightarrow> ascending C \<Longrightarrow> (\<forall>a \<in> set A. \<forall>c \<in> set C. contents (fst a) \<noteq> contents (fst c)) \<Longrightarrow>
   ascending (merge_entries A C)"
proof (induction A C rule: merge_entries.induct)
  case (3 a A c C)
  show ?case
  proof (cases "contents (fst a) < contents (fst c)")
    case True
    with 3 show ?thesis by (auto simp: lt_iff set_merge intro: less_trans)
  next
    case False
    with 3(5) have "contents (fst c) < contents (fst a)" by auto
    with 3 False show ?thesis by (auto simp: lt_iff set_merge intro: less_trans)
  qed
qed auto

lemma option_overlay:
  assumes "\<And>v. m = Some v \<longleftrightarrow> a = Some v \<or> c = Some v" "\<And>u w. \<not> (a = Some u \<and> c = Some w)"
  shows "m = (case a of Some v \<Rightarrow> Some v | None \<Rightarrow> c)"
proof (cases a)
  case None
  then have "m = Some v \<longleftrightarrow> c = Some v" for v using assms(1) by simp
  then have "m = c" by (rule option_ext)
  with None show ?thesis by simp
next
  case (Some v)
  with assms(1) [of v] show ?thesis by simp
qed

lemma map_of_merge:
  assumes "ascending A" "ascending C" "\<forall>a \<in> set A. \<forall>c \<in> set C. contents (fst a) \<noteq> contents (fst c)"
  shows "map_of (map (apfst contents) (merge_entries A C)) k =
    (case map_of (map (apfst contents) A) k of Some v \<Rightarrow> Some v | None \<Rightarrow> map_of (map (apfst contents) C) k)"
proof -
  note iffs = map_of_ascending [OF merge_ascending [OF assms]] map_of_ascending [OF assms(1)] map_of_ascending [OF assms(2)]
  have *: "map_of (map (apfst contents) (merge_entries A C)) k = Some v \<longleftrightarrow>
      map_of (map (apfst contents) A) k = Some v \<or> map_of (map (apfst contents) C) k = Some v" for v
    unfolding iffs set_merge by blast
  have "\<not> (map_of (map (apfst contents) A) k = Some u \<and> map_of (map (apfst contents) C) k = Some w)" for u w
    using iffs(2) [of k u] iffs(3) [of k w] assms(3) by metis
  with * show ?thesis by (rule option_overlay)
qed

context item_tree
begin

lemma txn_Iterator_merges:
  assumes "\<not> closed d" "\<not> Reverse opts"
  shows "\<exists>iter iter'. txn_Iterator B t d opts = Inr iter \<and>
    collect (mem_txnIterator B) d iter = Some (Inr (merge_entries
      (map entry_of (selected items (options_iter B (ops t) opts (dsVersion t + 1))))
      (map entry_of (selected items (options_iter B (ds_values d) opts (dsVersion t))))), iter')"
proof -
  let ?iter = "\<lparr>ti_opts = opts, txnIter = options_iter B (ops t) opts (dsVersion t + 1),
    storeIter = options_iter B (ds_values d) opts (dsVersion t),
    pendingTxnKey = None, pendingStoreKey = None, activeIter = NoIter\<rparr>"
  have fresh: "side items its pos B d (options_iter B tree opts v) None (map entry_of (selected items (options_iter B tree opts v)))" for tree v
    using options_iterates [OF assms(1), of opts tree v] assms(2)
    by (auto simp: side_def selected_entry in_range_def entry_of_def len_def)
  have "txn_Iterator B t d opts = Inr ?iter"
    using assms(1) by (simp add: txn_Iterator_def options_iter_def getTxnVersion_def getDSVersion_def)
  moreover have "merges items its pos B d ?iter
      (map entry_of (selected items (options_iter B (ops t) opts (dsVersion t + 1))))
      (map entry_of (selected items (options_iter B (ds_values d) opts (dsVersion t))))"
    using fresh assms(2) by (simp add: merges_def)
  ultimately show ?thesis using collect_merges by blast
qed

end

subsection \<open>Properties\<close>

text \<open>
  C25.  A transaction iterates over its own view, forward.  For a transaction none of whose
  operations is on a key that its snapshot of the store has, an iterator without \<^verbatim>\<open>Reverse\<close>
  yields, in strictly ascending order, exactly the keys the options ask for that a read in
  the transaction would find, each with that value: what the transaction added together
  with what the store had when it started.  With a prefix of \<^verbatim>\<open>0xff\<close> bytes it yields nothing.
\<close>

theorem txn_iteration_lists_its_view:
  assumes "mem_trees B T items its pos fitems fits fpos" and "store_inv items d" "\<not> closed d"
    and "\<not> Reverse opts"
    and new: "\<forall>x \<in> set (items (ops t)). view (items (ds_values d)) (dsVersion t) (kb x) = None"
  shows "\<exists>iter L iter'. Datastore_Iterator B (Some t) d opts = Inr (Inl iter) \<and>
    collect (mem_txnIterator B) d iter = Some (Inr L, iter') \<and> ascending L \<and>
    (\<forall>k. k \<noteq> [] \<longrightarrow> map_of (map (apfst contents) L) k = (if bounded_prefix opts \<and> wanted opts k then txn_view items t d k else None))"
proof -
  have tree: "item_tree B items its pos" using assms(1) by (simp add: mem_trees_def)
  let ?A = "map entry_of (selected items (options_iter B (ops t) opts (dsVersion t + 1)))"
  let ?C = "map entry_of (selected items (options_iter B (ds_values d) opts (dsVersion t)))"
  from item_tree.txn_Iterator_merges [OF tree assms(3,4), of t]
  obtain iter iter' where it: "txn_Iterator B t d opts = Inr iter"
    "collect (mem_txnIterator B) d iter = Some (Inr (merge_entries ?A ?C), iter')" by blast
  have asc: "ascending ?A" "ascending ?C"
    using item_tree.entries_sorted [OF tree] assms(4)
    by (metis (no_types, lifting) dless_def options_iter_simps(3) sorted_wrt_mono_rel)+
  note vA = selected_view_all [OF tree, of "ops t" opts "dsVersion t + 1"]
  note vC = selected_view_all [OF tree, of "ds_values d" opts "dsVersion t"]
  have disj: "\<forall>a \<in> set ?A. \<forall>c \<in> set ?C. contents (fst a) \<noteq> contents (fst c)"
  proof (intro ballI notI)
    fix a c assume "a \<in> set ?A" and c: "c \<in> set ?C" and eq: "contents (fst a) = contents (fst c)"
    then obtain x where x: "x \<in> set (items (ops t))" "contents (fst a) = kb x"
      by (auto simp: item_tree.selected_entry [OF tree] entry_of_def)
    from c map_of_ascending [OF asc(2), of "contents (fst c)" "snd c"]
    have "view (items (ds_values d)) (dsVersion t) (contents (fst c)) = Some (snd c)"
      using vC [of "contents (fst c)"] by (auto split: if_splits)
    with new x eq show False by auto
  qed
  have "map_of (map (apfst contents) (merge_entries ?A ?C)) k = (if bounded_prefix opts \<and> wanted opts k then txn_view items t d k else None)"
    if "k \<noteq> []" for k
  proof -
    have own: "key (latest (items (ops t)) k (dsVersion t + 1)) \<noteq> None \<Longrightarrow> view (items (ds_values d)) (dsVersion t) k = None"
      using mem_trees.latest_ops [OF assms(1), of t k "dsVersion t + 1"] new by fastforce
    have none: "key (latest (items (ops t)) k (dsVersion t + 1)) = None \<Longrightarrow> view (items (ops t)) (dsVersion t + 1) k = None"
      by (simp add: view_def item_value_def)
    show ?thesis
      unfolding map_of_merge [OF asc disj] vA vC using that own none
      by (auto simp: txn_view_def Let_def view_def split: option.splits)
  qed
  with it merge_ascending [OF asc disj] show ?thesis
    by (auto simp: Datastore_Iterator_def)
qed

theorem txn_iteration_lists_its_view_witness:
  "\<exists>iter L iter'. Datastore_Iterator lB (Some ((sample_txn [8])\<lparr>ops := [row [2] 2 [9]]\<rparr>)) sample_store DefaultIterOptions = Inr (Inl iter) \<and>
    collect (mem_txnIterator lB) sample_store iter = Some (Inr L, iter') \<and>
    map_of (map (apfst contents) L) [1] = Some (Some [7]) \<and> map_of (map (apfst contents) L) [2] = Some (Some [9])"
proof -
  let ?t = "(sample_txn [8])\<lparr>ops := [row [2] 2 [9]]\<rparr>"
  have "bounded_prefix DefaultIterOptions" "\<not> Reverse DefaultIterOptions"
    "wanted DefaultIterOptions [1]" "wanted DefaultIterOptions [2]"
    by (simp_all add: run_defs)
  moreover have "\<forall>x \<in> set (lI (ops ?t)). view (lI (ds_values sample_store)) (dsVersion ?t) (kb x) = None"
    "txn_view lI ?t sample_store [1] = Some (Some [7])" "txn_view lI ?t sample_store [2] = Some (Some [9])"
    by (simp_all add: sample_defs run_defs)
  ultimately show ?thesis
    using txn_iteration_lists_its_view [OF mem_list.mem_trees_axioms sample_inv(1) sample_inv(4), of DefaultIterOptions ?t]
    by force
qed

text \<open>
  Without that condition a transaction's iteration is not its view.  A key that the
  transaction overwrote is yielded twice, with the store's value first, and a key it
  deleted is still yielded with the store's value, though reads in the transaction give
  the new value and not found.
\<close>

lemma txn_iteration_repeats_and_resurrects:
  "let t = sample_txn [8];
       t' = snd (txn_Delete lB (t\<lparr>ops := []\<rparr>) sample_store (Some [1]));
       entries = (\<lambda>t. case txn_Iterator lB t sample_store DefaultIterOptions of
         Inl e \<Rightarrow> Some (Inl e) | Inr iter \<Rightarrow> map_option fst (collect (mem_txnIterator lB) sample_store iter))
   in fst (txn_Get lB t sample_store (Some [1])) = Inr (Some [8]) \<and>
      entries t = Some (Inr [(Some [1], Some [7]), (Some [1], Some [8])]) \<and>
      fst (txn_Get lB t' sample_store (Some [1])) = Inl ErrNotFound \<and>
      entries t' = Some (Inr [(Some [1], Some [7])])"
  by (simp add: sample_defs run_defs iter_loops cong: bind_weak_cong map_option_weak_cong)

end
