(* ===== verification/Mem_RW.thy ===== *)
theory Mem_RW
  imports Mem_Merge
begin

text \<open>
  The in-memory store behind the interface \<^verbatim>\<open>corekv.ReaderWriter\<close> (with no transaction in the
  context), and the proof that it meets the contract \<open>kv_store\<close>.  The two clock readings a
  write takes are an arbitrary function of the state.
\<close>

definition mem_RW ::
  "('t, dsItem, 'i) btree_ops \<Rightarrow> ('u, dsTxn, 'j) btree_ops \<Rightarrow> (('t, 'u) Datastore \<Rightarrow> time \<times> time) \<Rightarrow>
   (('t, 'u) Datastore, ('t, 'i) iterator) ReaderWriter" where
  "mem_RW B T clock =
     \<lparr>rw_Get = (\<lambda>d k. Some (fst (Datastore_Get B None d k), d)),
      rw_Has = (\<lambda>d k. Some (fst (Datastore_Has B None d k), d)),
      rw_Iterator = (\<lambda>d opts. (store_Iterator B d opts, d)),
      rw_Set = (\<lambda>d k v. map_option (\<lambda>(e, _, d'). (e, d')) (Datastore_Set B T (fst (clock d)) (snd (clock d)) None d k v)),
      rw_Delete = (\<lambda>d k. map_option (\<lambda>(e, _, d'). (e, d')) (Datastore_Delete B T (fst (clock d)) (snd (clock d)) None d k)),
      rw_it = mem_Iterator B\<rparr>"

definition mem_ok :: "('t \<Rightarrow> dsItem list) \<Rightarrow> nat \<Rightarrow> ('t, 'u) Datastore \<Rightarrow> bool" where
  "mem_ok items n d \<longleftrightarrow> store_inv items d \<and> \<not> closed d \<and> unat (ds_version d) + n < 2 ^ 64"

declare mem_RW_def [run_defs] mem_ok_def [run_defs]

lemma version_room:
  assumes "unat (v :: u64) + Suc n < 2 ^ 64"
  shows "v \<noteq> - 1" "unat (v + 1) + n < 2 ^ 64"
proof -
  show v: "v \<noteq> - 1"
  proof
    assume "v = - 1"
    with assms show False by (simp add: unsigned_minus_1_eq_mask mask_eq_exp_minus_1)
  qed
  show "unat (v + 1) + n < 2 ^ 64" using assms unat_plus_1 [OF v] by simp
qed

context mem_trees
begin

lemma options_lists:
  assumes "store_inv items d" "bounded_prefix opts"
  shows "lists (store_view items d) opts (map entry_of (selected items (options_iter B (ds_values d) opts (ds_version d))))"
  using selected_view [OF assms(2), of "ds_values d" "ds_version d"] store_view_nil [OF assms(1)]
    entries_sorted [of "options_iter B (ds_values d) opts (ds_version d)"]
  by (auto simp: lists_def store_view_def)

lemma mem_set_view:
  assumes "mem_ok items (Suc n) d" "contents k \<noteq> []"
  shows "\<exists>d'. rw_Set (mem_RW B T clock) d k v = Some (None, d') \<and> mem_ok items n d' \<and>
    store_view items d' = (store_view items d)(contents k := Some v)"
proof -
  from assms have ok: "store_inv items d" "\<not> closed d" "unat (ds_version d) + Suc n < 2 ^ 64"
    by (auto simp: mem_ok_def)
  note room = version_room [OF ok(3)]
  have k: "len k \<noteq> 0" using assms(2) by (simp add: len_0_iff)
  obtain d' where d': "Datastore_Set B T (fst (clock d)) (snd (clock d)) None d k v = Some (None, None, d')"
    "store_inv items d'" "ds_version d' = ds_version d + 1" "closed d' = closed d"
    "\<forall>k'. k' \<noteq> [] \<longrightarrow> store_view items d' k' = ((store_view items d)(contents k := Some v)) k'"
    using Datastore_Set_eq [OF ok(1) room(1) ok(2) k] by blast
  have "store_view items d' k' = ((store_view items d)(contents k := Some v)) k'" for k'
    using d'(5) store_view_nil [OF ok(1)] store_view_nil [OF d'(2)] assms(2)
    by (cases "k' = []") (auto simp: store_view_def)
  with d' ok(2) room(2) show ?thesis by (auto simp: mem_RW_def mem_ok_def)
qed

lemma mem_delete_view:
  assumes "mem_ok items (Suc n) d" "contents k \<noteq> []"
  shows "\<exists>d'. rw_Delete (mem_RW B T clock) d k = Some (None, d') \<and> mem_ok items n d' \<and>
    store_view items d' = (store_view items d)(contents k := None)"
proof -
  from assms have ok: "store_inv items d" "\<not> closed d" "unat (ds_version d) + Suc n < 2 ^ 64"
    by (auto simp: mem_ok_def)
  note room = version_room [OF ok(3)]
  have k: "len k \<noteq> 0" using assms(2) by (simp add: len_0_iff)
  obtain d' where d': "Datastore_Delete B T (fst (clock d)) (snd (clock d)) None d k = Some (None, None, d')"
    "store_inv items d'" "ds_version d' = ds_version d + 1" "closed d' = closed d"
    "\<forall>k'. k' \<noteq> [] \<longrightarrow> store_view items d' k' = ((store_view items d)(contents k := None)) k'"
    using Datastore_Delete_eq [OF ok(1) room(1) ok(2) k] by blast
  have "store_view items d' k' = ((store_view items d)(contents k := None)) k'" for k'
    using d'(5) store_view_nil [OF ok(1)] store_view_nil [OF d'(2)] assms(2)
    by (cases "k' = []") (auto simp: store_view_def)
  with d' ok(2) room(2) show ?thesis by (auto simp: mem_RW_def mem_ok_def)
qed

lemma mem_kv_map: "kv_map (mem_RW B T clock) (mem_ok items) (store_view items) (\<lambda>_ _. True) (\<lambda>v. v)"
  by (unfold_locales, use mem_set_view mem_delete_view in
      \<open>auto simp: mem_ok_def mem_RW_def Datastore_Get_eq Datastore_Has_eq len_def found_def split: option.splits\<close>)

lemma mem_kv_store:
  "kv_store (mem_RW B T clock) (mem_iterates items its pos) (\<lambda>iter. \<not> iter_reverse iter) (mem_seekable items)
     (mem_ok items) (store_view items)"
proof (intro kv_store.intro kv_store_axioms.intro mem_kv_map)
  show "kv_iterator (rw_it (mem_RW B T clock)) (mem_iterates items its pos) (\<lambda>iter. \<not> iter_reverse iter) (mem_seekable items)"
    using mem_kv_iterator by (simp add: mem_RW_def)
next
  fix n opts and d :: "('t, 'u) Datastore" assume ok: "mem_ok items n d" and opts: "bounded_prefix opts"
  then have "store_inv items d" "\<not> closed d" by (auto simp: mem_ok_def)
  then show "\<exists>i d' L. rw_Iterator (mem_RW B T clock) d opts = (Inr i, d') \<and> mem_ok items n d' \<and>
      store_view items d' = store_view items d \<and> mem_iterates items its pos d' i L L \<and>
      (\<not> iter_reverse i) = (\<not> Reverse opts) \<and> lists (store_view items d) opts L"
    using ok options_lists [OF _ opts, of d] options_iterates [of d opts "ds_values d" "ds_version d"]
      store_invD(3) [of items d]
    by (intro exI [of _ "options_iter B (ds_values d) opts (ds_version d)"] exI [of _ d])
      (auto simp: mem_RW_def store_Iterator_eq)
qed

end

interpretation mem_list_store: kv_store "mem_RW lB lT clock" "mem_iterates lI fst (\<lambda>i. fst (snd i))"
    "\<lambda>iter. \<not> iter_reverse iter" "mem_seekable lI" "mem_ok lI" "store_view lI"
  for clock
  by (rule mem_list.mem_kv_store)

end
