(* ===== verification/Namespace.thy ===== *)
theory Namespace
  imports Iface
begin

text \<open>
  The namespace wrapper (\<^verbatim>\<open>namespace/namespace.go\<close>, \<^verbatim>\<open>namespace/txn.go\<close>): a store seen through
  a key prefix.  It is written against the interface, so every definition takes the methods
  of the wrapped store, and its correctness is proved against the contract \<open>kv_store\<close>: the
  wrapper of a store is again a store, whose map is the part of the inner map below the
  prefix.
\<close>

definition cp :: "slice \<Rightarrow> slice" where
  "cp bz = Some (contents bz)"

definition prefixed :: "slice \<Rightarrow> slice \<Rightarrow> slice" where
  "prefixed prefix k = Some (contents (cp prefix) @ contents k)"

definition ns_Get :: "('s, 'i) ReaderWriter \<Rightarrow> slice \<Rightarrow> 's \<Rightarrow> slice \<Rightarrow> (slice res \<times> 's) option" where
  "ns_Get RW namespace s k =
     (if len k = 0 then Some (Inl ErrEmptyKey, s)
      else let pkey = prefixed namespace k in rw_Get RW s pkey)"

definition ns_Has :: "('s, 'i) ReaderWriter \<Rightarrow> slice \<Rightarrow> 's \<Rightarrow> slice \<Rightarrow> (bool res \<times> 's) option" where
  "ns_Has RW namespace s k =
     (if len k = 0 then Some (Inl ErrEmptyKey, s)
      else let pkey = prefixed namespace k in rw_Has RW s pkey)"

definition ns_Set :: "('s, 'i) ReaderWriter \<Rightarrow> slice \<Rightarrow> 's \<Rightarrow> slice \<Rightarrow> slice \<Rightarrow> (err \<times> 's) option" where
  "ns_Set RW namespace s k v =
     (if len k = 0 then Some (Some ErrEmptyKey, s)
      else let pkey = prefixed namespace k in rw_Set RW s pkey v)"

definition ns_Delete :: "('s, 'i) ReaderWriter \<Rightarrow> slice \<Rightarrow> 's \<Rightarrow> slice \<Rightarrow> (err \<times> 's) option" where
  "ns_Delete RW namespace s k =
     (if len k = 0 then Some (Some ErrEmptyKey, s)
      else let pkey = prefixed namespace k in rw_Delete RW s pkey)"

record 'i namespaceIterator =
  ni_namespace :: slice
  ni_it :: 'i

definition ns_opts :: "slice \<Rightarrow> IterOptions \<Rightarrow> IterOptions" where
  "ns_opts namespace opts =
     (if Prefix opts \<noteq> None then opts\<lparr>Prefix := prefixed namespace (Prefix opts)\<rparr>
      else if Start opts \<noteq> None \<or> End opts \<noteq> None
      then let opts = opts\<lparr>Start := prefixed namespace (Start opts)\<rparr>
           in if End opts \<noteq> None then opts\<lparr>End := prefixed namespace (End opts)\<rparr>
              else opts\<lparr>End := bytesPrefixEnd namespace\<rparr>
      else opts\<lparr>Prefix := prefixed namespace (Prefix opts)\<rparr>)"

definition ns_Iterator ::
  "('s, 'i) ReaderWriter \<Rightarrow> slice \<Rightarrow> 's \<Rightarrow> IterOptions \<Rightarrow> 'i namespaceIterator res \<times> 's" where
  "ns_Iterator RW namespace s opts =
     (case rw_Iterator RW s (ns_opts namespace opts) of
        (Inl e, s') \<Rightarrow> (Inl e, s')
      | (Inr iterator, s') \<Rightarrow> (Inr \<lparr>ni_namespace = namespace, ni_it = iterator\<rparr>, s'))"

text \<open>The slice expression \<^verbatim>\<open>key[n:]\<close> panics when the key is shorter than \<open>n\<close>.\<close>

definition slice_from :: "slice \<Rightarrow> nat \<Rightarrow> slice res" where
  "slice_from k n =
     (if n \<le> len k then Inr (map_option (drop n) k) else Inl (Panic ''slice bounds out of range''))"

definition ni_with :: "'i namespaceIterator \<Rightarrow> ('r \<times> 'i) option \<Rightarrow> ('r \<times> 'i namespaceIterator) option" where
  "ni_with nIter r = map_option (\<lambda>(x, i). (x, nIter\<lparr>ni_it := i\<rparr>)) r"

definition ni_Reset :: "('s, 'i) Iterator \<Rightarrow> 'i namespaceIterator \<Rightarrow> 'i namespaceIterator" where
  "ni_Reset I nIter = nIter\<lparr>ni_it := i_Reset I (ni_it nIter)\<rparr>"

definition ni_Next ::
  "('s, 'i) Iterator \<Rightarrow> 's \<Rightarrow> 'i namespaceIterator \<Rightarrow> (bool res \<times> 'i namespaceIterator) option" where
  "ni_Next I s nIter = ni_with nIter (i_Next I s (ni_it nIter))"

definition ni_Key :: "('s, 'i) Iterator \<Rightarrow> 'i namespaceIterator \<Rightarrow> slice res" where
  "ni_Key I nIter =
     (case i_Key I (ni_it nIter) of
        Inl e \<Rightarrow> Inl e
      | Inr k \<Rightarrow> slice_from k (len (ni_namespace nIter)))"

definition ni_Value :: "('s, 'i) Iterator \<Rightarrow> 'i namespaceIterator \<Rightarrow> slice res" where
  "ni_Value I nIter = i_Value I (ni_it nIter)"

definition ni_Seek ::
  "('s, 'i) Iterator \<Rightarrow> 's \<Rightarrow> slice \<Rightarrow> 'i namespaceIterator \<Rightarrow> (bool res \<times> 'i namespaceIterator) option" where
  "ni_Seek I s k nIter =
     (let pKey = prefixed (ni_namespace nIter) k
      in ni_with nIter (i_Seek I s pKey (ni_it nIter)))"

definition ni_Close :: "('s, 'i) Iterator \<Rightarrow> 'i namespaceIterator \<Rightarrow> err \<times> 'i namespaceIterator" where
  "ni_Close I nIter = (let (e, i) = i_Close I (ni_it nIter) in (e, nIter\<lparr>ni_it := i\<rparr>))"

definition ns_IteratorOps :: "('s, 'i) Iterator \<Rightarrow> ('s, 'i namespaceIterator) Iterator" where
  "ns_IteratorOps I =
     \<lparr>i_Next = ni_Next I, i_Key = ni_Key I, i_Value = ni_Value I, i_Seek = ni_Seek I,
      i_Reset = ni_Reset I, i_Close = ni_Close I\<rparr>"

definition Wrap :: "('s, 'i) ReaderWriter \<Rightarrow> slice \<Rightarrow> ('s, 'i namespaceIterator) ReaderWriter" where
  "Wrap RW prefix =
     \<lparr>rw_Get = ns_Get RW prefix, rw_Has = ns_Has RW prefix, rw_Iterator = ns_Iterator RW prefix,
      rw_Set = ns_Set RW prefix, rw_Delete = ns_Delete RW prefix, rw_it = ns_IteratorOps (rw_it RW)\<rparr>"

text \<open>Wrapped transactions and transaction stores pass \<^verbatim>\<open>Commit\<close>, \<^verbatim>\<open>Discard\<close> and \<^verbatim>\<open>NewTxn\<close> on.\<close>

definition WrapTxn :: "('s, 'i) Txn \<Rightarrow> slice \<Rightarrow> ('s, 'i namespaceIterator) Txn" where
  "WrapTxn txn prefix =
     ReaderWriter.extend (Wrap (ReaderWriter.truncate txn) prefix)
       \<lparr>tx_Commit = tx_Commit txn, tx_Discard = tx_Discard txn\<rparr>"

definition WrapTS ::
  "('s, 'i, 'ts, 'ti) TxnReaderWriter \<Rightarrow> slice \<Rightarrow>
   ('s, 'i namespaceIterator, 'ts, 'ti namespaceIterator) TxnReaderWriter" where
  "WrapTS store prefix =
     ReaderWriter.extend (Wrap (ReaderWriter.truncate store) prefix)
       \<lparr>ts_NewTxn = ts_NewTxn store, ts_Txn = WrapTxn (ts_Txn store) prefix\<rparr>"

lemmas ns_defs [run_defs] =
  cp_def prefixed_def ns_Get_def ns_Has_def ns_Set_def ns_Delete_def ns_opts_def ns_Iterator_def
  slice_from_def ni_with_def ni_Reset_def ni_Next_def ni_Key_def ni_Value_def ni_Seek_def ni_Close_def
  ns_IteratorOps_def Wrap_def

lemma contents_prefixed [simp]: "contents (prefixed p k) = contents p @ contents k"
  by (simp add: prefixed_def cp_def)

subsection \<open>The options\<close>

text \<open>
  Through the namespace the options ask for the same keys: the translated options want
  exactly the prefixed forms of the keys the given ones want.  (\<^verbatim>\<open>End\<close> must not be an empty,
  non-nil slice; unwrapped stores treat that as no end, the wrapper as an empty range.)
\<close>

lemma ns_opts_wanted:
  assumes "\<not> all_ff (contents ns)" "End opts \<noteq> Some []"
  shows "wanted (ns_opts ns opts) k' \<longleftrightarrow> (\<exists>k. k' = contents ns @ k \<and> wanted opts k)"
proof (cases "Prefix opts")
  case (Some p)
  then show ?thesis by (auto simp: ns_opts_def wanted_def prefixed_def cp_def HasPrefix_iff)
next
  case None
  show ?thesis
  proof (cases "End opts")
    case (Some e)
    with assms have e: "e \<noteq> []" by auto
    have "contents ns @ contents (Start opts) \<le> k' \<Longrightarrow> k' < contents ns @ e \<Longrightarrow> \<exists>k. k' = contents ns @ k"
      by (rule between_prefix)
    with None Some e show ?thesis by (auto simp: ns_opts_def wanted_def Let_def)
  next
    case end_: None
    note interval = bytesPrefixEnd_interval [OF assms(1)]
    show ?thesis
    proof (cases "Start opts")
      case None
      with \<open>Prefix opts = None\<close> end_ show ?thesis
        by (auto simp: ns_opts_def wanted_def prefixed_def cp_def HasPrefix_iff)
    next
      case (Some b)
      have ne: "contents (bytesPrefixEnd ns) \<noteq> []"
        using interval [of "contents ns"] by (auto simp: HasPrefix_iff)
      have "contents ns @ b \<le> k' \<and> k' < contents (bytesPrefixEnd ns) \<longleftrightarrow> (\<exists>k. k' = contents ns @ k \<and> b \<le> k)"
      proof
        assume *: "contents ns @ b \<le> k' \<and> k' < contents (bytesPrefixEnd ns)"
        then have "contents ns \<le> k'" by (metis le_append order.trans)
        with * interval [of k'] show "\<exists>k. k' = contents ns @ k \<and> b \<le> k" by (auto simp: HasPrefix_iff)
      next
        assume "\<exists>k. k' = contents ns @ k \<and> b \<le> k"
        with interval [of k'] show "contents ns @ b \<le> k' \<and> k' < contents (bytesPrefixEnd ns)"
          by (auto simp: HasPrefix_iff)
      qed
      with \<open>Prefix opts = None\<close> Some end_ ne show ?thesis by (auto simp: ns_opts_def wanted_def Let_def)
    qed
  qed
qed

lemma ns_opts_bounded:
  "\<not> all_ff (contents ns) \<Longrightarrow> bounded_prefix (ns_opts ns opts)"
  by (auto simp: ns_opts_def bounded_prefix_def prefixed_def cp_def Let_def)

lemma ns_opts_reverse [simp]: "Reverse (ns_opts ns opts) = Reverse opts"
  by (simp add: ns_opts_def Let_def)

lemma ns_opts_end: "\<not> all_ff (contents ns) \<Longrightarrow> End opts \<noteq> Some [] \<Longrightarrow> End (ns_opts ns opts) \<noteq> Some []"
  using bytesPrefixEnd_interval [of ns "contents ns"]
  by (cases "End opts") (auto simp: ns_opts_def Let_def prefixed_def cp_def HasPrefix_iff all_ff_def)

subsection \<open>The entries\<close>

definition strip :: "slice \<Rightarrow> entry \<Rightarrow> entry" where
  "strip ns e = (map_option (drop (len ns)) (fst e), snd e)"

definition below :: "slice \<Rightarrow> entry \<Rightarrow> bool" where
  "below ns e \<longleftrightarrow> (\<exists>k. contents (fst e) = contents ns @ k)"

lemma contents_strip: "contents (fst (strip ns e)) = drop (len ns) (contents (fst e))"
  by (cases "fst e") (simp_all add: strip_def)

lemma below_strip: "below ns e \<Longrightarrow> contents (fst e) = contents ns @ contents (fst (strip ns e))"
  by (auto simp: below_def contents_strip len_def)

lemma map_of_strip:
  "(\<forall>e \<in> set L. below ns e) \<Longrightarrow>
   map_of (map (apfst contents) (map (strip ns) L)) k = map_of (map (apfst contents) L) (contents ns @ k)"
proof (induction L)
  case (Cons e L)
  have "contents (fst (strip ns e)) = k \<longleftrightarrow> contents (fst e) = contents ns @ k"
    using below_strip [of ns e] Cons.prems by auto
  moreover have "snd (strip ns e) = snd e" by (simp add: strip_def)
  ultimately show ?case using Cons by (auto simp: apfst_def map_prod_def case_prod_beta)
qed simp

lemma sorted_strip:
  assumes "\<forall>e \<in> set L. below ns e"
    and "sorted_wrt (\<lambda>a b. dless r (contents (fst a)) (contents (fst b))) L"
  shows "sorted_wrt (\<lambda>a b. dless r (contents (fst a)) (contents (fst b))) (map (strip ns) L)"
proof -
  have "dless r (contents (fst (strip ns a))) (contents (fst (strip ns b)))"
    if "a \<in> set L" "b \<in> set L" "dless r (contents (fst a)) (contents (fst b))" for a b
    using that below_strip [of ns a] below_strip [of ns b] assms(1) by (auto simp: dless_def split: if_splits)
  with assms(2) show ?thesis unfolding sorted_wrt_map by (rule sorted_wrt_mono_rel [rotated])
qed

lemma lists_strip:
  assumes "lists m (ns_opts ns opts) L" "\<not> all_ff (contents ns)" "End opts \<noteq> Some []"
  shows "\<forall>e \<in> set L. below ns e" "lists (\<lambda>k. m (contents ns @ k)) opts (map (strip ns) L)"
proof -
  show b: "\<forall>e \<in> set L. below ns e"
  proof
    fix e assume "e \<in> set L"
    then have "contents (fst e) \<in> fst ` set (map (apfst contents) L)"
      by (auto simp: image_iff intro!: bexI [of _ e])
    then have "map_of (map (apfst contents) L) (contents (fst e)) \<noteq> None"
      by (simp add: map_of_eq_None_iff)
    with assms(1) have "wanted (ns_opts ns opts) (contents (fst e))" by (auto simp: lists_def split: if_splits)
    then show "below ns e" using ns_opts_wanted [OF assms(2,3)] by (auto simp: below_def)
  qed
  have "wanted (ns_opts ns opts) (contents ns @ k) = wanted opts k" for k
    using ns_opts_wanted [OF assms(2,3), of "contents ns @ k"] by simp
  with assms(1) sorted_strip [OF b] map_of_strip [OF b]
  show "lists (\<lambda>k. m (contents ns @ k)) opts (map (strip ns) L)" by (auto simp: lists_def)
qed

subsection \<open>The wrapper of a store is a store\<close>

definition ns_iterates ::
  "('s \<Rightarrow> 'i \<Rightarrow> entry list \<Rightarrow> entry list \<Rightarrow> bool) \<Rightarrow> slice \<Rightarrow>
   's \<Rightarrow> 'i namespaceIterator \<Rightarrow> entry list \<Rightarrow> entry list \<Rightarrow> bool" where
  "ns_iterates iterates ns s nIter L R \<longleftrightarrow>
     ni_namespace nIter = ns \<and>
     (\<exists>L0 R0. iterates s (ni_it nIter) L0 R0 \<and> (\<forall>e \<in> set L0. below ns e) \<and> (\<forall>e \<in> set R0. below ns e) \<and>
        L = map (strip ns) L0 \<and> R = map (strip ns) R0)"

lemma slice_from_below: "below ns (k, v) \<Longrightarrow> slice_from k (len ns) = Inr (fst (strip ns (k, v)))"
  by (auto simp: slice_from_def below_def strip_def len_def)

lemma dropWhile_strip:
  assumes "\<forall>e \<in> set L. below ns e"
  shows "dropWhile (key_before f k) (map (strip ns) L) = map (strip ns) (dropWhile (key_before f (prefixed ns k)) L)"
proof -
  have "key_before f k (strip ns e) = key_before f (prefixed ns k) e" if "e \<in> set L" for e
    using that assms below_strip [of ns e] by (auto simp: key_before_def)
  then show ?thesis unfolding dropWhile_map by (auto simp: comp_def cong: dropWhile_cong)
qed

lemma set_dropWhile_subset: "set (dropWhile P xs) \<subseteq> set xs"
  by (auto dest: set_dropWhileD)

context kv_iterator
begin

lemma ns_next_end:
  assumes "ns_iterates iterates ns s i L []"
  shows "\<exists>i'. i_Next (ns_IteratorOps I) s i = Some (Inr False, i') \<and> forward (ni_it i') = forward (ni_it i) \<and>
      fst (i_Close (ns_IteratorOps I) i') = None \<and> ns_iterates iterates ns s (i_Reset (ns_IteratorOps I) i') L L \<and>
      (forward (ni_it i) \<longrightarrow> ns_iterates iterates ns s i' L [])"
proof -
  obtain L0 where 0: "ni_namespace i = ns" "iterates s (ni_it i) L0 []" "\<forall>e \<in> set L0. below ns e" "L = map (strip ns) L0"
    using assms by (auto simp: ns_iterates_def)
  with next_end [OF 0(2)] show ?thesis
    by (force simp: ns_IteratorOps_def ni_Next_def ni_with_def ni_Reset_def ni_Close_def ns_iterates_def case_prod_beta)
qed

lemma ns_next_entry:
  assumes "ns_iterates iterates ns s i L ((k, v) # R)"
  shows "\<exists>i'. i_Next (ns_IteratorOps I) s i = Some (Inr True, i') \<and> forward (ni_it i') = forward (ni_it i) \<and>
      i_Key (ns_IteratorOps I) i' = Inr k \<and> i_Value (ns_IteratorOps I) i' = Inr v \<and> ns_iterates iterates ns s i' L R"
proof -
  obtain L0 k0 R0 where 0: "ni_namespace i = ns" "iterates s (ni_it i) L0 ((k0, v) # R0)"
    "\<forall>e \<in> set L0. below ns e" "below ns (k0, v)" "\<forall>e \<in> set R0. below ns e" "L = map (strip ns) L0"
    "k = fst (strip ns (k0, v))" "R = map (strip ns) R0"
    using assms by (auto simp: ns_iterates_def strip_def Cons_eq_map_conv)
  obtain i' where "i_Next I s (ni_it i) = Some (Inr True, i')" "forward i' = forward (ni_it i)"
    "i_Key I i' = Inr k0" "i_Value I i' = Inr v" "iterates s i' L0 R0" using next_entry [OF 0(2)] by blast
  with 0 slice_from_below [OF 0(4)] show ?thesis
    by (auto simp: ns_IteratorOps_def ni_Next_def ni_Key_def ni_Value_def ni_with_def ns_iterates_def)
qed

lemma ns_seek_end:
  assumes "ns_iterates iterates ns s i L R" "seekable (ni_it i) (prefixed (ni_namespace i) k)"
    and "dropWhile (key_before (forward (ni_it i)) k) L = []"
  shows "\<exists>i'. i_Seek (ns_IteratorOps I) s k i = Some (Inr False, i') \<and>
      ns_iterates iterates ns s (i_Reset (ns_IteratorOps I) i') L L"
proof -
  obtain L0 R0 where 0: "ni_namespace i = ns" "iterates s (ni_it i) L0 R0" "\<forall>e \<in> set L0. below ns e" "L = map (strip ns) L0"
    using assms(1) by (auto simp: ns_iterates_def)
  with assms(3) have "dropWhile (key_before (forward (ni_it i)) (prefixed ns k)) L0 = []" by (simp add: dropWhile_strip)
  from seek_end [OF 0(2) _ this] assms(2) 0 show ?thesis
    by (force simp: ns_IteratorOps_def ni_Seek_def ni_with_def ni_Reset_def ns_iterates_def)
qed

lemma ns_seek_entry:
  assumes "ns_iterates iterates ns s i L R" "seekable (ni_it i) (prefixed (ni_namespace i) k)"
    and "dropWhile (key_before (forward (ni_it i)) k) L = (k1, v1) # R1"
  shows "\<exists>i'. i_Seek (ns_IteratorOps I) s k i = Some (Inr True, i') \<and> forward (ni_it i') = forward (ni_it i) \<and>
      i_Key (ns_IteratorOps I) i' = Inr k1 \<and> i_Value (ns_IteratorOps I) i' = Inr v1 \<and> ns_iterates iterates ns s i' L R1"
proof -
  obtain L0 R0 where 0: "ni_namespace i = ns" "iterates s (ni_it i) L0 R0" "\<forall>e \<in> set L0. below ns e" "L = map (strip ns) L0"
    using assms(1) by (auto simp: ns_iterates_def)
  with assms(3) obtain k0 S0 where S: "dropWhile (key_before (forward (ni_it i)) (prefixed ns k)) L0 = (k0, v1) # S0"
    "k1 = fst (strip ns (k0, v1))" "R1 = map (strip ns) S0"
    by (auto simp: dropWhile_strip strip_def Cons_eq_map_conv)
  have b: "below ns (k0, v1)" "\<forall>e \<in> set S0. below ns e"
    using 0(3) set_dropWhile_subset [of "key_before (forward (ni_it i)) (prefixed ns k)" L0] S(1) by auto
  from seek_entry [OF 0(2) _ S(1)] assms(2) 0(1)
  obtain i' where "i_Seek I s (prefixed ns k) (ni_it i) = Some (Inr True, i')" "forward i' = forward (ni_it i)"
    "i_Key I i' = Inr k0" "i_Value I i' = Inr v1" "iterates s i' L0 S0" by auto
  with 0 S b slice_from_below [OF b(1)] show ?thesis
    by (auto simp: ns_IteratorOps_def ni_Seek_def ni_Key_def ni_Value_def ni_with_def ns_iterates_def)
qed

lemma ns_kv_iterator:
  "kv_iterator (ns_IteratorOps I) (ns_iterates iterates ns) (\<lambda>i. forward (ni_it i))
     (\<lambda>i k. seekable (ni_it i) (prefixed (ni_namespace i) k))"
proof
  fix s i L R
  assume "ns_iterates iterates ns s i L R"
  then show "ns_iterates iterates ns s (i_Reset (ns_IteratorOps I) i) L L"
    by (auto simp: ns_iterates_def ns_IteratorOps_def ni_Reset_def dest: reset)
qed (erule ns_next_end | erule ns_next_entry | erule (2) ns_seek_end | erule (2) ns_seek_entry |
     (auto simp: ns_iterates_def ns_IteratorOps_def ni_Reset_def ni_Close_def case_prod_beta Let_def dest: close)[1])+

end

text \<open>The reads and writes alone: whatever the wrapped store accepts and makes of a value.\<close>

context kv_map
begin

lemma namespace_kv_map:
  "kv_map (Wrap RW ns) ok (\<lambda>s k. view s (contents ns @ k)) (\<lambda>k. accepts (prefixed ns k)) stored"
proof
  fix n s k assume *: "ok n s" "contents k \<noteq> []"
  from get [OF *(1), of "prefixed ns k"] *(2)
  show "\<exists>s'. rw_Get (Wrap RW ns) s k = Some (found (view s (contents ns @ contents k)), s') \<and> ok n s' \<and>
      (\<lambda>k'. view s' (contents ns @ k')) = (\<lambda>k'. view s (contents ns @ k'))"
    by (auto simp: Wrap_def ns_Get_def len_def)
  from has [OF *(1), of "prefixed ns k"] *(2)
  show "\<exists>s'. rw_Has (Wrap RW ns) s k = Some (Inr (view s (contents ns @ contents k) \<noteq> None), s') \<and> ok n s' \<and>
      (\<lambda>k'. view s' (contents ns @ k')) = (\<lambda>k'. view s (contents ns @ k'))"
    by (auto simp: Wrap_def ns_Has_def len_def)
next
  fix n s k v assume *: "ok (Suc n) s" "contents k \<noteq> []" "accepts (prefixed ns k) v"
  from put [OF *(1), of "prefixed ns k" v] *(2,3)
  show "\<exists>s'. rw_Set (Wrap RW ns) s k v = Some (None, s') \<and> ok n s' \<and>
      (\<lambda>k'. view s' (contents ns @ k')) = (\<lambda>k'. view s (contents ns @ k'))(contents k := Some (stored v))"
    by (auto simp: Wrap_def ns_Set_def len_def fun_eq_iff)
next
  fix n s k assume *: "ok (Suc n) s" "contents k \<noteq> []" "accepts (prefixed ns k) None"
  from remove [OF *(1), of "prefixed ns k"] *(2,3)
  show "\<exists>s'. rw_Delete (Wrap RW ns) s k = Some (None, s') \<and> ok n s' \<and>
      (\<lambda>k'. view s' (contents ns @ k')) = (\<lambda>k'. view s (contents ns @ k'))(contents k := None)"
    by (auto simp: Wrap_def ns_Delete_def len_def fun_eq_iff)
qed (rule ok_less)

end

context kv_store
begin

lemma namespace_kv_store:
  assumes "\<not> all_ff (contents ns)"
  shows "kv_store (Wrap RW ns) (ns_iterates iterates ns) (\<lambda>i. forward (ni_it i))
     (\<lambda>i k. seekable (ni_it i) (prefixed (ni_namespace i) k)) ok (\<lambda>s k. view s (contents ns @ k))"
proof (intro kv_store.intro kv_store_axioms.intro namespace_kv_map)
  show "kv_iterator (rw_it (Wrap RW ns)) (ns_iterates iterates ns) (\<lambda>i. forward (ni_it i))
     (\<lambda>i k. seekable (ni_it i) (prefixed (ni_namespace i) k))"
    using ns_kv_iterator by (simp add: Wrap_def)
next
  fix n s opts assume ok: "ok n s" and opts: "bounded_prefix opts" "End opts \<noteq> Some []"
  from iterator [OF ok ns_opts_bounded [OF assms] ns_opts_end [OF assms opts(2)]]
  obtain i s' L where i: "rw_Iterator RW s (ns_opts ns opts) = (Inr i, s')" "ok n s'" "view s' = view s"
    "iterates s' i L L" "forward i = (\<not> Reverse opts)" "lists (view s) (ns_opts ns opts) L" by auto
  from lists_strip [OF i(6) assms opts(2)] i
  show "\<exists>i s' L. rw_Iterator (Wrap RW ns) s opts = (Inr i, s') \<and> ok n s' \<and>
      (\<lambda>k. view s' (contents ns @ k)) = (\<lambda>k. view s (contents ns @ k)) \<and> ns_iterates iterates ns s' i L L \<and>
      forward (ni_it i) = (\<not> Reverse opts) \<and> lists (\<lambda>k. view s (contents ns @ k)) opts L"
    by (auto simp: Wrap_def ns_Iterator_def ns_iterates_def)
qed

end

end
