(* ===== verification/Chunk.thy ===== *)
theory Chunk
  imports Iface
begin

text \<open>
  The chunk store (\<^verbatim>\<open>chunk/chunk.go\<close>, \<^verbatim>\<open>chunk/txn.go\<close>): values are cut into chunks of
  \<^verbatim>\<open>chunkSize\<close> bytes, kept under the key with a counting byte appended.  It wraps any
  \<^verbatim>\<open>corekv.ReaderWriter\<close>.  Go's \<^verbatim>\<open>slices.Chunk\<close> and \<^verbatim>\<open>bytes.Join\<close> are modelled here; a
  panic is an error value \<open>Panic\<close>.
\<close>

record 's Chunkstore =
  cs_store :: 's
  cs_chunkSize :: int
  cs_keyLen :: int

text \<open>\<^verbatim>\<open>slices.Chunk\<close> for a positive size, and \<^verbatim>\<open>bytes.Join\<close> with an empty separator.\<close>

function chunks_of :: "nat \<Rightarrow> 'a list \<Rightarrow> 'a list list" where
  "chunks_of n xs = (if xs = [] \<or> n = 0 then [] else take n xs # chunks_of n (drop n xs))"
  by pat_completeness auto
termination by (relation "measure (\<lambda>(n, xs). length xs)") auto

declare chunks_of.simps [simp del]

definition bytes_Join :: "slice list \<Rightarrow> slice" where
  "bytes_Join s =
     (case s of
        [] \<Rightarrow> Some []
      | [c] \<Rightarrow> if contents c = [] then None else Some (contents c)
      | _ \<Rightarrow> Some (concat (map contents s)))"

definition slice_to :: "slice \<Rightarrow> int \<Rightarrow> slice res" where
  "slice_to k n =
     (if 0 \<le> n \<and> n \<le> int (len k) then Inr (map_option (take (nat n)) k)
      else Inl (Panic ''slice bounds out of range''))"

text \<open>\<^verbatim>\<open>errors.Join(err, it.Close())\<close> for an error that is not nil.\<close>

definition join_close :: "('s, 'i) Iterator \<Rightarrow> 'i \<Rightarrow> kverror \<Rightarrow> kverror" where
  "join_close I i e = (case errors_Join [Some e, fst (i_Close I i)] of Some e' \<Rightarrow> e' | None \<Rightarrow> e)"

subsection \<open>Construction\<close>

definition chunk_New ::
  "('s, 'i) ReaderWriter \<Rightarrow> 's \<Rightarrow> int \<Rightarrow> ('s Chunkstore res \<times> 's) option" where
  "chunk_New RW s chunkSize =
     (case rw_Iterator RW s (DefaultIterOptions\<lparr>KeysOnly := True\<rparr>) of
        (Inl e, s) \<Rightarrow> Some (Inl e, s)
      | (Inr it, s) \<Rightarrow>
          Option.bind (i_Next (rw_it RW) s it) (\<lambda>(r, it).
            case r of
              Inl e \<Rightarrow> Some (Inl (join_close (rw_it RW) it e), s)
            | Inr hasKey \<Rightarrow>
                (case (if hasKey then map_sum id (\<lambda>k. int (len k) - 1) (i_Key (rw_it RW) it) else Inr 0) of
                   Inl e \<Rightarrow> Some (Inl e, s)
                 | Inr keyLen \<Rightarrow>
                     (case fst (i_Close (rw_it RW) it) of
                        Some e \<Rightarrow> Some (Inl e, s)
                      | None \<Rightarrow> Some (Inr \<lparr>cs_store = s, cs_chunkSize = chunkSize, cs_keyLen = keyLen\<rparr>, s)))))"

definition chunk_NewSized :: "'s \<Rightarrow> int \<Rightarrow> int \<Rightarrow> 's Chunkstore" where
  "chunk_NewSized s chunkSize keyLen = \<lparr>cs_store = s, cs_chunkSize = chunkSize, cs_keyLen = keyLen\<rparr>"

subsection \<open>Reads\<close>

partial_function (option) get_loop ::
  "('s, 'i) Iterator \<Rightarrow> 's \<Rightarrow> 'i \<Rightarrow> slice list \<Rightarrow> slice res option" where
  "get_loop I s it chunks =
     Option.bind (i_Next I s it) (\<lambda>(r, it).
       case r of
         Inl e \<Rightarrow> Some (Inl (join_close I it e))
       | Inr hasNext \<Rightarrow>
           if \<not> hasNext
           then (case fst (i_Close I it) of
                   Some e \<Rightarrow> Some (Inl e)
                 | None \<Rightarrow> if length chunks = 0 then Some (Inl ErrNotFound) else Some (Inr (bytes_Join chunks)))
           else (case i_Value I it of
                   Inl e \<Rightarrow> Some (Inl (join_close I it e))
                 | Inr chunk \<Rightarrow> get_loop I s it (chunks @ [chunk])))"

definition chunk_Get ::
  "('s, 'i) ReaderWriter \<Rightarrow> 's Chunkstore \<Rightarrow> slice \<Rightarrow> (slice res \<times> 's Chunkstore) option" where
  "chunk_Get RW cs k =
     (case rw_Iterator RW (cs_store cs) (DefaultIterOptions\<lparr>Prefix := k\<rparr>) of
        (Inl e, s) \<Rightarrow> Some (Inl e, cs\<lparr>cs_store := s\<rparr>)
      | (Inr it, s) \<Rightarrow> map_option (\<lambda>r. (r, cs\<lparr>cs_store := s\<rparr>)) (get_loop (rw_it RW) s it []))"

definition chunk_Has ::
  "('s, 'i) ReaderWriter \<Rightarrow> 's Chunkstore \<Rightarrow> slice \<Rightarrow> (bool res \<times> 's Chunkstore) option" where
  "chunk_Has RW cs k =
     (case rw_Iterator RW (cs_store cs) (DefaultIterOptions\<lparr>Prefix := k, KeysOnly := True\<rparr>) of
        (Inl e, s) \<Rightarrow> Some (Inl e, cs\<lparr>cs_store := s\<rparr>)
      | (Inr it, s) \<Rightarrow>
          Option.bind (i_Next (rw_it RW) s it) (\<lambda>(r, it).
            case r of
              Inl e \<Rightarrow> Some (Inl (join_close (rw_it RW) it e), cs\<lparr>cs_store := s\<rparr>)
            | Inr hasNext \<Rightarrow>
                (case fst (i_Close (rw_it RW) it) of
                   Some e \<Rightarrow> Some (Inl e, cs\<lparr>cs_store := s\<rparr>)
                 | None \<Rightarrow> Some (Inr hasNext, cs\<lparr>cs_store := s\<rparr>))))"

subsection \<open>Writes\<close>

fun set_loop :: "('s, 'i) ReaderWriter \<Rightarrow> 's \<Rightarrow> slice \<Rightarrow> bytes list \<Rightarrow> (err \<times> 's) option" where
  "set_loop RW s chunkKey [] = Some (None, s)"
| "set_loop RW s chunkKey (chunk # chunks) =
     Option.bind (rw_Set RW s chunkKey (Some chunk)) (\<lambda>(e, s).
       if e \<noteq> None then Some (e, s) else set_loop RW s (bytesPrefixEnd chunkKey) chunks)"

definition chunk_Set ::
  "('s, 'i) ReaderWriter \<Rightarrow> 's Chunkstore \<Rightarrow> slice \<Rightarrow> slice \<Rightarrow> (err \<times> 's Chunkstore) option" where
  "chunk_Set RW cs k v =
     (let chunkKey = Some (contents k @ [0])
      in Option.bind
           (if len v = 0 then rw_Set RW (cs_store cs) chunkKey v
            else if cs_chunkSize cs < 1
            then Some (Some (Panic ''cannot be less than 1''), cs_store cs)
            else set_loop RW (cs_store cs) chunkKey (chunks_of (nat (cs_chunkSize cs)) (contents v)))
           (\<lambda>(e, s).
              let cs = cs\<lparr>cs_store := s\<rparr>
              in if e \<noteq> None then Some (e, cs)
                 else Some (None, if cs_keyLen cs = 0 then cs\<lparr>cs_keyLen := int (len k)\<rparr> else cs)))"

partial_function (option) keys_loop ::
  "('s, 'i) Iterator \<Rightarrow> 's \<Rightarrow> 'i \<Rightarrow> slice list \<Rightarrow> (slice list res \<times> 'i) option" where
  "keys_loop I s it keys =
     Option.bind (i_Next I s it) (\<lambda>(r, it).
       case r of
         Inl e \<Rightarrow> Some (Inl (join_close I it e), it)
       | Inr hasNext \<Rightarrow>
           if \<not> hasNext then Some (Inr keys, it)
           else (case i_Key I it of
                   Inl e \<Rightarrow> Some (Inl e, it)
                 | Inr chunkKey \<Rightarrow> keys_loop I s it (keys @ [chunkKey])))"

fun delete_loop :: "('s, 'i) ReaderWriter \<Rightarrow> 's \<Rightarrow> slice list \<Rightarrow> (err \<times> 's) option" where
  "delete_loop RW s [] = Some (None, s)"
| "delete_loop RW s (k # keys) =
     Option.bind (rw_Delete RW s k) (\<lambda>(e, s).
       if e \<noteq> None then Some (e, s) else delete_loop RW s keys)"

definition chunk_Delete ::
  "('s, 'i) ReaderWriter \<Rightarrow> 's Chunkstore \<Rightarrow> slice \<Rightarrow> (err \<times> 's Chunkstore) option" where
  "chunk_Delete RW cs k =
     (case rw_Iterator RW (cs_store cs) (DefaultIterOptions\<lparr>Prefix := k, KeysOnly := True\<rparr>) of
        (Inl e, s) \<Rightarrow> Some (Some e, cs\<lparr>cs_store := s\<rparr>)
      | (Inr it, s) \<Rightarrow>
          Option.bind (keys_loop (rw_it RW) s it []) (\<lambda>(r, it).
            case r of
              Inl e \<Rightarrow> Some (Some e, cs\<lparr>cs_store := s\<rparr>)
            | Inr keys \<Rightarrow>
                (case fst (i_Close (rw_it RW) it) of
                   Some e \<Rightarrow> Some (Some e, cs\<lparr>cs_store := s\<rparr>)
                 | None \<Rightarrow> map_option (\<lambda>(e, s). (e, cs\<lparr>cs_store := s\<rparr>)) (delete_loop RW s keys))))"

subsection \<open>Iteration\<close>

record 'i chunkIterator =
  ci_it :: 'i
  ci_opts :: IterOptions
  ci_keyLen :: int
  currentKey :: slice
  currentValue :: slice
  currentChunk :: slice
  currentChunkKey :: slice

definition chunk_Iterator ::
  "('s, 'i) ReaderWriter \<Rightarrow> 's Chunkstore \<Rightarrow> IterOptions \<Rightarrow> 'i chunkIterator res \<times> 's Chunkstore" where
  "chunk_Iterator RW cs opts =
     (case rw_Iterator RW (cs_store cs) opts of
        (Inl e, s) \<Rightarrow> (Inl e, cs\<lparr>cs_store := s\<rparr>)
      | (Inr inner, s) \<Rightarrow>
          (Inr \<lparr>ci_it = inner, ci_opts = opts, ci_keyLen = cs_keyLen cs, currentKey = None,
                currentValue = None, currentChunk = None, currentChunkKey = None\<rparr>, cs\<lparr>cs_store := s\<rparr>))"

definition ci_Reset :: "('s, 'i) Iterator \<Rightarrow> 'i chunkIterator \<Rightarrow> 'i chunkIterator" where
  "ci_Reset I it =
     it\<lparr>currentKey := None, currentValue := None, currentChunk := None, currentChunkKey := None,
        ci_it := i_Reset I (ci_it it)\<rparr>"

text \<open>The head of the loop of \<^verbatim>\<open>Next\<close>: a chunk read ahead joins the chunks of its key.\<close>

definition ci_take :: "'i chunkIterator \<Rightarrow> slice list \<Rightarrow> (slice list \<times> 'i chunkIterator) res" where
  "ci_take it chunks =
     (if currentChunkKey it \<noteq> None
      then let chunks = (if Reverse (ci_opts it) then currentChunk it # chunks else chunks @ [currentChunk it])
           in map_sum id (\<lambda>k. (chunks, it\<lparr>currentKey := k, currentChunkKey := None, currentChunk := None\<rparr>))
                (slice_to (currentChunkKey it) (ci_keyLen it))
      else Inr (chunks, it))"

definition ci_finish :: "slice list \<Rightarrow> 'i chunkIterator \<Rightarrow> bool res \<times> 'i chunkIterator" where
  "ci_finish chunks it =
     (if length chunks = 0 then (Inr False, it)
      else (Inr True, it\<lparr>currentValue := bytes_Join chunks\<rparr>))"

partial_function (option) ci_loop ::
  "('s, 'i) Iterator \<Rightarrow> 's \<Rightarrow> slice list \<Rightarrow> 'i chunkIterator \<Rightarrow> (bool res \<times> 'i chunkIterator) option" where
  "ci_loop I s chunks it =
     (case ci_take it chunks of
        Inl e \<Rightarrow> Some (Inl e, it)
      | Inr (chunks, it) \<Rightarrow>
          Option.bind (i_Next I s (ci_it it)) (\<lambda>(r, i).
            let it = it\<lparr>ci_it := i\<rparr> in
            case r of
              Inl e \<Rightarrow> Some (Inl e, it)
            | Inr hasNext \<Rightarrow>
                if \<not> hasNext then Some (ci_finish chunks it)
                else (case i_Key I i of
                        Inl e \<Rightarrow> Some (Inl e, it)
                      | Inr k \<Rightarrow>
                          let it = it\<lparr>currentChunkKey := k\<rparr>
                          in (case i_Value I i of
                                Inl e \<Rightarrow> Some (Inl e, it\<lparr>currentChunk := None\<rparr>)
                              | Inr v \<Rightarrow>
                                  let it = it\<lparr>currentChunk := v\<rparr>
                                  in if \<not> bytes_HasPrefix (contents (currentChunkKey it)) (contents (currentKey it))
                                     then Some (ci_finish chunks it)
                                     else ci_loop I s chunks it))))"

definition ci_Next ::
  "('s, 'i) Iterator \<Rightarrow> 's \<Rightarrow> 'i chunkIterator \<Rightarrow> (bool res \<times> 'i chunkIterator) option" where
  "ci_Next I s it = ci_loop I s [] it"

definition ci_Key :: "'i chunkIterator \<Rightarrow> slice res" where
  "ci_Key it = Inr (currentKey it)"

definition ci_Value :: "'i chunkIterator \<Rightarrow> slice res" where
  "ci_Value it = Inr (currentValue it)"

definition ci_Seek ::
  "('s, 'i) Iterator \<Rightarrow> 's \<Rightarrow> slice \<Rightarrow> 'i chunkIterator \<Rightarrow> (bool res \<times> 'i chunkIterator) option" where
  "ci_Seek I s k it =
     (let k = (if Reverse (ci_opts it) then bytesPrefixEnd k else k)
      in Option.bind (i_Seek I s k (ci_it it)) (\<lambda>(r, i).
           let it = it\<lparr>ci_it := i\<rparr> in
           case r of
             Inl e \<Rightarrow> Some (Inl e, it)
           | Inr hasValue \<Rightarrow>
               if \<not> hasValue then Some (Inr False, it)
               else (case i_Key I i of
                       Inl e \<Rightarrow> Some (Inl e, it)
                     | Inr k \<Rightarrow>
                         let it = it\<lparr>currentChunkKey := k\<rparr>
                         in (case i_Value I i of
                               Inl e \<Rightarrow> Some (Inl e, it\<lparr>currentChunk := None\<rparr>)
                             | Inr v \<Rightarrow> ci_Next I s (it\<lparr>currentChunk := v\<rparr>)))))"

definition ci_Close :: "('s, 'i) Iterator \<Rightarrow> 'i chunkIterator \<Rightarrow> err \<times> 'i chunkIterator" where
  "ci_Close I it = (let (e, i) = i_Close I (ci_it it) in (e, it\<lparr>ci_it := i\<rparr>))"

definition chunk_IteratorOps :: "('s, 'i) Iterator \<Rightarrow> ('s, 'i chunkIterator) Iterator" where
  "chunk_IteratorOps I =
     \<lparr>i_Next = ci_Next I, i_Key = ci_Key, i_Value = ci_Value, i_Seek = ci_Seek I,
      i_Reset = ci_Reset I, i_Close = ci_Close I\<rparr>"

subsection \<open>Transactions\<close>

text \<open>
  The chunked transaction is the chunk store over the transaction, with \<^verbatim>\<open>Commit\<close> and
  \<^verbatim>\<open>Discard\<close> passed on.
\<close>

definition chunk_NewTxn :: "('s, 'i) Txn \<Rightarrow> 's \<Rightarrow> int \<Rightarrow> ('s Chunkstore res \<times> 's) option" where
  "chunk_NewTxn txn s chunkSize = chunk_New (ReaderWriter.truncate txn) s chunkSize"

definition chunk_Commit :: "('s, 'i) Txn \<Rightarrow> 's Chunkstore \<Rightarrow> (err \<times> 's Chunkstore) option" where
  "chunk_Commit txn cs = map_option (\<lambda>(e, s). (e, cs\<lparr>cs_store := s\<rparr>)) (tx_Commit txn (cs_store cs))"

definition chunk_Discard :: "('s, 'i) Txn \<Rightarrow> 's Chunkstore \<Rightarrow> 's Chunkstore option" where
  "chunk_Discard txn cs = map_option (\<lambda>s. cs\<lparr>cs_store := s\<rparr>) (tx_Discard txn (cs_store cs))"

definition chunk_TxnStore_NewTxn ::
  "('s, 'i, 'ts, 'ti) TxnReaderWriter \<Rightarrow> bool \<Rightarrow> 's Chunkstore \<Rightarrow> 'ts Chunkstore \<times> 's Chunkstore" where
  "chunk_TxnStore_NewTxn store readonly cs =
     (let (txn, s) = ts_NewTxn store readonly (cs_store cs)
      in (chunk_NewSized txn (cs_chunkSize cs) (cs_keyLen cs), cs\<lparr>cs_store := s\<rparr>))"

definition chunk_NewTS ::
  "('s, 'i, 'ts, 'ti) TxnReaderWriter \<Rightarrow> 's \<Rightarrow> int \<Rightarrow> ('s Chunkstore res \<times> 's) option" where
  "chunk_NewTS store s chunkSize = chunk_New (ReaderWriter.truncate store) s chunkSize"

lemmas chunk_defs [run_defs] =
  bytes_Join_def slice_to_def join_close_def chunk_New_def chunk_NewSized_def chunk_Get_def chunk_Has_def
  chunk_Set_def chunk_Delete_def chunk_Iterator_def ci_Reset_def ci_take_def ci_finish_def ci_Next_def
  ci_Key_def ci_Value_def ci_Seek_def ci_Close_def chunk_IteratorOps_def

end
