(* ===== verification/Chunk_Laws.thy ===== *)
theory Chunk_Laws
  imports Chunk
begin

text \<open>
  The chunk store over any store that meets the contract \<open>kv_store\<close>.  The value of a key is
  the concatenation of the chunks under it (\<open>chunk_view\<close>); the operations act on this view
  as those of a store, for keys of one length, values of at most 256 chunks and no shorter
  in chunks than the value they replace.
\<close>

definition all_bytes :: "byte list" where
  "all_bytes = map word_of_nat [0..<256]"

definition chunk_values :: "(bytes \<Rightarrow> slice option) \<Rightarrow> bytes \<Rightarrow> slice list" where
  "chunk_values m k = List.map_filter (\<lambda>b. m (k @ [b])) all_bytes"

definition chunk_view :: "(bytes \<Rightarrow> slice option) \<Rightarrow> bytes \<Rightarrow> slice option" where
  "chunk_view m k = (case chunk_values m k of [] \<Rightarrow> None | cs \<Rightarrow> Some (bytes_Join cs))"

text \<open>The inner keys are the outer keys, all of one length, with one byte appended.\<close>

definition chunk_keys :: "nat \<Rightarrow> (bytes \<Rightarrow> slice option) \<Rightarrow> bool" where
  "chunk_keys n m \<longleftrightarrow> (\<forall>k. m k \<noteq> None \<longrightarrow> length k = Suc n)"

lemma chunk_keysD: "chunk_keys n m \<Longrightarrow> m k = Some v \<Longrightarrow> length k = Suc n"
  by (auto simp: chunk_keys_def)

lemma length_all_bytes [simp]: "length all_bytes = 256"
  by (simp add: all_bytes_def)

lemma nth_all_bytes [simp]: "i < 256 \<Longrightarrow> all_bytes ! i = word_of_nat i"
  by (simp add: all_bytes_def)

lemma unat_byte_of_nat: "i < 256 \<Longrightarrow> unat (word_of_nat i :: byte) = i"
  by (simp add: unsigned_of_nat take_bit_nat_eq_self)

lemma set_all_bytes [simp]: "b \<in> set all_bytes"
proof -
  have "unat b < 256" using unsigned_less [of b] by simp
  then have "b = all_bytes ! unat b" by simp
  with \<open>unat b < 256\<close> show ?thesis by (metis length_all_bytes nth_mem)
qed

lemma sorted_all_bytes: "sorted_wrt (<) all_bytes"
  by (auto simp: sorted_wrt_iff_nth_less word_less_nat_alt unat_byte_of_nat)

lemma filter_all_bytes: "sorted_wrt (<) xs \<Longrightarrow> set xs = {b. P b} \<Longrightarrow> filter P all_bytes = xs"
  by (rule sorted_wrt_filter_eq [where R = "(<)"]) (auto intro: sorted_wrt_filter sorted_all_bytes)

subsection \<open>Listing the chunks of a key\<close>

lemma map_filter_eq: "List.map_filter f xs = map (the \<circ> f) (filter (\<lambda>x. f x \<noteq> None) xs)"
  by (simp add: List.map_filter_def)

lemma prefix_entries:
  assumes L: "lists m (DefaultIterOptions\<lparr>Prefix := Some k, KeysOnly := ko\<rparr>) L" and m: "chunk_keys (length k) m"
  shows "map (apfst contents) L = map (\<lambda>b. (k @ [b], the (m (k @ [b])))) (filter (\<lambda>b. m (k @ [b]) \<noteq> None) all_bytes)"
proof (rule sorted_wrt_filter_eq [where R = "\<lambda>a b. fst a < fst b"])
  let ?opts = "DefaultIterOptions\<lparr>Prefix := Some k, KeysOnly := ko\<rparr>"
  from L have sorted: "sorted_wrt (\<lambda>a b. contents (fst a) < contents (fst b)) L"
    and map: "\<And>k'. map_of (map (apfst contents) L) k' = (if bytes_HasPrefix k' k then m k' else None)"
    by (auto simp: lists_def wanted_def DefaultIterOptions_def)
  then show s: "sorted_wrt (\<lambda>a b. fst a < fst b) (map (apfst contents) L)" by (simp add: sorted_wrt_map)
  show "sorted_wrt (\<lambda>a b. fst a < fst b) (map (\<lambda>b. (k @ [b], the (m (k @ [b])))) (filter (\<lambda>b. m (k @ [b]) \<noteq> None) all_bytes))"
    using sorted_wrt_filter [OF sorted_all_bytes] by (simp add: sorted_wrt_map)
  have "(k', v) \<in> set (map (apfst contents) L) \<longleftrightarrow> bytes_HasPrefix k' k \<and> m k' = Some v" for k' v
  proof -
    have "(k', v) \<in> set (map (apfst contents) L) \<longleftrightarrow> (\<exists>e \<in> set L. contents (fst e) = k' \<and> snd e = v)"
      by (force simp: image_iff)
    then show ?thesis using map_of_ascending [OF sorted, of k' v] map [of k'] by (simp split: if_splits)
  qed
  moreover have "bytes_HasPrefix k' k \<and> m k' = Some v \<longleftrightarrow> (\<exists>b. k' = k @ [b] \<and> m (k @ [b]) = Some v)" for k' v
  proof
    assume *: "bytes_HasPrefix k' k \<and> m k' = Some v"
    then obtain t where t: "k' = k @ t" by (auto simp: HasPrefix_iff)
    with chunk_keysD [OF m, of k' v] * have "length t = 1" by simp
    with t * show "\<exists>b. k' = k @ [b] \<and> m (k @ [b]) = Some v" by (auto simp: length_Suc_conv)
  qed (auto simp: HasPrefix_iff)
  ultimately show "set (map (apfst contents) L) =
      set (map (\<lambda>b. (k @ [b], the (m (k @ [b])))) (filter (\<lambda>b. m (k @ [b]) \<noteq> None) all_bytes))"
    by (auto simp: set_eq_iff image_iff)
qed auto

lemma prefix_values:
  assumes "lists m (DefaultIterOptions\<lparr>Prefix := Some k, KeysOnly := ko\<rparr>) L" "chunk_keys (length k) m"
  shows "map snd L = chunk_values m k"
proof -
  have "map snd L = map snd (map (apfst contents) L)" by simp
  also have "\<dots> = chunk_values m k"
    unfolding prefix_entries [OF assms] by (simp add: chunk_values_def map_filter_eq comp_def)
  finally show ?thesis .
qed

lemma default_prefix: "DefaultIterOptions\<lparr>Prefix := p, KeysOnly := False\<rparr> = DefaultIterOptions\<lparr>Prefix := p\<rparr>"
  by (simp add: DefaultIterOptions_def)

lemma chunk_bounded:
  "k \<noteq> [] \<Longrightarrow> \<not> all_ff k \<Longrightarrow> bounded_prefix (DefaultIterOptions\<lparr>Prefix := Some k, KeysOnly := ko\<rparr>)"
  by (simp add: bounded_prefix_def)

context kv_iterator
begin

lemma get_loop_iterates:
  "iterates s i L R \<Longrightarrow> get_loop I s i cs =
     Some (if cs @ map snd R = [] then Inl ErrNotFound else Inr (bytes_Join (cs @ map snd R)))"
proof (induction R arbitrary: i cs)
  case Nil
  from next_end [OF Nil] obtain i' where "i_Next I s i = Some (Inr False, i')" "fst (i_Close I i') = None"
    by blast
  then show ?case by (subst get_loop.simps) auto
next
  case (Cons e R)
  obtain k v where e: "e = (k, v)" by (cases e)
  from next_entry Cons.prems e obtain i' where "i_Next I s i = Some (Inr True, i')"
    "i_Value I i' = Inr v" "iterates s i' L R" by blast
  with Cons.IH [of i' "cs @ [v]"] e show ?case by (subst get_loop.simps) auto
qed

lemma keys_loop_iterates:
  "iterates s i L R \<Longrightarrow>
     \<exists>i'. keys_loop I s i ks = Some (Inr (ks @ map fst R), i') \<and> fst (i_Close I i') = None"
proof (induction R arbitrary: i ks)
  case Nil
  from next_end [OF Nil] show ?case by (subst keys_loop.simps) auto
next
  case (Cons e R)
  obtain k v where e: "e = (k, v)" by (cases e)
  from next_entry Cons.prems e obtain i' where "i_Next I s i = Some (Inr True, i')"
    "i_Key I i' = Inr k" "iterates s i' L R" by blast
  with Cons.IH [of i' "ks @ [k]"] e show ?case by (subst keys_loop.simps) auto
qed

end

subsection \<open>Writing chunks\<close>

fun put_chunks :: "bytes \<Rightarrow> byte \<Rightarrow> slice list \<Rightarrow> (bytes \<Rightarrow> slice option) \<Rightarrow> bytes \<Rightarrow> slice option" where
  "put_chunks k b [] m = m"
| "put_chunks k b (c # cs) m = put_chunks k (b + 1) cs (m(k @ [b] := Some c))"

lemma put_chunks_other: "(\<And>b. k' \<noteq> k @ [b]) \<Longrightarrow> put_chunks k b cs m k' = m k'"
  by (induction k b cs m rule: put_chunks.induct) auto

lemma byte_step:
  assumes "unat (b :: byte) + Suc n \<le> 256" "0 < n"
  shows "b \<noteq> - 1" "unat (b + 1) = Suc (unat b)"
proof -
  show b: "b \<noteq> - 1"
  proof
    assume "b = - 1"
    with assms show False by (simp add: unsigned_minus_1_eq_mask mask_eq_exp_minus_1)
  qed
  show "unat (b + 1) = Suc (unat b)" by (rule unat_plus_1 [OF b])
qed

lemma put_chunks_nth:
  "unat b + length cs \<le> 256 \<Longrightarrow> put_chunks k b cs m (k @ [c]) =
     (if unat b \<le> unat c \<and> unat c < unat b + length cs then Some (cs ! (unat c - unat b)) else m (k @ [c]))"
proof (induction k b cs m rule: put_chunks.induct)
  case (2 k b x cs m)
  show ?case
  proof (cases cs)
    case Nil
    have "c = b \<longleftrightarrow> unat c = unat b" by (simp add: word_unat_eq_iff)
    with Nil show ?thesis by auto
  next
    case (Cons y ys)
    note step = byte_step [of b "length cs"]
    have succ: "unat (b + 1) = Suc (unat b)" using step(2) 2(2) Cons by simp
    with 2(2) have "unat (b + 1) + length cs \<le> 256" by simp
    note IH = 2(1) [OF this, unfolded succ]
    have "c = b \<longleftrightarrow> unat c = unat b" by (simp add: word_unat_eq_iff)
    then show ?thesis by (auto simp: IH nth_Cons' Suc_le_eq)
  qed
qed auto

lemma chunk_values_put:
  assumes "length cs \<le> 256" and stale: "\<And>b. length cs \<le> unat b \<Longrightarrow> m (k @ [b]) = None"
  shows "chunk_values (put_chunks k 0 cs m) k = cs"
proof -
  have val: "put_chunks k 0 cs m (k @ [b]) = (if unat b < length cs then Some (cs ! unat b) else None)" for b
    using put_chunks_nth [of 0 cs k m b] assms by auto
  have split: "all_bytes = map word_of_nat [0..<length cs] @ map word_of_nat [length cs..<256]"
    using assms(1) upt_add_eq_append [of 0 "length cs" "256 - length cs"] by (simp add: all_bytes_def flip: map_append)
  have "List.map_filter (\<lambda>b. put_chunks k 0 cs m (k @ [b])) (map word_of_nat [0..<length cs]) = map (\<lambda>i. cs ! i) [0..<length cs]"
    using assms(1) by (simp add: map_filter_eq val filter_map comp_def unat_byte_of_nat cong: filter_cong map_cong)
  moreover have "List.map_filter (\<lambda>b. put_chunks k 0 cs m (k @ [b])) (map word_of_nat [length cs..<256]) = []"
    by (simp add: map_filter_eq val filter_map comp_def unat_byte_of_nat filter_empty_conv)
  ultimately show ?thesis
    unfolding chunk_values_def split map_filter_eq by (simp add: map_nth)
qed

lemma concat_chunks_of: "0 < n \<Longrightarrow> concat (chunks_of n xs) = xs"
proof (induction n xs rule: chunks_of.induct)
  case (1 n xs)
  then show ?case by (subst chunks_of.simps) auto
qed

lemma chunks_of_Nil: "chunks_of n xs = [] \<longleftrightarrow> xs = [] \<or> n = 0"
  by (subst chunks_of.simps) simp

lemma contents_Join: "contents (bytes_Join cs) = concat (map contents cs)"
  by (auto simp: bytes_Join_def split: list.splits)

text \<open>What \<^verbatim>\<open>Set\<close> cuts a value into.\<close>

definition pieces :: "int \<Rightarrow> slice \<Rightarrow> slice list" where
  "pieces chunkSize v = (if len v = 0 then [v] else map Some (chunks_of (nat chunkSize) (contents v)))"

lemma concat_pieces: "0 < chunkSize \<Longrightarrow> concat (map contents (pieces chunkSize v)) = contents v"
  by (simp add: pieces_def comp_def concat_chunks_of)

lemma pieces_ne: "0 < chunkSize \<Longrightarrow> pieces chunkSize v \<noteq> []"
  by (simp add: pieces_def chunks_of_Nil len_0_iff)

lemma bytesPrefixEnd_snoc: "b \<noteq> - 1 \<Longrightarrow> bytesPrefixEnd (Some (k @ [b])) = Some (k @ [b + 1])"
  using bytesPrefixEnd_split [of "Some (k @ [b])" k b 0] by simp

lemma chunk_view_put:
  assumes "length cs \<le> 256" "cs \<noteq> []" "\<And>b. length cs \<le> unat b \<Longrightarrow> m (k @ [b]) = None"
  shows "\<exists>w. chunk_view (put_chunks k 0 cs m) k = Some w \<and> contents w = concat (map contents cs)"
proof -
  have "chunk_values (put_chunks k 0 cs m) k = cs"
    by (rule chunk_values_put) (use assms in auto)
  with assms(2) show ?thesis
    by (auto simp: chunk_view_def contents_Join comp_def split: list.splits)
qed

lemma chunk_view_other: "k' \<noteq> k \<Longrightarrow> chunk_view (put_chunks k b cs m) k' = chunk_view m k'"
  by (simp add: chunk_view_def chunk_values_def put_chunks_other)

context kv_store
begin

lemma chunk_Get_view:
  assumes "ok n (cs_store cs)" "k \<noteq> []" "\<not> all_ff k" "chunk_keys (length k) (view (cs_store cs))"
  shows "\<exists>cs'. chunk_Get RW cs (Some k) = Some (found (chunk_view (view (cs_store cs)) k), cs') \<and>
    ok n (cs_store cs') \<and> view (cs_store cs') = view (cs_store cs) \<and>
    cs_chunkSize cs' = cs_chunkSize cs \<and> cs_keyLen cs' = cs_keyLen cs"
proof -
  let ?opts = "DefaultIterOptions\<lparr>Prefix := Some k\<rparr>"
  have "bounded_prefix ?opts" "End ?opts \<noteq> Some []"
    using chunk_bounded [OF assms(2,3), of False] by (simp_all add: DefaultIterOptions_def)
  from iterator [OF assms(1) this] obtain i s' L where i: "rw_Iterator RW (cs_store cs) ?opts = (Inr i, s')"
    "ok n s'" "view s' = view (cs_store cs)" "iterates s' i L L" "lists (view (cs_store cs)) ?opts L" by blast
  have "map snd L = chunk_values (view (cs_store cs)) k"
    using prefix_values [where ko = False and L = L and k = k and m = "view (cs_store cs)"] i(5) assms(4) by (simp add: default_prefix)
  then have "get_loop (rw_it RW) s' i [] = Some (found (chunk_view (view (cs_store cs)) k))"
    using get_loop_iterates [OF i(4), of "[]"] by (auto simp: chunk_view_def split: list.splits)
  with i show ?thesis by (auto simp: chunk_Get_def)
qed

lemma chunk_Has_view:
  assumes "ok n (cs_store cs)" "k \<noteq> []" "\<not> all_ff k" "chunk_keys (length k) (view (cs_store cs))"
  shows "\<exists>cs'. chunk_Has RW cs (Some k) = Some (Inr (chunk_view (view (cs_store cs)) k \<noteq> None), cs') \<and>
    ok n (cs_store cs') \<and> view (cs_store cs') = view (cs_store cs)"
proof -
  let ?opts = "DefaultIterOptions\<lparr>Prefix := Some k, KeysOnly := True\<rparr>"
  have "bounded_prefix ?opts" "End ?opts \<noteq> Some []"
    using chunk_bounded [OF assms(2,3), of True] by (simp_all add: DefaultIterOptions_def)
  from iterator [OF assms(1) this] obtain i s' L where i: "rw_Iterator RW (cs_store cs) ?opts = (Inr i, s')"
    "ok n s'" "view s' = view (cs_store cs)" "iterates s' i L L" "lists (view (cs_store cs)) ?opts L" by blast
  have L: "map snd L = chunk_values (view (cs_store cs)) k" by (rule prefix_values [OF i(5) assms(4)])
  show ?thesis
  proof (cases L)
    case Nil
    with i next_end [of s' i L] L show ?thesis by (auto simp: chunk_Has_def chunk_view_def)
  next
    case (Cons e R)
    obtain k1 v1 where "e = (k1, v1)" by (cases e)
    with i Cons next_entry [of s' i L k1 v1 R] L show ?thesis
      by (auto simp: chunk_Has_def chunk_view_def dest: close split: list.splits)
  qed
qed

lemma set_loop_put:
  "ok (n + length cs) s \<Longrightarrow> unat b + length cs \<le> 256 \<Longrightarrow>
   \<exists>s'. set_loop RW s (Some (k @ [b])) cs = Some (None, s') \<and> ok n s' \<and> view s' = put_chunks k b (map Some cs) (view s)"
proof (induction cs arbitrary: s b)
  case (Cons c cs)
  obtain s1 where s1: "rw_Set RW s (Some (k @ [b])) (Some c) = Some (None, s1)" "ok (n + length cs) s1"
    "view s1 = (view s)(k @ [b] := Some (Some c))"
    using set [of "n + length cs" s "Some (k @ [b])" "Some c"] Cons.prems(1) by auto
  show ?case
  proof (cases cs)
    case Nil
    with s1 show ?thesis by (simp add: fun_upd_def)
  next
    case more: (Cons y ys)
    with Cons.prems(2) have "unat b + Suc (length cs) \<le> 256" "0 < length cs" by auto
    note b = byte_step [OF this]
    have "unat (b + 1) + length cs \<le> 256" using b(2) Cons.prems(2) by simp
    from Cons.IH [OF s1(2) this] s1 show ?thesis by (simp add: bytesPrefixEnd_snoc [OF b(1)] fun_upd_def)
  qed
qed auto

lemma chunk_Set_put:
  assumes "ok (n + length (pieces (cs_chunkSize cs) v)) (cs_store cs)" "0 < cs_chunkSize cs"
    and "length (pieces (cs_chunkSize cs) v) \<le> 256"
  shows "\<exists>cs'. chunk_Set RW cs (Some k) v = Some (None, cs') \<and> ok n (cs_store cs') \<and>
    cs_chunkSize cs' = cs_chunkSize cs \<and>
    view (cs_store cs') = put_chunks k 0 (pieces (cs_chunkSize cs) v) (view (cs_store cs))"
proof (cases "len v = 0")
  case True
  with assms(1) have "ok (Suc n) (cs_store cs)" by (simp add: pieces_def)
  from set [OF this, of "Some (k @ [0])" v] True show ?thesis
    by (auto simp: chunk_Set_def pieces_def Let_def fun_upd_def)
next
  case False
  with assms have "ok (n + length (chunks_of (nat (cs_chunkSize cs)) (contents v))) (cs_store cs)"
    "unat (0 :: byte) + length (chunks_of (nat (cs_chunkSize cs)) (contents v)) \<le> 256" by (auto simp: pieces_def)
  from set_loop_put [OF this, of k] False assms(2) show ?thesis
    by (auto simp: chunk_Set_def pieces_def Let_def)
qed

lemma delete_loop_view:
  "ok (n + length ks) s \<Longrightarrow> \<forall>k \<in> set ks. contents k \<noteq> [] \<Longrightarrow>
   \<exists>s'. delete_loop RW s ks = Some (None, s') \<and> ok n s' \<and>
     view s' = (\<lambda>k. if k \<in> contents ` set ks then None else view s k)"
proof (induction ks arbitrary: s)
  case (Cons k ks)
  obtain s1 where s1: "rw_Delete RW s k = Some (None, s1)" "ok (n + length ks) s1"
    "view s1 = (view s)(contents k := None)"
    using delete [of "n + length ks" s k] Cons.prems by auto
  from Cons.IH [OF s1(2)] Cons.prems(2) s1 show ?case by (auto simp: fun_eq_iff)
qed auto

lemma chunk_Delete_view:
  assumes "ok (n + 256) (cs_store cs)" "k \<noteq> []" "\<not> all_ff k" "chunk_keys (length k) (view (cs_store cs))"
  shows "\<exists>cs'. chunk_Delete RW cs (Some k) = Some (None, cs') \<and> ok n (cs_store cs') \<and>
    view (cs_store cs') = (\<lambda>k'. if bytes_HasPrefix k' k then None else view (cs_store cs) k')"
proof -
  let ?m = "view (cs_store cs)"
  let ?opts = "DefaultIterOptions\<lparr>Prefix := Some k, KeysOnly := True\<rparr>"
  have "bounded_prefix ?opts" "End ?opts \<noteq> Some []"
    using chunk_bounded [OF assms(2,3), of True] by (simp_all add: DefaultIterOptions_def)
  from iterator [OF assms(1) this] obtain i s' L where i: "rw_Iterator RW (cs_store cs) ?opts = (Inr i, s')"
    "ok (n + 256) s'" "view s' = ?m" "iterates s' i L L" "lists ?m ?opts L" by blast
  note entries = prefix_entries [OF i(5) assms(4)]
  have "length L \<le> 256" using arg_cong [OF entries, of length] length_filter_le [of _ all_bytes] by simp
  then have ok: "ok (n + length (map fst L)) s'" using ok_less [OF i(2)] by simp
  have "contents ` set (map fst L) = fst ` set (map (apfst contents) L)" by force
  also have "\<dots> = {k @ [b] |b. ?m (k @ [b]) \<noteq> None}" unfolding entries by (auto simp: image_image)
  finally have keys: "contents ` set (map fst L) = {k @ [b] |b. ?m (k @ [b]) \<noteq> None}" .
  have "\<forall>x \<in> set (map fst L). contents x \<noteq> []"
  proof
    fix x assume "x \<in> set (map fst L)"
    then have "contents x \<in> contents ` set (map fst L)" by (rule imageI)
    then show "contents x \<noteq> []" unfolding keys by auto
  qed
  from delete_loop_view [OF ok this] obtain s2 where s2: "delete_loop RW s' (map fst L) = Some (None, s2)" "ok n s2"
    "view s2 = (\<lambda>k'. if k' \<in> {k @ [b] |b. ?m (k @ [b]) \<noteq> None} then None else ?m k')"
    unfolding keys i(3) by blast
  obtain i' where i': "keys_loop (rw_it RW) s' i [] = Some (Inr (map fst L), i')" "fst (i_Close (rw_it RW) i') = None"
    using keys_loop_iterates [OF i(4), of "[]"] by auto
  have "(if k' \<in> {k @ [b] |b. ?m (k @ [b]) \<noteq> None} then None else ?m k') = (if bytes_HasPrefix k' k then None else ?m k')" for k'
  proof (cases "bytes_HasPrefix k' k")
    case True
    then obtain t where t: "k' = k @ t" by (auto simp: HasPrefix_iff)
    show ?thesis
    proof (cases "?m k'")
      case (Some v)
      with chunk_keysD [OF assms(4)] t have "length t = 1" by fastforce
      with t Some True show ?thesis by (auto simp: length_Suc_conv)
    qed simp
  qed (auto simp: HasPrefix_iff)
  with s2 i(1) i' show ?thesis by (auto simp: chunk_Delete_def)
qed

end

end
