(* ===== verification/Chunk_Iter.thy ===== *)
theory Chunk_Iter
  imports Chunk_Laws
begin

text \<open>
  Iterating over a chunk store, in either direction: consecutive chunks of one key are joined
  into one entry, in ascending order of the chunks also when the iteration is in reverse.
\<close>

definition chunk_of :: "nat \<Rightarrow> bytes \<Rightarrow> entry \<Rightarrow> bool" where
  "chunk_of n k e \<longleftrightarrow> take n (contents (fst e)) = k"

text \<open>The chunks seen before, with those met after them on the way.\<close>

definition gathered :: "bool \<Rightarrow> slice list \<Rightarrow> slice list \<Rightarrow> slice list" where
  "gathered rvs chunks vs = (if rvs then rev vs @ chunks else chunks @ vs)"

lemma gathered_simps [simp]:
  "gathered rvs (gathered rvs chunks [v]) vs = gathered rvs chunks (v # vs)" "gathered rvs chunks [] = chunks"
  by (simp_all add: gathered_def)

function group :: "bool \<Rightarrow> nat \<Rightarrow> entry list \<Rightarrow> entry list" where
  "group rvs n [] = []"
| "group rvs n (e # es) =
     (let k = take n (contents (fst e))
      in (Some k, bytes_Join (gathered rvs [] (map snd (e # takeWhile (chunk_of n k) es)))) #
         group rvs n (dropWhile (chunk_of n k) es))"
  by pat_completeness auto
termination
  by (relation "measure (\<lambda>(rvs, n, es). length es)") (auto simp: le_imp_less_Suc length_dropWhile_le)

text \<open>
  The chunk iterator with the entries of the inner one still to be joined.  Nothing is known
  of a reverse iterator past its end.
\<close>

definition joins ::
  "('s \<Rightarrow> 'i \<Rightarrow> entry list \<Rightarrow> entry list \<Rightarrow> bool) \<Rightarrow> ('i \<Rightarrow> bool) \<Rightarrow> bool \<Rightarrow> nat \<Rightarrow>
   's \<Rightarrow> 'i chunkIterator \<Rightarrow> entry list \<Rightarrow> bool" where
  "joins iterates forward rvs n s it R \<longleftrightarrow>
     Reverse (ci_opts it) = rvs \<and> ci_keyLen it = int n \<and> forward (ci_it it) = (\<not> rvs) \<and>
     (\<forall>e \<in> set R. length (contents (fst e)) = Suc n) \<and>
     (\<exists>L. if currentChunkKey it \<noteq> None
          then \<exists>R'. R = (currentChunkKey it, currentChunk it) # R' \<and> iterates s (ci_it it) L R'
          else iterates s (ci_it it) L R \<and> (currentKey it = None \<or> R = []) \<or> rvs \<and> R = [])"

lemma HasPrefix_take:
  assumes "length a = Suc n" "length b = Suc n"
  shows "bytes_HasPrefix a (take n b) \<longleftrightarrow> take n a = take n b"
proof
  assume "bytes_HasPrefix a (take n b)"
  with assms show "take n a = take n b" by (auto simp: HasPrefix_iff)
next
  assume "take n a = take n b"
  then have "a = take n b @ drop n a" by (metis append_take_drop_id)
  then show "bytes_HasPrefix a (take n b)" by (auto simp: HasPrefix_iff)
qed

lemma slice_to_key:
  "length (contents k) = Suc n \<Longrightarrow> slice_to k (int n) = Inr (Some (take n (contents k)))"
  by (cases k) (auto simp: slice_to_def)

lemma chunk_key_split: "length (x :: bytes) = Suc n \<Longrightarrow> \<exists>b. x = take n x @ [b]"
  by (cases x rule: rev_cases) auto

lemma key_not_nil: "length (contents k) = Suc n \<Longrightarrow> k \<noteq> None"
  by (cases k) auto

text \<open>Taking the chunk that was read ahead.\<close>

lemma ci_take_pending:
  assumes "ci_keyLen it = int n" "length (contents (currentChunkKey it)) = Suc n"
  shows "ci_take it chunks = Inr (gathered (Reverse (ci_opts it)) chunks [currentChunk it],
    it\<lparr>currentKey := Some (take n (contents (currentChunkKey it))), currentChunkKey := None, currentChunk := None\<rparr>)"
  using assms key_not_nil [OF assms(2)] slice_to_key [OF assms(2)] by (simp add: ci_take_def gathered_def)

context kv_iterator
begin

text \<open>One step of the loop with a chunk read ahead.\<close>

lemma ci_loop_pending:
  assumes "iterates s (ci_it it) L R" "Reverse (ci_opts it) = rvs" "ci_keyLen it = int n" "forward (ci_it it) = (\<not> rvs)"
    and "currentChunkKey it = k" "currentChunk it = v" "length (contents k) = Suc n"
    and "\<forall>e \<in> set R. length (contents (fst e)) = Suc n"
  shows "\<exists>it'. ci_loop I s chunks it = Some (Inr True, it') \<and>
    currentKey it' = Some (take n (contents k)) \<and>
    currentValue it' = bytes_Join (gathered rvs chunks (v # map snd (takeWhile (chunk_of n (take n (contents k))) R))) \<and>
    joins iterates forward rvs n s it' (dropWhile (chunk_of n (take n (contents k))) R)"
  using assms
proof (induction R arbitrary: it chunks k v)
  case Nil
  let ?it = "it\<lparr>currentKey := Some (take n (contents k)), currentChunkKey := None, currentChunk := None\<rparr>"
  have take: "ci_take it chunks = Inr (gathered rvs chunks [v], ?it)"
    using ci_take_pending [of it n chunks] Nil.prems by simp
  obtain i' where i': "i_Next I s (ci_it it) = Some (Inr False, i')" "forward i' = (\<not> rvs)" "\<not> rvs \<longrightarrow> iterates s i' L []"
    using next_end [OF Nil.prems(1)] Nil.prems(4) by auto
  have "ci_loop I s chunks it = Some (ci_finish (gathered rvs chunks [v]) (?it\<lparr>ci_it := i'\<rparr>))"
    by (subst ci_loop.simps) (simp add: take i')
  moreover have "length (gathered rvs chunks [v]) \<noteq> 0" by (simp add: gathered_def)
  ultimately show ?case using Nil.prems i' by (auto simp: ci_finish_def joins_def)
next
  case (Cons e R)
  obtain k1 v1 where e: "e = (k1, v1)" by (cases e)
  have k1: "length (contents k1) = Suc n" using Cons.prems(8) e by simp
  note k1 = k1 key_not_nil [OF k1]
  let ?it = "it\<lparr>currentKey := Some (take n (contents k)), currentChunkKey := None, currentChunk := None\<rparr>"
  have take: "ci_take it chunks = Inr (gathered rvs chunks [v], ?it)"
    using ci_take_pending [of it n chunks] Cons.prems by simp
  obtain i' where i': "i_Next I s (ci_it it) = Some (Inr True, i')" "forward i' = (\<not> rvs)"
    "i_Key I i' = Inr k1" "i_Value I i' = Inr v1" "iterates s i' L R"
    using next_entry [of s "ci_it it" L k1 v1 R] Cons.prems(1,4) e by auto
  let ?it2 = "?it\<lparr>ci_it := i', currentChunkKey := k1, currentChunk := v1\<rparr>"
  have loop: "ci_loop I s chunks it =
      (if take n (contents k1) = take n (contents k) then ci_loop I s (gathered rvs chunks [v]) ?it2
       else Some (ci_finish (gathered rvs chunks [v]) ?it2))"
    by (subst ci_loop.simps) (simp add: take i' HasPrefix_take [OF k1(1) Cons.prems(7)])
  show ?case
  proof (cases "take n (contents k1) = take n (contents k)")
    case True
    with Cons.IH [of ?it2 k1 v1 "gathered rvs chunks [v]"] Cons.prems i' k1 loop e show ?thesis
      by (auto simp: chunk_of_def)
  next
    case False
    have "length (gathered rvs chunks [v]) \<noteq> 0" by (simp add: gathered_def)
    with False loop Cons.prems i' k1 e show ?thesis by (auto simp: chunk_of_def ci_finish_def joins_def)
  qed
qed

lemma ci_Next_joins:
  assumes j: "joins iterates forward rvs n s it R"
  shows "case group rvs n R of
      [] \<Rightarrow> \<not> rvs \<longrightarrow> (\<exists>it'. ci_Next I s it = Some (Inr False, it'))
    | (k, v) # _ \<Rightarrow> \<exists>it' R'. ci_Next I s it = Some (Inr True, it') \<and> ci_Key it' = Inr k \<and> ci_Value it' = Inr v \<and>
        group rvs n R = (k, v) # group rvs n R' \<and> joins iterates forward rvs n s it' R'"
proof (cases "currentChunkKey it = None")
  case True
  have take: "ci_take it [] = Inr ([], it)" using True by (simp add: ci_take_def)
  show ?thesis
  proof (cases R)
    case Nil
    show ?thesis
    proof (cases rvs)
      case False
      with True j Nil obtain L where "iterates s (ci_it it) L []" by (auto simp: joins_def)
      with next_end obtain i' where "i_Next I s (ci_it it) = Some (Inr False, i')" by blast
      with Nil show ?thesis unfolding ci_Next_def
        by (subst ci_loop.simps) (simp add: take ci_finish_def)
    qed (simp add: Nil)
  next
    case (Cons e R1)
    with True j obtain L where it: "iterates s (ci_it it) L R" "currentKey it = None" "forward (ci_it it) = (\<not> rvs)"
      "Reverse (ci_opts it) = rvs" "ci_keyLen it = int n" "\<forall>e \<in> set R. length (contents (fst e)) = Suc n"
      by (auto simp: joins_def)
    obtain k1 v1 where e: "e = (k1, v1)" by (cases e)
    with Cons it obtain i' where i': "i_Next I s (ci_it it) = Some (Inr True, i')" "forward i' = (\<not> rvs)"
      "i_Key I i' = Inr k1" "i_Value I i' = Inr v1" "iterates s i' L R1"
      using next_entry [of s "ci_it it" L k1 v1 R1] by auto
    let ?it = "it\<lparr>ci_it := i', currentChunkKey := k1, currentChunk := v1\<rparr>"
    have "ci_Next I s it = ci_loop I s [] ?it"
      unfolding ci_Next_def using it(2) by (subst ci_loop.simps) (simp add: take i')
    with ci_loop_pending [of s ?it L R1 rvs n k1 v1 "[]"] it i' Cons e show ?thesis
      by (auto simp: ci_Key_def ci_Value_def Let_def)
  qed
next
  case False
  with j have it: "forward (ci_it it) = (\<not> rvs)" "Reverse (ci_opts it) = rvs" "ci_keyLen it = int n"
    "\<forall>e \<in> set R. length (contents (fst e)) = Suc n"
    and "\<exists>L R1. R = (currentChunkKey it, currentChunk it) # R1 \<and> iterates s (ci_it it) L R1"
    by (simp_all add: joins_def)
  then obtain L R1 where R: "R = (currentChunkKey it, currentChunk it) # R1" "iterates s (ci_it it) L R1" by blast
  with it ci_loop_pending [OF R(2), of rvs n "currentChunkKey it" "currentChunk it" "[]"] show ?thesis
    by (auto simp: ci_Next_def ci_Key_def ci_Value_def Let_def)
qed

text \<open>The joined entries are met one by one; a forward iterator then reports its end.\<close>

lemma visits_joins:
  assumes "joins iterates forward rvs n s it R"
  shows "\<exists>it'. visits (length (group rvs n R)) (chunk_IteratorOps I) s it = Some (Inr (group rvs n R), it')"
    "\<not> rvs \<Longrightarrow> \<exists>it'. collect (chunk_IteratorOps I) s it = Some (Inr (group rvs n R), it')"
proof -
  have "(\<exists>it'. visits (length (group rvs n R)) (chunk_IteratorOps I) s it = Some (Inr (group rvs n R), it')) \<and>
    (\<not> rvs \<longrightarrow> (\<exists>it'. collect (chunk_IteratorOps I) s it = Some (Inr (group rvs n R), it')))"
    using assms
  proof (induction "group rvs n R" arbitrary: it R)
    case Nil
    from ci_Next_joins [OF Nil.prems] Nil.hyps show ?case
      by (subst collect.simps) (auto simp: chunk_IteratorOps_def)
  next
    case (Cons e es)
    obtain k v where e: "e = (k, v)" by (cases e)
    from ci_Next_joins [OF Cons.prems] Cons.hyps(2) e obtain it' R' where
      n: "ci_Next I s it = Some (Inr True, it')" "ci_Key it' = Inr k" "ci_Value it' = Inr v"
        "group rvs n R = (k, v) # group rvs n R'" "joins iterates forward rvs n s it' R'" by (auto split: list.splits)
    then have es: "es = group rvs n R'" using Cons.hyps(2) e by simp
    from Cons.hyps(1) [OF es n(5)] n show ?case
      by (subst collect.simps) (auto simp: chunk_IteratorOps_def)
  qed
  then show "\<exists>it'. visits (length (group rvs n R)) (chunk_IteratorOps I) s it = Some (Inr (group rvs n R), it')"
    "\<not> rvs \<Longrightarrow> \<exists>it'. collect (chunk_IteratorOps I) s it = Some (Inr (group rvs n R), it')" by blast+
qed

end

subsection \<open>Grouping sorted chunks\<close>

lemma take_mono: "(a :: bytes) < b \<Longrightarrow> take n a \<le> take n b"
proof (induction n arbitrary: a b)
  case (Suc n)
  then show ?case by (cases a; cases b) (auto simp: le_less)
qed simp

lemma take_dle: "dless rvs a b \<Longrightarrow> dle rvs (take n a) (take n b)"
  using take_mono [of a b n] take_mono [of b a n] by (cases rvs) (auto simp: dle_def le_less)

lemma dle_antisym: "dle rvs a b \<Longrightarrow> dle rvs b a \<Longrightarrow> a = b"
  by (cases rvs) (auto simp: dle_def)

lemma group_keys: "x \<in> set (group rvs n R) \<Longrightarrow> \<exists>e \<in> set R. fst x = Some (take n (contents (fst e)))"
  by (induction rvs n R rule: group.induct) (auto simp: Let_def dest: set_dropWhileD)

lemma group_split:
  assumes "in_order rvs (e # es)" "k = take n (contents (fst e))"
  shows "takeWhile (chunk_of n k) es = filter (chunk_of n k) es"
    "dropWhile (chunk_of n k) es = filter (\<lambda>x. \<not> chunk_of n k x) es"
    "\<And>x. x \<in> set (dropWhile (chunk_of n k) es) \<Longrightarrow> dless rvs k (take n (contents (fst x)))"
proof -
  let ?R = "\<lambda>x y. dle rvs k (take n (contents (fst x))) \<and> dle rvs (take n (contents (fst x))) (take n (contents (fst y)))"
  have ge: "dle rvs k (take n (contents (fst x)))" if "x \<in> set es" for x
    using assms that by (auto intro: take_dle)
  have R: "sorted_wrt ?R es"
    by (rule sorted_wrt_mono_rel [of _ "\<lambda>a b. dless rvs (contents (fst a)) (contents (fst b))"])
      (use assms ge in \<open>auto intro: take_dle\<close>)
  have keep: "chunk_of n k x" if "?R x y" "chunk_of n k y" for x y
    using that dle_antisym [of rvs k "take n (contents (fst x))"] by (auto simp: chunk_of_def)
  show "takeWhile (chunk_of n k) es = filter (chunk_of n k) es"
    by (rule takeWhile_eq_filter_sorted [OF R]) (use keep in blast)
  show d: "dropWhile (chunk_of n k) es = filter (\<lambda>x. \<not> chunk_of n k x) es"
    by (rule dropWhile_eq_filter_sorted [OF R]) (use keep in blast)
  fix x assume "x \<in> set (dropWhile (chunk_of n k) es)"
  then have "x \<in> set es" "take n (contents (fst x)) \<noteq> k" by (auto simp: d chunk_of_def)
  with ge [of x] show "dless rvs k (take n (contents (fst x)))" by (auto simp: dle_def)
qed

lemma group_map:
  "in_order rvs R \<Longrightarrow> in_order rvs (group rvs n R) \<and> map_of (map (apfst contents) (group rvs n R)) k =
     (case filter (chunk_of n k) R of [] \<Rightarrow> None | es \<Rightarrow> Some (bytes_Join (gathered rvs [] (map snd es))))"
proof (induction rvs n R rule: group.induct)
  case (2 rvs n e es)
  define k0 where "k0 = take n (contents (fst e))"
  define rest where "rest = dropWhile (chunk_of n k0) es"
  note split = group_split [OF 2(2) k0_def]
  have asc: "in_order rvs rest"
    unfolding rest_def split(2) using 2(2) by (auto intro: sorted_wrt_filter)
  have IH: "in_order rvs (group rvs n rest)" "map_of (map (apfst contents) (group rvs n rest)) k =
      (case filter (chunk_of n k) rest of [] \<Rightarrow> None | es \<Rightarrow> Some (bytes_Join (gathered rvs [] (map snd es))))"
    using 2(1) [OF k0_def] asc by (simp_all add: rest_def)
  have g: "group rvs n (e # es) = (Some k0, bytes_Join (gathered rvs [] (map snd (e # filter (chunk_of n k0) es)))) # group rvs n rest"
    using split(1) by (simp add: k0_def rest_def Let_def)
  have above: "dless rvs k0 (contents (fst x))" if "x \<in> set (group rvs n rest)" for x
    using group_keys [OF that] split(3) by (auto simp: rest_def)
  have "filter (chunk_of n k) rest = filter (chunk_of n k) es" if "k \<noteq> k0"
    unfolding rest_def split(2) filter_filter using that by (intro filter_cong) (auto simp: chunk_of_def)
  moreover have "chunk_of n k e \<longleftrightarrow> k = k0" by (auto simp: chunk_of_def k0_def)
  ultimately show ?case using g IH above by auto
qed simp

subsection \<open>The entries asked for\<close>

lemma append_less_iff: "length (a :: bytes) \<le> length k \<Longrightarrow> k @ x < a \<longleftrightarrow> k < a"
proof (induction k arbitrary: a)
  case (Cons c k)
  then show ?case by (cases a) auto
qed simp

text \<open>Bounds no longer than the keys do not cut the chunks of a key apart.\<close>

definition whole_bounds :: "nat \<Rightarrow> IterOptions \<Rightarrow> bool" where
  "whole_bounds n opts \<longleftrightarrow> len (Prefix opts) \<le> n \<and> len (Start opts) \<le> n \<and> len (End opts) \<le> n"

lemma wanted_chunk:
  assumes "whole_bounds n opts" "length k = n"
  shows "wanted opts (k @ [b]) = wanted opts k"
proof (cases "Prefix opts")
  case None
  have "contents (Start opts) \<le> k @ [b] \<longleftrightarrow> contents (Start opts) \<le> k" "k @ [b] < contents (End opts) \<longleftrightarrow> k < contents (End opts)"
    using append_less_iff [of "contents (Start opts)" k "[b]"] append_less_iff [of "contents (End opts)" k "[b]"] assms
    by (auto simp: whole_bounds_def len_def not_less [symmetric])
  with None show ?thesis by (simp add: wanted_def)
next
  case (Some p)
  with assms have "length p \<le> length k" by (simp add: whole_bounds_def len_def)
  with Some show ?thesis by (auto simp: wanted_def HasPrefix_iff append_eq_append_conv2 append_eq_Cons_conv)
qed

lemma filter_lists:
  assumes "lists m opts L" and "\<And>k'. bytes_HasPrefix k' k \<Longrightarrow> m k' \<noteq> None \<Longrightarrow> wanted opts k'"
  shows "lists m (DefaultIterOptions\<lparr>Prefix := Some k, KeysOnly := False\<rparr>)
    ((if Reverse opts then rev else id) (filter (\<lambda>e. bytes_HasPrefix (contents (fst e)) k) L))"
proof -
  let ?F = "filter (\<lambda>e. bytes_HasPrefix (contents (fst e)) k) L" and ?d = "if Reverse opts then rev else id"
  have L: "in_order (Reverse opts) L" and map: "map_of (map (apfst contents) L) k' = (if wanted opts k' then m k' else None)" for k'
    using assms(1) by (auto simp: lists_def)
  have "in_order (Reverse opts) ?F" using L by (rule sorted_wrt_filter)
  then have asc: "ascending (?d ?F)" by (cases "Reverse opts") (simp_all add: sorted_wrt_rev)
  have set: "set (?d ?F) = set ?F" by simp
  have "map_of (map (apfst contents) (?d ?F)) k' = Some v \<longleftrightarrow> (if bytes_HasPrefix k' k then m k' else None) = Some v" for k' v
  proof -
    have "map_of (map (apfst contents) (?d ?F)) k' = Some v \<longleftrightarrow>
        bytes_HasPrefix k' k \<and> (\<exists>e \<in> set L. contents (fst e) = k' \<and> snd e = v)"
      unfolding map_of_ascending [OF asc, of k' v] set by force
    also have "\<dots> \<longleftrightarrow> (if bytes_HasPrefix k' k then m k' else None) = Some v"
      using map_of_in_order [OF L, of k' v] map [of k'] assms(2) [of k'] by (auto split: if_splits)
    finally show ?thesis .
  qed
  then have "map_of (map (apfst contents) (?d ?F)) k' = (if bytes_HasPrefix k' k then m k' else None)" for k' by (rule option_ext)
  with asc show ?thesis by (simp add: lists_def wanted_def DefaultIterOptions_def)
qed

lemma group_chunk_view:
  assumes L: "lists m opts L" and keys: "chunk_keys n m" and bounds: "whole_bounds n opts"
  shows "lists (\<lambda>k. if length k = n then chunk_view m k else None) opts (group (Reverse opts) n L)"
    "\<forall>e \<in> set L. length (contents (fst e)) = Suc n"
proof -
  have ord: "in_order (Reverse opts) L" using L by (simp add: lists_def)
  have entry: "m (contents (fst e)) = Some (snd e) \<and> wanted opts (contents (fst e))" if "e \<in> set L" for e
    using that map_of_in_order [OF ord, of "contents (fst e)" "snd e"] L by (auto simp: lists_def split: if_splits)
  show len: "\<forall>e \<in> set L. length (contents (fst e)) = Suc n" using entry chunk_keysD [OF keys] by blast
  have map: "map_of (map (apfst contents) (group (Reverse opts) n L)) k =
      (if wanted opts k then if length k = n then chunk_view m k else None else None)" for k
  proof (cases "length k = n \<and> wanted opts k")
    case True
    have wanted: "wanted opts k'" if "bytes_HasPrefix k' k" "m k' \<noteq> None" for k'
    proof -
      from that obtain t where t: "k' = k @ t" by (auto simp: HasPrefix_iff)
      with that(2) chunk_keysD [OF keys, of k'] True obtain b where "t = [b]" by (auto simp: length_Suc_conv)
      with t wanted_chunk [OF bounds] True show ?thesis by simp
    qed
    have F: "filter (chunk_of n k) L = filter (\<lambda>e. bytes_HasPrefix (contents (fst e)) k) L"
    proof (rule filter_cong [OF refl])
      fix e assume "e \<in> set L"
      with len have "length (contents (fst e)) = Suc n" by blast
      with True show "chunk_of n k e = bytes_HasPrefix (contents (fst e)) k"
        by (auto simp: chunk_of_def HasPrefix_iff) (metis append_take_drop_id)
    qed
    have "gathered (Reverse opts) [] (map snd (filter (chunk_of n k) L)) = chunk_values m k"
      using prefix_values [OF filter_lists [OF L wanted]] True keys by (cases "Reverse opts") (auto simp: F gathered_def rev_map)
    then show ?thesis
      using group_map [OF ord, of n k] True by (cases "filter (chunk_of n k) L"; cases "Reverse opts") (auto simp: chunk_view_def gathered_def split: list.splits)
  next
    case False
    have "\<not> chunk_of n k e" if "e \<in> set L" for e
    proof
      assume "chunk_of n k e"
      then have t: "take n (contents (fst e)) = k" by (simp add: chunk_of_def)
      have l: "length (contents (fst e)) = Suc n" using len that by blast
      obtain b where b: "contents (fst e) = k @ [b]" using chunk_key_split [OF l] unfolding t by blast
      with l have "length k = n" by simp
      with b entry [OF that] wanted_chunk [OF bounds, of k b] False show False by simp
    qed
    then have "filter (chunk_of n k) L = []" by (simp add: filter_empty_conv)
    with group_map [OF ord, of n k] False show ?thesis by auto
  qed
  with group_map [OF ord, of n] show "lists (\<lambda>k. if length k = n then chunk_view m k else None) opts (group (Reverse opts) n L)"
    by (simp add: lists_def)
qed

context kv_store
begin

lemma chunk_iteration:
  assumes "ok j (cs_store cs)" "cs_keyLen cs = int n" "chunk_keys n (view (cs_store cs))"
    and "bounded_prefix opts" "End opts \<noteq> Some []" "whole_bounds n opts"
  shows "\<exists>it cs' L it'. chunk_Iterator RW cs opts = (Inr it, cs') \<and> ok j (cs_store cs') \<and>
    view (cs_store cs') = view (cs_store cs) \<and>
    lists (\<lambda>k. if length k = n then chunk_view (view (cs_store cs)) k else None) opts L \<and>
    visits (length L) (chunk_IteratorOps (rw_it RW)) (cs_store cs') it = Some (Inr L, it') \<and>
    (\<not> Reverse opts \<longrightarrow> (\<exists>it''. collect (chunk_IteratorOps (rw_it RW)) (cs_store cs') it = Some (Inr L, it'')))"
proof -
  from iterator [OF assms(1,4,5)] obtain i s' L where i: "rw_Iterator RW (cs_store cs) opts = (Inr i, s')"
    "ok j s'" "view s' = view (cs_store cs)" "iterates s' i L L" "forward i = (\<not> Reverse opts)" "lists (view (cs_store cs)) opts L"
    by blast
  let ?it = "\<lparr>ci_it = i, ci_opts = opts, ci_keyLen = cs_keyLen cs, currentKey = None,
    currentValue = None, currentChunk = None, currentChunkKey = None\<rparr>"
  note g = group_chunk_view [OF i(6) assms(3,6)]
  have "joins iterates forward (Reverse opts) n s' ?it L"
    using i(4,5) assms(2) g(2) by (auto simp: joins_def)
  from visits_joins [OF this] i(1-3) g(1) show ?thesis
    by (fastforce simp: chunk_Iterator_def)
qed

end

end
