(* ===== verification/Wrap_Props.thy ===== *)
theory Wrap_Props
  imports Mem_RW Namespace Chunk_Iter
begin

text \<open>
  The properties of the two wrappers, over any store that meets the contract \<open>kv_store\<close>, and
  their instances on the in-memory store.
\<close>

interpretation ns_list_store: kv_store "Wrap (mem_RW lB lT clock) (Some [1])"
    "ns_iterates (mem_iterates lI fst (\<lambda>i. fst (snd i))) (Some [1])" "\<lambda>i. \<not> iter_reverse (ni_it i)"
    "\<lambda>i k. mem_seekable lI (ni_it i) (prefixed (ni_namespace i) k)" "mem_ok lI"
    "\<lambda>s k. store_view lI s (contents (Some [1]) @ k)"
  for clock
  by (rule kv_store.namespace_kv_store [OF mem_list_store.kv_store_axioms]) (simp add: all_ff_def)

abbreviation mRW :: "((dsItem list, dsTxn list) Datastore, (dsItem list, dsItem list_iter) iterator) ReaderWriter" where
  "mRW \<equiv> mem_RW lB lT (\<lambda>_. (0, 0))"

lemma sample_ok: "n < 1000 \<Longrightarrow> mem_ok lI n sample_store"
  by (simp add: sample_defs run_defs)

lemmas mRW_store = mem_list_store.kv_store_axioms [of "\<lambda>_. (0, 0)"]
lemmas mRW_map = mem_list.mem_kv_map [of "\<lambda>_. (0, 0)"]

subsection \<open>Namespaces\<close>

text \<open>
  C26.  A write through a namespace, over any store whose reads and writes are those of a map,
  sets exactly the key with the prefix in front: it succeeds, reading the key through the
  namespace gives the value as the wrapped store keeps it, and the wrapped store is
  otherwise unchanged.
\<close>

theorem namespace_set_then_get:
  assumes "kv_map RW ok model accepts stored" and "ok (Suc n) s" "len k \<noteq> 0" "accepts (prefixed ns k) v"
  shows "\<exists>s' s''. rw_Set (Wrap RW ns) s k v = Some (None, s') \<and>
    rw_Get (Wrap RW ns) s' k = Some (Inr (stored v), s'') \<and>
    model s' = (model s)(contents ns @ contents k := Some (stored v))"
proof -
  have k: "contents (prefixed ns k) \<noteq> []" using assms(3) by (simp add: len_0_iff)
  obtain s' where s': "rw_Set RW s (prefixed ns k) v = Some (None, s')" "ok n s'"
    "model s' = (model s)(contents (prefixed ns k) := Some (stored v))"
    using kv_map.put [OF assms(1,2) k assms(4)] by blast
  obtain s'' where "rw_Get RW s' (prefixed ns k) = Some (found (model s' (contents (prefixed ns k))), s'')"
    using kv_map.get [OF assms(1) s'(2) k] by blast
  with s' assms(3) show ?thesis by (simp add: Wrap_def ns_Set_def ns_Get_def)
qed

theorem namespace_set_then_get_witness:
  "\<exists>d' d''. rw_Set (Wrap mRW (Some [1])) sample_store (Some [2]) (Some [9]) = Some (None, d') \<and>
    rw_Get (Wrap mRW (Some [1])) d' (Some [2]) = Some (Inr (Some [9]), d'') \<and>
    store_view lI d' = (store_view lI sample_store)([1, 2] := Some (Some [9]))"
proof -
  have "mem_ok lI (Suc 0) sample_store" by (rule sample_ok) simp
  from namespace_set_then_get [OF mRW_map this, where k = "Some [2]" and ns = "Some [1]" and v = "Some [9]"]
  show ?thesis by simp
qed

text \<open>
  C27.  Namespaces over any store whose reads and writes are those of a map are isolated:
  when neither of two prefixes is a prefix of the other, no write or delete through one
  changes what is read through the other.
\<close>

theorem namespaces_isolated:
  assumes "kv_map RW ok model accepts stored" and "ok (Suc n) s" "len k \<noteq> 0" "len k' \<noteq> 0"
    and "accepts (prefixed p k) v" "accepts (prefixed p k) None"
    and "\<not> bytes_HasPrefix (contents p) (contents q)" "\<not> bytes_HasPrefix (contents q) (contents p)"
  shows "\<exists>s1 s2. rw_Set (Wrap RW p) s k v = Some (None, s1) \<and> rw_Delete (Wrap RW p) s k = Some (None, s2) \<and>
    map_option fst (rw_Get (Wrap RW q) s1 k') = map_option fst (rw_Get (Wrap RW q) s k') \<and>
    map_option fst (rw_Get (Wrap RW q) s2 k') = map_option fst (rw_Get (Wrap RW q) s k')"
proof -
  have ne: "contents (prefixed p k) \<noteq> []" "contents (prefixed q k') \<noteq> []" using assms(3,4) by (auto simp: len_0_iff)
  obtain s1 where s1: "rw_Set RW s (prefixed p k) v = Some (None, s1)" "ok n s1"
    "model s1 = (model s)(contents (prefixed p k) := Some (stored v))"
    using kv_map.put [OF assms(1,2) ne(1) assms(5)] by blast
  obtain s2 where s2: "rw_Delete RW s (prefixed p k) = Some (None, s2)" "ok n s2"
    "model s2 = (model s)(contents (prefixed p k) := None)"
    using kv_map.remove [OF assms(1,2) ne(1) assms(6)] by blast
  have differ: "contents q @ contents k' \<noteq> contents p @ contents k"
    using assms(7,8) by (metis HasPrefix_iff append_eq_append_conv2)
  have get: "map_option fst (rw_Get RW t (prefixed q k')) = Some (found (model t (contents (prefixed q k'))))"
    if "ok m t" for m t using kv_map.get [OF assms(1) that ne(2)] by auto
  from s1(1) s2(1) get [OF s1(2)] get [OF s2(2)] get [OF assms(2)] assms(3,4) differ show ?thesis
    by (auto simp: Wrap_def ns_Set_def ns_Delete_def ns_Get_def s1(3) s2(3))
qed

theorem namespaces_isolated_witness:
  "\<exists>d' d''. rw_Set (Wrap mRW (Some [1])) sample_store (Some [2]) (Some [9]) = Some (None, d') \<and>
    rw_Delete (Wrap mRW (Some [1])) sample_store (Some [2]) = Some (None, d'') \<and>
    map_option fst (rw_Get (Wrap mRW (Some [3])) d' (Some [2])) = map_option fst (rw_Get (Wrap mRW (Some [3])) sample_store (Some [2]))"
proof -
  have "mem_ok lI (Suc 0) sample_store" by (rule sample_ok) simp
  from namespaces_isolated [OF mRW_map this, where k = "Some [2]" and k' = "Some [2]" and p = "Some [1]" and q = "Some [3]" and v = "Some [9]"]
  show ?thesis by auto
qed

text \<open>
  C17.  Iterating through a namespace lists the namespace: over a store that meets \<open>kv_store\<close>, for a
  namespace that is neither empty nor made of \<^verbatim>\<open>0xff\<close> bytes, a prefix that is not made of such
  bytes and an end that is not an empty slice other than nil, the entries are exactly those of
  the wrapped store whose key has the namespace in front and whose rest the options ask for, in
  the order of the direction, with the namespace cut off; keys outside the namespace never
  appear.  A key equal to \<^verbatim>\<open>Prefix\<close> is among those asked for, against the comment in \<^verbatim>\<open>kv.go\<close>.
\<close>

theorem namespace_iteration:
  assumes "kv_store RW iterates forward seekable ok model" and "ok n s"
    and "\<not> all_ff (contents ns)" "bounded_prefix opts" "End opts \<noteq> Some []"
  shows "\<exists>i s' L i'. rw_Iterator (Wrap RW ns) s opts = (Inr i, s') \<and>
    collect (rw_it (Wrap RW ns)) s' i = Some (Inr L, i') \<and> lists (\<lambda>k. model s (contents ns @ k)) opts L"
proof -
  note laws = kv_store.namespace_kv_store [OF assms(1,3)]
  obtain i s' L where i: "rw_Iterator (Wrap RW ns) s opts = (Inr i, s')" "ns_iterates iterates ns s' i L L"
    "lists (\<lambda>k. model s (contents ns @ k)) opts L"
    using kv_store.iterator [OF laws assms(2,4,5)] by blast
  from kv_iterator.collect_iterates [OF kv_store.axioms(1) [OF laws] i(2)] i show ?thesis by blast
qed

theorem namespace_iteration_witness:
  "\<exists>i d' L i'. rw_Iterator (Wrap mRW (Some [1])) (sample_store\<lparr>ds_values := [row [1, 2] 1 [7]]\<rparr>) DefaultIterOptions = (Inr i, d') \<and>
    collect (rw_it (Wrap mRW (Some [1]))) d' i = Some (Inr L, i') \<and>
    map_of (map (apfst contents) L) [2] = Some (Some [7])"
proof -
  let ?d = "sample_store\<lparr>ds_values := [row [1, 2] 1 [7]]\<rparr>"
  have "mem_ok lI 0 ?d" "store_view lI ?d [1, 2] = Some (Some [7])" by (simp_all add: sample_defs run_defs)
  moreover have "bounded_prefix DefaultIterOptions" "End DefaultIterOptions \<noteq> Some []" "wanted DefaultIterOptions [2]"
    by (simp_all add: run_defs)
  ultimately show ?thesis
    using namespace_iteration [OF mRW_store, of 0 ?d "Some [1]" DefaultIterOptions]
    by (force simp: lists_def all_ff_def)
qed

text \<open>
  Namespaces nest: a namespace inside a namespace reads and writes like the single
  namespace of the concatenated prefixes.
\<close>

lemma nested_namespaces:
  "rw_Get (Wrap (Wrap RW p) q) = rw_Get (Wrap RW (prefixed p q)) \<and>
   rw_Has (Wrap (Wrap RW p) q) = rw_Has (Wrap RW (prefixed p q)) \<and>
   rw_Set (Wrap (Wrap RW p) q) = rw_Set (Wrap RW (prefixed p q)) \<and>
   rw_Delete (Wrap (Wrap RW p) q) = rw_Delete (Wrap RW (prefixed p q))"
proof -
  have "prefixed p (prefixed q k) = prefixed (prefixed p q) k" for k by (simp add: prefixed_def cp_def)
  moreover have "len (prefixed q k) = 0 \<longleftrightarrow> len q = 0 \<and> len k = 0" for k by (simp add: len_def)
  ultimately show ?thesis
    by (auto simp: Wrap_def ns_Get_def ns_Has_def ns_Set_def ns_Delete_def fun_eq_iff)
qed

subsection \<open>Chunks\<close>

text \<open>
  C16.  Chunked values survive the round trip.  Over a store that meets \<open>kv_store\<close>, has room for
  the writes and holds chunks of keys of one length, for a key of that length that is not made
  of \<^verbatim>\<open>0xff\<close> bytes, a value of at most 256 chunks that is not shorter in chunks than the one it
  replaces is written and read back whole, whatever the chunk size, and no other key changes.
  (For a key of \<^verbatim>\<open>0xff\<close> bytes see \<open>chunk_ff_key_lost\<close>.)
\<close>

theorem chunk_set_then_get:
  assumes "kv_store RW iterates forward seekable ok model"
    and "ok (n + length (pieces (cs_chunkSize cs) v)) (cs_store cs)"
    and "k \<noteq> []" "\<not> all_ff k" "chunk_keys (length k) (model (cs_store cs))"
    and "0 < cs_chunkSize cs" "length (pieces (cs_chunkSize cs) v) \<le> 256"
    and stale: "\<forall>b. length (pieces (cs_chunkSize cs) v) \<le> unat b \<longrightarrow> model (cs_store cs) (k @ [b]) = None"
  shows "\<exists>cs1 w cs2. chunk_Set RW cs (Some k) v = Some (None, cs1) \<and>
    chunk_Get RW cs1 (Some k) = Some (Inr w, cs2) \<and> contents w = contents v \<and>
    chunk_keys (length k) (model (cs_store cs1)) \<and>
    (\<forall>k'. k' \<noteq> k \<longrightarrow> chunk_view (model (cs_store cs1)) k' = chunk_view (model (cs_store cs)) k')"
proof -
  let ?m = "model (cs_store cs)" and ?p = "pieces (cs_chunkSize cs) v"
  obtain cs1 where cs1: "chunk_Set RW cs (Some k) v = Some (None, cs1)" "ok n (cs_store cs1)"
    "model (cs_store cs1) = put_chunks k 0 ?p ?m"
    using kv_store.chunk_Set_put [OF assms(1,2,6,7)] by blast
  obtain w where w: "chunk_view (put_chunks k 0 ?p ?m) k = Some w" "contents w = contents v"
    using chunk_view_put [OF assms(7) pieces_ne [OF assms(6)]] stale concat_pieces [OF assms(6)] by metis
  have keys: "chunk_keys (length k) (put_chunks k 0 ?p ?m)"
    unfolding chunk_keys_def
  proof (intro allI impI)
    fix k' assume "put_chunks k 0 ?p ?m k' \<noteq> None"
    then show "length k' = Suc (length k)"
      using put_chunks_other [of k' k 0 ?p ?m] assms(5) by (cases "\<exists>b. k' = k @ [b]") (auto simp: chunk_keys_def)
  qed
  then obtain cs2 where "chunk_Get RW cs1 (Some k) = Some (Inr w, cs2)"
    using kv_store.chunk_Get_view [OF assms(1) cs1(2) assms(3,4)] w(1) cs1(3) by auto
  with cs1 w keys show ?thesis by (auto simp: chunk_view_other)
qed

definition chunk_sample :: "(dsItem list, dsTxn list) Datastore Chunkstore" where
  "chunk_sample = \<lparr>cs_store = sample_store\<lparr>ds_values := []\<rparr>, cs_chunkSize = 2, cs_keyLen = 0\<rparr>"

lemma chunk_sample_ok: "n < 1000 \<Longrightarrow> mem_ok lI n (cs_store chunk_sample)" "store_view lI (cs_store chunk_sample) k = None"
  by (simp_all add: chunk_sample_def sample_defs run_defs)

theorem chunk_set_then_get_witness:
  "\<exists>cs1 w cs2. chunk_Set mRW chunk_sample (Some [1]) (Some [7, 8, 9]) = Some (None, cs1) \<and>
    chunk_Get mRW cs1 (Some [1]) = Some (Inr w, cs2) \<and> contents w = [7, 8, 9]"
proof -
  have p: "pieces (cs_chunkSize chunk_sample) (Some [7, 8, 9]) = [Some [7, 8], Some [9]]"
    by (simp add: pieces_def chunk_sample_def chunks_of.simps)
  have "mem_ok lI (0 + length (pieces (cs_chunkSize chunk_sample) (Some [7, 8, 9]))) (cs_store chunk_sample)"
    unfolding p by (rule chunk_sample_ok) simp
  moreover have "0 < cs_chunkSize chunk_sample" by (simp add: chunk_sample_def)
  ultimately show ?thesis
    using chunk_set_then_get [OF mRW_store, of 0 chunk_sample "Some [7, 8, 9]" "[1]"]
    by (auto simp: p all_ff_def chunk_keys_def chunk_sample_ok(2))
qed

text \<open>
  C28.  Deleting a key of a chunk store removes all its chunks, so that it is no longer found, and
  touches no other key: over a store that meets \<open>kv_store\<close>, has room for 256 writes and holds
  chunks of keys of one length, for a key of that length that is not made of \<^verbatim>\<open>0xff\<close> bytes.
\<close>

theorem chunk_delete_then_absent:
  assumes "kv_store RW iterates forward seekable ok model" and "ok (n + 256) (cs_store cs)"
    and "k \<noteq> []" "\<not> all_ff k" "chunk_keys (length k) (model (cs_store cs))"
  shows "\<exists>cs1 cs2 cs3. chunk_Delete RW cs (Some k) = Some (None, cs1) \<and>
    chunk_Has RW cs1 (Some k) = Some (Inr False, cs2) \<and> chunk_Get RW cs1 (Some k) = Some (Inl ErrNotFound, cs3) \<and>
    (\<forall>k'. length k' = length k \<and> k' \<noteq> k \<longrightarrow> chunk_view (model (cs_store cs1)) k' = chunk_view (model (cs_store cs)) k')"
proof -
  let ?m = "model (cs_store cs)"
  obtain cs1 where cs1: "chunk_Delete RW cs (Some k) = Some (None, cs1)" "ok n (cs_store cs1)"
    "model (cs_store cs1) = (\<lambda>k'. if bytes_HasPrefix k' k then None else ?m k')"
    using kv_store.chunk_Delete_view [OF assms] by blast
  have none: "chunk_view (model (cs_store cs1)) k = None"
    by (simp add: cs1(3) chunk_view_def chunk_values_def map_filter_eq HasPrefix_iff)
  have keys: "chunk_keys (length k) (model (cs_store cs1))" using assms(5) by (auto simp: cs1(3) chunk_keys_def)
  have "chunk_view (model (cs_store cs1)) k' = chunk_view ?m k'" if "length k' = length k" "k' \<noteq> k" for k'
  proof -
    have "\<not> bytes_HasPrefix (k' @ [b]) k" for b using that by (auto simp: HasPrefix_iff)
    then show ?thesis by (simp add: cs1(3) chunk_view_def chunk_values_def)
  qed
  with cs1(1) none kv_store.chunk_Has_view [OF assms(1) cs1(2) assms(3,4) keys]
    kv_store.chunk_Get_view [OF assms(1) cs1(2) assms(3,4) keys] show ?thesis by auto
qed

theorem chunk_delete_then_absent_witness:
  "\<exists>cs1 cs2. chunk_Delete mRW (chunk_sample\<lparr>cs_store := sample_store\<lparr>ds_values := [row [1, 0] 1 [7]]\<rparr>\<rparr>) (Some [1]) = Some (None, cs1) \<and>
    chunk_Get mRW cs1 (Some [1]) = Some (Inl ErrNotFound, cs2)"
proof -
  let ?cs = "chunk_sample\<lparr>cs_store := sample_store\<lparr>ds_values := [row [1, 0] 1 [7]]\<rparr>\<rparr>"
  have "mem_ok lI (0 + 256) (cs_store ?cs)" by (simp add: sample_defs run_defs)
  moreover have "store_view lI (cs_store ?cs) k = (if k = [1, 0] then Some (Some [7]) else None)" for k
    by (simp add: sample_defs run_defs)
  then have "chunk_keys (length [1 :: byte]) (store_view lI (cs_store ?cs))" by (simp add: chunk_keys_def)
  ultimately show ?thesis
    using chunk_delete_then_absent [OF mRW_store, of 0 ?cs "[1]"] by (auto simp: all_ff_def)
qed

text \<open>
  C18.  Iterating over a chunk store yields whole values.  For a store all of whose keys have
  the length the chunk store works with, and options whose bounds are not longer than that,
  whose prefix is not made of \<^verbatim>\<open>0xff\<close> bytes and whose end is not an empty slice other than nil,
  the calls of \<^verbatim>\<open>Next\<close> rest one by one on the keys the options ask for, each once, in ascending
  order or in descending order with \<^verbatim>\<open>Reverse\<close>, with their chunks joined in ascending order.
  Forward, the call after the last key reports the end; in reverse that call asks the wrapped
  iterator again after its end, about which the stores promise nothing.
\<close>

theorem chunk_iteration_joins_values:
  assumes "kv_store RW iterates forward seekable ok model" and "ok j (cs_store cs)"
    and "cs_keyLen cs = int n" "chunk_keys n (model (cs_store cs))"
    and "bounded_prefix opts" "End opts \<noteq> Some []" "whole_bounds n opts"
  shows "\<exists>it cs' L it'. chunk_Iterator RW cs opts = (Inr it, cs') \<and>
    lists (\<lambda>k. if length k = n then chunk_view (model (cs_store cs)) k else None) opts L \<and>
    visits (length L) (chunk_IteratorOps (rw_it RW)) (cs_store cs') it = Some (Inr L, it') \<and>
    (\<not> Reverse opts \<longrightarrow> (\<exists>it''. collect (chunk_IteratorOps (rw_it RW)) (cs_store cs') it = Some (Inr L, it'')))"
  using kv_store.chunk_iteration [OF assms] by blast

definition chunks_sample :: "(dsItem list, dsTxn list) Datastore Chunkstore" where
  "chunks_sample =
     \<lparr>cs_store = sample_store\<lparr>ds_values := [row [1, 0] 1 [7, 8], row [1, 1] 1 [9], row [2, 0] 1 [5]]\<rparr>, cs_chunkSize = 2, cs_keyLen = 1\<rparr>"

lemma chunks_sample_view:
  "store_view lI (cs_store chunks_sample) k =
     (if k = [1, 0] then Some (Some [7, 8]) else if k = [1, 1] then Some (Some [9]) else if k = [2, 0] then Some (Some [5]) else None)"
  by (simp add: chunks_sample_def sample_defs run_defs)

theorem chunk_iteration_joins_values_witness:
  "\<exists>it cs' L it'. chunk_Iterator mRW chunks_sample (DefaultIterOptions\<lparr>Reverse := True\<rparr>) = (Inr it, cs') \<and>
    visits (length L) (chunk_IteratorOps (rw_it mRW)) (cs_store cs') it = Some (Inr L, it') \<and>
    in_order True L \<and> map_of (map (apfst contents) L) [1] = Some (Some [7, 8, 9]) \<and> map_of (map (apfst contents) L) [2] = Some (Some [5])"
proof -
  let ?opts = "DefaultIterOptions\<lparr>Reverse := True\<rparr>" and ?v = "store_view lI (cs_store chunks_sample)"
  have chunks: "filter (\<lambda>b. ?v ([1] @ [b]) \<noteq> None) all_bytes = [0, 1]" "filter (\<lambda>b. ?v ([2] @ [b]) \<noteq> None) all_bytes = [0]"
    by (rule filter_all_bytes; auto simp: chunks_sample_view)+
  have "mem_ok lI 0 (cs_store chunks_sample)" by (simp add: chunks_sample_def sample_defs run_defs)
  moreover have "chunk_keys 1 ?v" by (simp add: chunk_keys_def chunks_sample_view)
  moreover have "cs_keyLen chunks_sample = int 1" "bounded_prefix ?opts" "End ?opts \<noteq> Some []" "whole_bounds 1 ?opts"
    by (simp_all add: chunks_sample_def run_defs whole_bounds_def)
  moreover have w: "wanted ?opts [1]" "wanted ?opts [2]" by (simp_all add: run_defs)
  moreover have v: "chunk_view ?v [1] = Some (Some [7, 8, 9])" "chunk_view ?v [2] = Some (Some [5])"
    by (simp_all add: chunk_view_def chunk_values_def map_filter_eq chunks [simplified]) (simp_all add: chunks_sample_view bytes_Join_def)
  ultimately obtain it cs' L it' where it: "chunk_Iterator mRW chunks_sample ?opts = (Inr it, cs')"
    "visits (length L) (chunk_IteratorOps (rw_it mRW)) (cs_store cs') it = Some (Inr L, it')"
    "lists (\<lambda>k. if length k = 1 then chunk_view ?v k else None) ?opts L"
    using chunk_iteration_joins_values [OF mRW_store, of 0 chunks_sample 1 ?opts] by blast
  have "in_order True L" "map_of (map (apfst contents) L) [1] = Some (Some [7, 8, 9])" "map_of (map (apfst contents) L) [2] = Some (Some [5])"
    using it(3) w v by (simp_all add: lists_def)
  with it(1,2) show ?thesis by blast
qed

text \<open>
  A key of \<^verbatim>\<open>0xff\<close> bytes is written and not found again: the chunks are there, but the prefix
  has no end and iterating over it yields nothing.
\<close>

lemma chunk_ff_key_lost:
  "Option.bind (chunk_Set mRW chunk_sample (Some [- 1]) (Some [7])) (\<lambda>(e, cs1).
   map_option (\<lambda>(r, cs2). (e, r)) (chunk_Get mRW cs1 (Some [- 1]))) = Some (None, Inl ErrNotFound)"
  by (simp add: chunk_sample_def sample_defs run_defs chunks_of.simps get_loop.simps iter_loops for_next.simps
    clearOld_loop.simps cong: bind_weak_cong map_option_weak_cong)

text \<open>
  Overwriting a value with one of fewer chunks leaves the old tail behind: after
  storing three bytes and then one, with chunks of two bytes, reading gives the new byte
  followed by the old third one.
\<close>

lemma chunk_overwrite_leaves_tail:
  "Option.bind (chunk_Set mRW chunk_sample (Some [1]) (Some [7, 8, 9])) (\<lambda>(e1, cs1).
   Option.bind (chunk_Set mRW cs1 (Some [1]) (Some [5])) (\<lambda>(e2, cs2).
   map_option (\<lambda>(r, cs3). (e1, e2, r)) (chunk_Get mRW cs2 (Some [1])))) =
   Some (None, None, Inr (Some [5, 9]))"
  by (simp add: chunk_sample_def sample_defs run_defs chunks_of.simps get_loop.simps iter_loops for_next.simps
    clearOld_loop.simps cong: bind_weak_cong map_option_weak_cong)

end
