(* ===== verification/Blockstore.thy ===== *)
theory Blockstore
  imports Iface
begin

text \<open>
  The IPFS block store (\<^verbatim>\<open>blockstore/blockstore.go\<close>): content-addressed blocks over any
  \<^verbatim>\<open>corekv.ReaderWriter\<close>.  Content identifiers and blocks belong to the packages \<^verbatim>\<open>go-cid\<close> and
  \<^verbatim>\<open>go-block-format\<close>; their functions are the fields of \<open>ipfs_ops\<close>, and what the code relies
  on is \<open>cid_laws\<close>.
\<close>

record ('c, 'b) ipfs_ops =
  cid_Defined :: "'c \<Rightarrow> bool"
  cid_Bytes :: "'c \<Rightarrow> slice"
  cid_Sum :: "'c \<Rightarrow> slice \<Rightarrow> 'c res" \<comment> \<open>\<^verbatim>\<open>k.Prefix().Sum(data)\<close>\<close>
  cid_Equals :: "'c \<Rightarrow> 'c \<Rightarrow> bool"
  cid_Cast :: "slice \<Rightarrow> 'c res"
  block_Cid :: "'b \<Rightarrow> 'c"
  block_RawData :: "'b \<Rightarrow> slice"
  NewBlockWithCid :: "slice \<Rightarrow> 'c \<Rightarrow> 'b res"

text \<open>
  Their documented behaviour: \<^verbatim>\<open>Equals\<close> is equality, \<^verbatim>\<open>Cast\<close> inverts \<^verbatim>\<open>Bytes\<close> on defined
  identifiers, whose bytes are not empty, and accepts nothing else, and \<^verbatim>\<open>NewBlockWithCid\<close> builds the block of its
  arguments.
\<close>

definition cid_laws :: "('c, 'b) ipfs_ops \<Rightarrow> bool" where
  "cid_laws P \<longleftrightarrow>
     (\<forall>c d. cid_Equals P c d \<longleftrightarrow> c = d) \<and>
     (\<forall>c. cid_Defined P c \<longrightarrow> contents (cid_Bytes P c) \<noteq> []) \<and>
     (\<forall>bz c. cid_Cast P bz = Inr c \<longleftrightarrow> cid_Defined P c \<and> contents (cid_Bytes P c) = contents bz) \<and>
     (\<forall>data c. \<exists>b. NewBlockWithCid P data c = Inr b \<and> block_Cid P b = c \<and> block_RawData P b = data)"

text \<open>The errors of this package and of \<^verbatim>\<open>go-ipld-format\<close>, beside those of the store.\<close>

datatype 'c bserror = ipld_ErrNotFound 'c | ErrHashMismatch | StoreErr kverror

record 's Blockstore =
  bs_store :: 's
  rehash :: bool

definition NewBlockstore :: "'s \<Rightarrow> 's Blockstore" where
  "NewBlockstore store = \<lparr>bs_store = store, rehash = False\<rparr>"

definition HashOnRead :: "bool \<Rightarrow> 's Blockstore \<Rightarrow> 's Blockstore" where
  "HashOnRead enabled bs = bs\<lparr>rehash := enabled\<rparr>"

definition bs_Get ::
  "('c, 'b) ipfs_ops \<Rightarrow> ('s, 'i) ReaderWriter \<Rightarrow> 's Blockstore \<Rightarrow> 'c \<Rightarrow> (('c bserror + 'b) \<times> 's Blockstore) option" where
  "bs_Get P RW bs k =
     (if \<not> cid_Defined P k then Some (Inl (ipld_ErrNotFound k), bs)
      else Option.bind (rw_Get RW (bs_store bs) (cid_Bytes P k)) (\<lambda>(r, s).
        let bs = bs\<lparr>bs_store := s\<rparr> in
        case r of
          Inl e \<Rightarrow> if errors_Is e ErrNotFound then Some (Inl (ipld_ErrNotFound k), bs) else Some (Inl (StoreErr e), bs)
        | Inr bdata \<Rightarrow>
            if rehash bs
            then (case cid_Sum P k bdata of
                    Inl e \<Rightarrow> Some (Inl (StoreErr e), bs)
                  | Inr rbcid \<Rightarrow>
                      if \<not> cid_Equals P rbcid k then Some (Inl ErrHashMismatch, bs)
                      else Some (map_sum StoreErr id (NewBlockWithCid P bdata rbcid), bs))
            else Some (map_sum StoreErr id (NewBlockWithCid P bdata k), bs)))"

definition bs_Put ::
  "('c, 'b) ipfs_ops \<Rightarrow> ('s, 'i) ReaderWriter \<Rightarrow> 's Blockstore \<Rightarrow> 'b \<Rightarrow> (err \<times> 's Blockstore) option" where
  "bs_Put P RW bs block =
     (let k = cid_Bytes P (block_Cid P block)
      in Option.bind (rw_Has RW (bs_store bs) k) (\<lambda>(r, s).
           let bs = bs\<lparr>bs_store := s\<rparr> in
           if r = Inr True then Some (None, bs)
           else map_option (\<lambda>(e, s). (e, bs\<lparr>bs_store := s\<rparr>)) (rw_Set RW (bs_store bs) k (block_RawData P block))))"

fun bs_PutMany ::
  "('c, 'b) ipfs_ops \<Rightarrow> ('s, 'i) ReaderWriter \<Rightarrow> 's Blockstore \<Rightarrow> 'b list \<Rightarrow> (err \<times> 's Blockstore) option" where
  "bs_PutMany P RW bs [] = Some (None, bs)"
| "bs_PutMany P RW bs (b # blocks) =
     (let k = cid_Bytes P (block_Cid P b)
      in Option.bind (rw_Has RW (bs_store bs) k) (\<lambda>(r, s).
           let bs = bs\<lparr>bs_store := s\<rparr> in
           if r = Inr True then bs_PutMany P RW bs blocks
           else Option.bind (rw_Set RW (bs_store bs) k (block_RawData P b)) (\<lambda>(e, s).
                  let bs = bs\<lparr>bs_store := s\<rparr> in
                  if e \<noteq> None then Some (e, bs) else bs_PutMany P RW bs blocks)))"

definition bs_Has ::
  "('c, 'b) ipfs_ops \<Rightarrow> ('s, 'i) ReaderWriter \<Rightarrow> 's Blockstore \<Rightarrow> 'c \<Rightarrow> (bool res \<times> 's Blockstore) option" where
  "bs_Has P RW bs k =
     map_option (\<lambda>(r, s). (r, bs\<lparr>bs_store := s\<rparr>)) (rw_Has RW (bs_store bs) (cid_Bytes P k))"

definition bs_GetSize ::
  "('c, 'b) ipfs_ops \<Rightarrow> ('s, 'i) ReaderWriter \<Rightarrow> 's Blockstore \<Rightarrow> 'c \<Rightarrow>
   ((int \<times> 'c bserror option) \<times> 's Blockstore) option" where
  "bs_GetSize P RW bs k =
     Option.bind (rw_Get RW (bs_store bs) (cid_Bytes P k)) (\<lambda>(r, s).
       let bs = bs\<lparr>bs_store := s\<rparr> in
       case r of
         Inl e \<Rightarrow> if errors_Is e ErrNotFound then Some ((- 1, Some (ipld_ErrNotFound k)), bs)
                  else Some ((int (len None), Some (StoreErr e)), bs)
       | Inr buf \<Rightarrow> Some ((int (len buf), None), bs))"

definition bs_DeleteBlock ::
  "('c, 'b) ipfs_ops \<Rightarrow> ('s, 'i) ReaderWriter \<Rightarrow> 's Blockstore \<Rightarrow> 'c \<Rightarrow> (err \<times> 's Blockstore) option" where
  "bs_DeleteBlock P RW bs k =
     map_option (\<lambda>(e, s). (e, bs\<lparr>bs_store := s\<rparr>)) (rw_Delete RW (bs_store bs) (cid_Bytes P k))"

text \<open>
  \<^verbatim>\<open>AllKeysChan\<close> hands a channel to a goroutine that iterates over the keys.  The loop is
  modelled with the identifiers sent so far as its state; \<open>cancelled\<close> decides, at each \<^verbatim>\<open>select\<close>,
  whether the cancelled context is taken instead of the send.  A key that is no identifier
  is logged and passed over.  The result is what the receiver gets before the channel is
  closed.
\<close>

partial_function (option) keys_chan ::
  "('c, 'b) ipfs_ops \<Rightarrow> ('s, 'i) Iterator \<Rightarrow> ('c list \<Rightarrow> bool) \<Rightarrow> 's \<Rightarrow> 'i \<Rightarrow> 'c list \<Rightarrow> ('c list res \<times> 'i) option" where
  "keys_chan P I cancelled s iter out =
     Option.bind (i_Next I s iter) (\<lambda>(r, iter).
       case r of
         Inl e \<Rightarrow> Some (Inr out, iter)
       | Inr hasNext \<Rightarrow>
           if \<not> hasNext then Some (Inr out, iter)
           else case i_Key I iter of
                  Inl e \<Rightarrow> Some (Inl e, iter)
                | Inr key \<Rightarrow>
                    (case cid_Cast P key of
                       Inl e \<Rightarrow> keys_chan P I cancelled s iter out
                     | Inr k \<Rightarrow>
                         if cancelled out then Some (Inr out, iter)
                         else keys_chan P I cancelled s iter (out @ [k])))"

definition AllKeysChan ::
  "('c, 'b) ipfs_ops \<Rightarrow> ('s, 'i) ReaderWriter \<Rightarrow> ('c list \<Rightarrow> bool) \<Rightarrow> 's Blockstore \<Rightarrow>
   ('c list res \<times> 's Blockstore) option" where
  "AllKeysChan P RW cancelled bs =
     (case rw_Iterator RW (bs_store bs) (DefaultIterOptions\<lparr>KeysOnly := True\<rparr>) of
        (Inl e, s) \<Rightarrow> Some (Inl e, bs\<lparr>bs_store := s\<rparr>)
      | (Inr iter, s) \<Rightarrow>
          Option.bind (keys_chan P (rw_it RW) cancelled s iter []) (\<lambda>(out, iter).
            let _ = i_Close (rw_it RW) iter in Some (out, bs\<lparr>bs_store := s\<rparr>)))"

lemmas bs_defs [run_defs] =
  NewBlockstore_def HashOnRead_def bs_Get_def bs_Put_def bs_Has_def bs_GetSize_def bs_DeleteBlock_def AllKeysChan_def

subsection \<open>Laws of identifiers\<close>

lemma cid_lawsD:
  assumes "cid_laws P"
  shows "cid_Equals P c d \<longleftrightarrow> c = d" "cid_Defined P c \<Longrightarrow> contents (cid_Bytes P c) \<noteq> []"
    "cid_Cast P bz = Inr c \<longleftrightarrow> cid_Defined P c \<and> contents (cid_Bytes P c) = contents bz"
    "\<exists>b. NewBlockWithCid P data c = Inr b \<and> block_Cid P b = c \<and> block_RawData P b = data"
  using assms by (simp_all add: cid_laws_def)

text \<open>Different identifiers have different bytes.\<close>

lemma cid_Bytes_inj:
  assumes "cid_laws P" "cid_Defined P c" "cid_Defined P d" "contents (cid_Bytes P c) = contents (cid_Bytes P d)"
  shows "c = d"
  using assms cid_lawsD(3) [OF assms(1), of "cid_Bytes P c"] by (metis sum.inject(2))

subsection \<open>Writing\<close>

text \<open>\<^verbatim>\<open>PutMany\<close> is \<^verbatim>\<open>Put\<close> on each block, up to the first error.\<close>

fun put_each ::
  "('c, 'b) ipfs_ops \<Rightarrow> ('s, 'i) ReaderWriter \<Rightarrow> 's Blockstore \<Rightarrow> 'b list \<Rightarrow> (err \<times> 's Blockstore) option" where
  "put_each P RW bs [] = Some (None, bs)"
| "put_each P RW bs (b # blocks) =
     Option.bind (bs_Put P RW bs b) (\<lambda>(e, bs). if e \<noteq> None then Some (e, bs) else put_each P RW bs blocks)"

lemma PutMany_put_each: "bs_PutMany P RW bs blocks = put_each P RW bs blocks"
proof (induction blocks arbitrary: bs)
  case (Cons b blocks)
  show ?case
    by (simp add: bs_Put_def Let_def Cons.IH Option.bind_map_option comp_def split_def
        cong: option.case_cong split: Option.bind_splits)
qed simp

text \<open>What \<^verbatim>\<open>Put\<close> of blocks makes of a map: blocks already there stay.\<close>

definition put_block :: "('c, 'b) ipfs_ops \<Rightarrow> 'b \<Rightarrow> (bytes \<Rightarrow> slice option) \<Rightarrow> bytes \<Rightarrow> slice option" where
  "put_block P b m =
     (let k = contents (cid_Bytes P (block_Cid P b))
      in if m k = None then m(k := Some (block_RawData P b)) else m)"

lemma put_block_stays: "m k = Some d \<Longrightarrow> put_block P b m k = Some d"
  by (auto simp: put_block_def Let_def)

lemma put_blocks_stay: "m k = Some d \<Longrightarrow> fold (put_block P) blocks m k = Some d"
  by (induction blocks arbitrary: m) (auto simp: put_block_stays)

lemma put_blocks_find:
  assumes "b \<in> set blocks"
  shows "\<exists>d. fold (put_block P) blocks m (contents (cid_Bytes P (block_Cid P b))) = Some d"
  using assms
proof (induction blocks arbitrary: m)
  case (Cons b' blocks)
  show ?case
  proof (cases "b = b'")
    case True
    have "\<exists>d. put_block P b m (contents (cid_Bytes P (block_Cid P b))) = Some d"
      by (auto simp: put_block_def Let_def)
    with put_blocks_stay True show ?thesis by fastforce
  qed (use Cons in auto)
qed simp

text \<open>Where a key of the result comes from.\<close>

lemma put_blocks_from:
  assumes "fold (put_block P) blocks m k = Some d" "m k \<noteq> Some d"
  shows "m k = None \<and> (\<exists>b \<in> set blocks. contents (cid_Bytes P (block_Cid P b)) = k \<and> block_RawData P b = d)"
  using assms
proof (induction blocks arbitrary: m)
  case (Cons b blocks)
  have none: "m k = None" using put_blocks_stay [of m k _ P "b # blocks"] Cons.prems by (cases "m k") auto
  show ?case
  proof (cases "put_block P b m k = Some d")
    case True
    with none show ?thesis by (auto simp: put_block_def Let_def split: if_splits)
  next
    case False
    with Cons.IH [of "put_block P b m"] Cons.prems none show ?thesis by auto
  qed
qed simp

context kv_store
begin

lemma bs_Put_view:
  assumes "ok (Suc n) (bs_store bs)" "contents (cid_Bytes P (block_Cid P b)) \<noteq> []"
  shows "\<exists>bs'. bs_Put P RW bs b = Some (None, bs') \<and> ok n (bs_store bs') \<and> rehash bs' = rehash bs \<and>
    view (bs_store bs') = put_block P b (view (bs_store bs))"
proof -
  obtain s' where s': "rw_Has RW (bs_store bs) (cid_Bytes P (block_Cid P b)) =
      Some (Inr (view (bs_store bs) (contents (cid_Bytes P (block_Cid P b))) \<noteq> None), s')"
    "ok (Suc n) s'" "view s' = view (bs_store bs)"
    using has [OF assms] by blast
  show ?thesis
    using s' set [OF s'(2) assms(2), of "block_RawData P b"] ok_less [OF s'(2), of n]
    by (cases "view (bs_store bs) (contents (cid_Bytes P (block_Cid P b)))")
      (auto simp: bs_Put_def put_block_def Let_def)
qed

lemma put_each_view:
  assumes "ok (n + length blocks) (bs_store bs)"
    and "\<forall>b \<in> set blocks. contents (cid_Bytes P (block_Cid P b)) \<noteq> []"
  shows "\<exists>bs'. put_each P RW bs blocks = Some (None, bs') \<and> ok n (bs_store bs') \<and> rehash bs' = rehash bs \<and>
    view (bs_store bs') = fold (put_block P) blocks (view (bs_store bs))"
  using assms
proof (induction blocks arbitrary: bs)
  case (Cons b blocks)
  have "ok (Suc (n + length blocks)) (bs_store bs)" using Cons.prems(1) by simp
  then obtain bs1 where bs1: "bs_Put P RW bs b = Some (None, bs1)" "ok (n + length blocks) (bs_store bs1)"
    "rehash bs1 = rehash bs" "view (bs_store bs1) = put_block P b (view (bs_store bs))"
    using bs_Put_view Cons.prems(2) by (metis list.set_intros(1))
  with Cons.IH [of bs1] Cons.prems(2) show ?case by auto
qed auto

lemma bs_Has_view:
  assumes "ok n (bs_store bs)" "contents (cid_Bytes P c) \<noteq> []"
  shows "\<exists>bs'. bs_Has P RW bs c = Some (Inr (view (bs_store bs) (contents (cid_Bytes P c)) \<noteq> None), bs')"
  using has [OF assms] by (auto simp: bs_Has_def)

end

subsection \<open>Listing\<close>

text \<open>What a receiver gets of the identifiers to come, and that it is a prefix of them.\<close>

fun sent :: "('c list \<Rightarrow> bool) \<Rightarrow> 'c list \<Rightarrow> 'c list \<Rightarrow> 'c list" where
  "sent cancelled out [] = out"
| "sent cancelled out (c # cs) = (if cancelled out then out else sent cancelled (out @ [c]) cs)"

lemma sent_all: "sent (\<lambda>_. False) out cs = out @ cs"
  by (induction cs arbitrary: out) auto

lemma sent_prefix: "\<exists>m. sent cancelled out cs = out @ take m cs"
proof (induction cs arbitrary: out)
  case (Cons c cs)
  obtain m where "sent cancelled (out @ [c]) cs = (out @ [c]) @ take m cs" using Cons.IH by blast
  then have "sent cancelled out (c # cs) = out @ take (if cancelled out then 0 else Suc m) (c # cs)" by simp
  then show ?case by blast
qed simp

definition cids :: "('c, 'b) ipfs_ops \<Rightarrow> entry list \<Rightarrow> 'c list" where
  "cids P L = List.map_filter (\<lambda>e. case cid_Cast P (fst e) of Inl _ \<Rightarrow> None | Inr c \<Rightarrow> Some c) L"

lemma cids_simps [simp]:
  "cids P [] = []"
  "cids P (e # L) = (case cid_Cast P (fst e) of Inl _ \<Rightarrow> cids P L | Inr c \<Rightarrow> c # cids P L)"
  by (simp_all add: cids_def List.map_filter_simps split: sum.split)

lemma set_cids:
  assumes "cid_laws P"
  shows "c \<in> set (cids P L) \<longleftrightarrow> cid_Defined P c \<and> (\<exists>e \<in> set L. contents (fst e) = contents (cid_Bytes P c))"
proof (induction L)
  case (Cons e L)
  show ?case
  proof (cases "cid_Cast P (fst e)")
    case (Inl x)
    with cid_lawsD(3) [OF assms, of "fst e" c] Cons show ?thesis by auto
  next
    case (Inr c')
    with cid_lawsD(3) [OF assms, of "fst e" c] Cons show ?thesis by auto
  qed
qed simp

lemma distinct_cids:
  assumes "cid_laws P" "ascending L"
  shows "distinct (cids P L)"
  using assms(2)
proof (induction L)
  case (Cons e L)
  show ?case
  proof (cases "cid_Cast P (fst e)")
    case (Inr c)
    then have "contents (cid_Bytes P c) = contents (fst e)" using cid_lawsD(3) [OF assms(1)] by blast
    with Cons.prems have "c \<notin> set (cids P L)" unfolding set_cids [OF assms(1)] by fastforce
    with Inr Cons show ?thesis by simp
  qed (use Cons in simp)
qed simp

context kv_iterator
begin

lemma keys_chan_sends:
  "iterates s i L R \<Longrightarrow> \<exists>i'. keys_chan P I cancelled s i out = Some (Inr (sent cancelled out (cids P R)), i')"
proof (induction R arbitrary: i out)
  case Nil
  from next_end [OF Nil] show ?case by (subst keys_chan.simps) auto
next
  case (Cons e R)
  obtain k v where e: "e = (k, v)" by (cases e)
  from next_entry Cons.prems e obtain i' where "i_Next I s i = Some (Inr True, i')"
    "i_Key I i' = Inr k" "iterates s i' L R" by blast
  with Cons.IH [of i'] e show ?case by (subst keys_chan.simps) (auto split: sum.split)
qed

end

end
