(* ===== verification/Blockstore_Props.thy ===== *)
theory Blockstore_Props
  imports Wrap_Props Blockstore
begin

text \<open>
  The properties of the block store over any store that meets the contract \<open>kv_store\<close>.  The
  witnesses run it on the in-memory store, with identifiers of the identity multihash
  (the digest is the data) as the concrete instance of \<open>ipfs_ops\<close>.
\<close>

subsection \<open>Identity identifiers\<close>

datatype id_cid = Undef | IdCid bytes

text \<open>Version 1, codec raw, multihash code 0, the length in one byte, the data.\<close>

definition id_Bytes :: "id_cid \<Rightarrow> slice" where
  "id_Bytes c = (case c of Undef \<Rightarrow> Some [] | IdCid d \<Rightarrow> Some ([1, 0x55, 0, of_nat (length d)] @ d))"

definition id_Defined :: "id_cid \<Rightarrow> bool" where
  "id_Defined c = (case c of Undef \<Rightarrow> False | IdCid d \<Rightarrow> length d < 128)"

definition id_Cast :: "slice \<Rightarrow> id_cid res" where
  "id_Cast bz =
     (let b = contents bz; d = drop 4 b
      in if take 4 b = [1, 0x55, 0, of_nat (length d)] \<and> length d < 128 then Inr (IdCid d)
         else Inl (ErrForeign ''invalid cid''))"

definition id_Sum :: "id_cid \<Rightarrow> slice \<Rightarrow> id_cid res" where
  "id_Sum c data =
     (if length (contents data) < 128 then Inr (IdCid (contents data)) else Inl (ErrForeign ''digest too long''))"

definition id_ops :: "(id_cid, slice \<times> id_cid) ipfs_ops" where
  "id_ops =
     \<lparr>cid_Defined = id_Defined, cid_Bytes = id_Bytes, cid_Sum = id_Sum, cid_Equals = (=), cid_Cast = id_Cast,
      block_Cid = snd, block_RawData = fst, NewBlockWithCid = (\<lambda>data c. Inr (data, c))\<rparr>"

lemmas id_defs = id_ops_def id_Bytes_def id_Defined_def id_Cast_def id_Sum_def

lemma id_Cast_iff: "id_Cast bz = Inr c \<longleftrightarrow> id_Defined c \<and> contents (id_Bytes c) = contents bz"
proof (cases c)
  case (IdCid d)
  define h :: bytes where "h = [1, 0x55, 0, of_nat (length d)]"
  have h: "length h = 4" by (simp add: h_def)
  have "id_Cast bz = Inr c \<longleftrightarrow> h = take 4 (contents bz) \<and> d = drop 4 (contents bz) \<and> length d < 128"
    unfolding IdCid id_Cast_def Let_def h_def by (auto simp del: of_nat_diff)
  also have "\<dots> \<longleftrightarrow> length d < 128 \<and> h @ d = contents bz"
    unfolding append_eq_conv_conj h by blast
  finally show ?thesis unfolding IdCid id_Defined_def id_Bytes_def h_def by simp
qed (auto simp: id_Cast_def id_Defined_def Let_def)

lemma id_laws: "cid_laws id_ops"
  using id_Cast_iff by (auto simp: cid_laws_def id_ops_def id_Bytes_def id_Defined_def split: id_cid.splits)

text \<open>A store is content-addressed when the data under each identifier hash to it.\<close>

definition addressed :: "('c, 'b) ipfs_ops \<Rightarrow> (bytes \<Rightarrow> slice option) \<Rightarrow> bool" where
  "addressed P m \<longleftrightarrow>
     (\<forall>c d. cid_Defined P c \<longrightarrow> m (contents (cid_Bytes P c)) = Some d \<longrightarrow> cid_Sum P c d = Inr c)"

lemma addressed_put:
  assumes "cid_laws P" "addressed P m" "\<forall>b \<in> set blocks. cid_Defined P (block_Cid P b)"
    and "\<forall>b \<in> set blocks. cid_Sum P (block_Cid P b) (block_RawData P b) = Inr (block_Cid P b)"
  shows "addressed P (fold (put_block P) blocks m)"
  unfolding addressed_def
proof (intro allI impI)
  fix c d assume c: "cid_Defined P c" "fold (put_block P) blocks m (contents (cid_Bytes P c)) = Some d"
  show "cid_Sum P c d = Inr c"
  proof (cases "m (contents (cid_Bytes P c)) = Some d")
    case True
    with assms(2) c(1) show ?thesis by (simp add: addressed_def)
  next
    case False
    from put_blocks_from [OF c(2) False] obtain b where b: "b \<in> set blocks"
      "contents (cid_Bytes P (block_Cid P b)) = contents (cid_Bytes P c)" "block_RawData P b = d" by blast
    with assms(3,4) cid_Bytes_inj [OF assms(1) _ c(1) b(2)] show ?thesis by auto
  qed
qed

context kv_store
begin

text \<open>Reading a block of a content-addressed store, with the hash checked or not.\<close>

lemma bs_Get_found:
  assumes "cid_laws P" "ok n (bs_store bs)" "cid_Defined P c" "addressed P (view (bs_store bs))"
    and "view (bs_store bs) (contents (cid_Bytes P c)) = Some d"
  shows "\<exists>b bs'. bs_Get P RW bs c = Some (Inr b, bs') \<and> block_Cid P b = c \<and> block_RawData P b = d"
proof -
  have sum: "cid_Sum P c d = Inr c" using assms(3,4,5) by (simp add: addressed_def)
  obtain s' where "rw_Get RW (bs_store bs) (cid_Bytes P c) = Some (Inr d, s')"
    using get [OF assms(2) cid_lawsD(2) [OF assms(1,3)]] assms(5) by auto
  moreover obtain b where "NewBlockWithCid P d c = Inr b" "block_Cid P b = c" "block_RawData P b = d"
    using cid_lawsD(4) [OF assms(1)] by blast
  ultimately show ?thesis using assms(3) sum cid_lawsD(1) [OF assms(1), of c c] by (simp add: bs_Get_def Let_def)
qed

lemma bs_Get_absent:
  assumes "ok n (bs_store bs)" "contents (cid_Bytes P c) \<noteq> []" "view (bs_store bs) (contents (cid_Bytes P c)) = None"
  shows "\<exists>bs'. bs_Get P RW bs c = Some (Inl (ipld_ErrNotFound c), bs')"
    and "\<exists>bs'. bs_GetSize P RW bs c = Some ((- 1, Some (ipld_ErrNotFound c)), bs')"
  using get [OF assms(1,2)] assms(3) by (auto simp: bs_Get_def bs_GetSize_def Let_def)

end

text \<open>
  C15.  Blocks put are found.  Over a store that meets \<open>kv_store\<close>, has room for the writes and in
  which the data under each identifier hash to it, putting blocks with defined identifiers
  whose data hash to them succeeds and keeps the store content-addressed; each of them is
  then reported by Has and returned by Get under its identifier, with the data stored before,
  if there were some, and with data given for that identifier otherwise; no other key
  changes.  (Where the store already holds other data under an identifier, Put leaves them.)
\<close>

theorem blockstore_put_then_get:
  assumes store: "kv_store RW iterates forward seekable ok model" and laws: "cid_laws P"
    and ok: "ok (n + length blocks) (bs_store bs)" and addressed: "addressed P (model (bs_store bs))"
    and defined: "\<forall>b \<in> set blocks. cid_Defined P (block_Cid P b)"
    and hashed: "\<forall>b \<in> set blocks. cid_Sum P (block_Cid P b) (block_RawData P b) = Inr (block_Cid P b)"
  shows "\<exists>bs'. bs_PutMany P RW bs blocks = Some (None, bs') \<and> addressed P (model (bs_store bs')) \<and>
    (\<forall>b \<in> set blocks. \<exists>bs1 b' bs2. bs_Has P RW bs' (block_Cid P b) = Some (Inr True, bs1) \<and>
       bs_Get P RW bs' (block_Cid P b) = Some (Inr b', bs2) \<and> block_Cid P b' = block_Cid P b \<and>
       (model (bs_store bs) (contents (cid_Bytes P (block_Cid P b))) = Some (block_RawData P b') \<or>
        model (bs_store bs) (contents (cid_Bytes P (block_Cid P b))) = None \<and>
        (\<exists>b0 \<in> set blocks. block_Cid P b0 = block_Cid P b \<and> block_RawData P b0 = block_RawData P b'))) \<and>
    (\<forall>k. k \<notin> (\<lambda>b. contents (cid_Bytes P (block_Cid P b))) ` set blocks \<longrightarrow>
       model (bs_store bs') k = model (bs_store bs) k)"
proof -
  let ?m = "model (bs_store bs)" and ?k = "\<lambda>b. contents (cid_Bytes P (block_Cid P b))"
  have ne: "\<forall>b \<in> set blocks. ?k b \<noteq> []" using defined cid_lawsD(2) [OF laws] by blast
  obtain bs' where bs': "bs_PutMany P RW bs blocks = Some (None, bs')" "ok n (bs_store bs')"
    "model (bs_store bs') = fold (put_block P) blocks ?m"
    using kv_store.put_each_view [OF store ok ne] by (auto simp: PutMany_put_each)
  have addressed': "addressed P (model (bs_store bs'))"
    using addressed_put [OF laws addressed defined hashed] bs'(3) by simp
  have found: "\<exists>bs1 b' bs2. bs_Has P RW bs' (block_Cid P b) = Some (Inr True, bs1) \<and>
       bs_Get P RW bs' (block_Cid P b) = Some (Inr b', bs2) \<and> block_Cid P b' = block_Cid P b \<and>
       (?m (?k b) = Some (block_RawData P b') \<or>
        ?m (?k b) = None \<and> (\<exists>b0 \<in> set blocks. block_Cid P b0 = block_Cid P b \<and> block_RawData P b0 = block_RawData P b'))"
    if b: "b \<in> set blocks" for b
  proof -
    obtain d where d: "model (bs_store bs') (?k b) = Some d" using put_blocks_find [OF b] bs'(3) by auto
    obtain b' bs2 where get: "bs_Get P RW bs' (block_Cid P b) = Some (Inr b', bs2)"
      "block_Cid P b' = block_Cid P b" "block_RawData P b' = d"
      using kv_store.bs_Get_found [OF store laws bs'(2) _ addressed' d] defined b by blast
    have has: "\<exists>bs1. bs_Has P RW bs' (block_Cid P b) = Some (Inr True, bs1)"
      using kv_store.bs_Has_view [OF store bs'(2), where P = P and c = "block_Cid P b"] ne b d by auto
    have "?m (?k b) = Some d \<or>
        ?m (?k b) = None \<and> (\<exists>b0 \<in> set blocks. block_Cid P b0 = block_Cid P b \<and> block_RawData P b0 = d)"
      using put_blocks_from [of P blocks ?m "?k b" d] d bs'(3) cid_Bytes_inj [OF laws] defined b by (metis (no_types))
    with has get show ?thesis by blast
  qed
  have "model (bs_store bs') k = ?m k" if "k \<notin> ?k ` set blocks" for k
    using put_blocks_from [of P blocks ?m k] put_blocks_stay [of ?m k _ P blocks] that bs'(3)
    by (cases "fold (put_block P) blocks ?m k"; cases "?m k") (force+)
  with bs'(1) addressed' found show ?thesis by blast
qed

abbreviation bs_sample :: "(dsItem list, dsTxn list) Datastore Blockstore" where
  "bs_sample \<equiv> HashOnRead True (NewBlockstore (sample_store\<lparr>ds_values := []\<rparr>))"

lemma bs_sample_ok: "n < 1000 \<Longrightarrow> mem_ok lI n (bs_store bs_sample)" "store_view lI (bs_store bs_sample) k = None"
  by (simp_all add: sample_defs run_defs)

theorem blockstore_put_then_get_witness:
  "\<exists>bs' b' bs2. bs_PutMany id_ops mRW bs_sample [(Some [7], IdCid [7])] = Some (None, bs') \<and>
     bs_Get id_ops mRW bs' (IdCid [7]) = Some (Inr b', bs2) \<and> b' = (Some [7], IdCid [7])"
proof -
  have "mem_ok lI (0 + length [(Some [7 :: byte], IdCid [7])]) (bs_store bs_sample)" by (rule bs_sample_ok) simp
  moreover have "addressed id_ops (store_view lI (bs_store bs_sample))" by (simp add: addressed_def bs_sample_ok(2))
  ultimately have "\<exists>bs'. bs_PutMany id_ops mRW bs_sample [(Some [7], IdCid [7])] = Some (None, bs') \<and>
     (\<exists>b' bs2. bs_Get id_ops mRW bs' (IdCid [7]) = Some (Inr b', bs2) \<and> b' = (Some [7], IdCid [7]))"
    using blockstore_put_then_get [OF mRW_store id_laws, of 0 "[(Some [7], IdCid [7])]" bs_sample]
    by (auto simp: id_defs bs_sample_ok(2))
  then show ?thesis by blast
qed

text \<open>
  C29.  Hashing on read catches corruption: for a defined identifier with stored data, Get with
  hashing returns the block of these data when they hash to the identifier asked for,
  ErrHashMismatch when they hash to another one, and the error of the hash function when it
  fails, for example on a hash that is not registered.  Without hashing the data are
  returned as they are.
\<close>

theorem hash_on_read_checks:
  assumes "cid_laws P" "cid_Defined P k" "rw_Get RW (bs_store bs) (cid_Bytes P k) = Some (Inr d, s')"
  shows "\<exists>b bs1 bs2. block_Cid P b = k \<and> block_RawData P b = d \<and>
    bs_Get P RW (HashOnRead True bs) k =
      Some (case cid_Sum P k d of
              Inl e \<Rightarrow> Inl (StoreErr e)
            | Inr c \<Rightarrow> if c = k then Inr b else Inl ErrHashMismatch, bs1) \<and>
    bs_Get P RW (HashOnRead False bs) k = Some (Inr b, bs2)"
proof -
  obtain b where b: "NewBlockWithCid P d k = Inr b" "block_Cid P b = k" "block_RawData P b = d"
    using cid_lawsD(4) [OF assms(1)] by blast
  have off: "\<exists>bs2. bs_Get P RW (HashOnRead False bs) k = Some (Inr b, bs2)"
    using assms(2,3) b(1) by (simp add: bs_Get_def HashOnRead_def Let_def)
  have "\<exists>bs1. bs_Get P RW (HashOnRead True bs) k =
      Some (case cid_Sum P k d of Inl e \<Rightarrow> Inl (StoreErr e) | Inr c \<Rightarrow> if c = k then Inr b else Inl ErrHashMismatch, bs1)"
    using assms(2,3) b(1) cid_lawsD(1) [OF assms(1)]
    by (cases "cid_Sum P k d") (auto simp: bs_Get_def HashOnRead_def Let_def)
  with off b show ?thesis by blast
qed

definition bs_corrupt :: "(dsItem list, dsTxn list) Datastore Blockstore" where
  "bs_corrupt = NewBlockstore (sample_store\<lparr>ds_values := [row [1, 0x55, 0, 1, 7] 1 [8]]\<rparr>)"

theorem hash_on_read_checks_witness:
  "\<exists>bs1. bs_Get id_ops mRW (HashOnRead True bs_corrupt) (IdCid [7]) = Some (Inl ErrHashMismatch, bs1)"
proof -
  have "rw_Get mRW (bs_store bs_corrupt) (cid_Bytes id_ops (IdCid [7])) = Some (Inr (Some [8]), bs_store bs_corrupt)"
    by (simp add: bs_corrupt_def id_defs sample_defs run_defs)
  from hash_on_read_checks [OF id_laws _ this] show ?thesis by (auto simp: id_defs)
qed

text \<open>
  C30.  AllKeysChan sends the identifier of every block in the store and nothing else, each
  once; keys that are no identifiers are passed over.  When the context is cancelled the
  receiver has got a first part of the same sequence.
\<close>

theorem all_keys_sent:
  assumes "kv_store RW iterates forward seekable ok model" "cid_laws P" "ok n (bs_store bs)"
  shows "\<exists>sequence bs'. AllKeysChan P RW (\<lambda>_. False) bs = Some (Inr sequence, bs') \<and> distinct sequence \<and>
    set sequence = {c. cid_Defined P c \<and> model (bs_store bs) (contents (cid_Bytes P c)) \<noteq> None} \<and>
    (\<forall>cancelled. \<exists>m bs''. AllKeysChan P RW cancelled bs = Some (Inr (take m sequence), bs''))"
proof -
  let ?opts = "DefaultIterOptions\<lparr>KeysOnly := True\<rparr>"
  have opts: "bounded_prefix ?opts" "End ?opts \<noteq> Some []" by (simp_all add: run_defs DefaultIterOptions_def)
  obtain i s' L where i: "rw_Iterator RW (bs_store bs) ?opts = (Inr i, s')" "iterates s' i L L"
    "lists (model (bs_store bs)) ?opts L"
    using kv_store.iterator [OF assms(1,3) opts] by blast
  from i(3) have L: "ascending L" "map_of (map (apfst contents) L) k = model (bs_store bs) k" for k
    by (simp_all add: lists_def dless_def DefaultIterOptions_def wanted_def)
  have set: "set (cids P L) = {c. cid_Defined P c \<and> model (bs_store bs) (contents (cid_Bytes P c)) \<noteq> None}"
    using set_cids [OF assms(2), where L = L] map_of_ascending [OF L(1)] L(2)
    by (fastforce simp: not_None_eq)
  have run: "\<exists>bs''. AllKeysChan P RW cancelled bs = Some (Inr (sent cancelled [] (cids P L)), bs'')" for cancelled
    using kv_iterator.keys_chan_sends [OF kv_store.axioms(1) [OF assms(1)] i(2), where P = P and cancelled = cancelled and out = "[]"] i(1)
    by (auto simp: AllKeysChan_def)
  have "\<exists>m bs''. AllKeysChan P RW cancelled bs = Some (Inr (take m (cids P L)), bs'')" for cancelled
    using run [of cancelled] sent_prefix [of cancelled "[]" "cids P L"] by auto
  moreover have "\<exists>bs'. AllKeysChan P RW (\<lambda>_. False) bs = Some (Inr (cids P L), bs')"
    using run [of "\<lambda>_. False"] by (simp add: sent_all)
  ultimately show ?thesis using set distinct_cids [OF assms(2) L(1)] by blast
qed

theorem all_keys_sent_witness:
  "\<exists>sequence bs'. AllKeysChan id_ops mRW (\<lambda>_. False) bs_corrupt = Some (Inr sequence, bs') \<and>
    distinct sequence \<and> IdCid [7] \<in> set sequence"
proof -
  have "mem_ok lI 0 (bs_store bs_corrupt)" by (simp add: bs_corrupt_def sample_defs run_defs)
  moreover have "store_view lI (bs_store bs_corrupt) (contents (cid_Bytes id_ops (IdCid [7]))) \<noteq> None"
    by (simp add: bs_corrupt_def id_defs sample_defs run_defs)
  ultimately show ?thesis
    using all_keys_sent [OF mRW_store id_laws, of 0 bs_corrupt] by (force simp: id_ops_def id_Defined_def)
qed

text \<open>A deleted block is not found, and its size is reported as -1.\<close>

lemma blockstore_delete_then_absent:
  assumes "kv_store RW iterates forward seekable ok model" "cid_laws P" "ok (Suc n) (bs_store bs)" "cid_Defined P c"
  shows "\<exists>bs' bs1 bs2. bs_DeleteBlock P RW bs c = Some (None, bs') \<and>
    bs_Get P RW bs' c = Some (Inl (ipld_ErrNotFound c), bs1) \<and>
    bs_GetSize P RW bs' c = Some ((- 1, Some (ipld_ErrNotFound c)), bs2) \<and>
    model (bs_store bs') = (model (bs_store bs))(contents (cid_Bytes P c) := None)"
proof -
  note ne = cid_lawsD(2) [OF assms(2,4)]
  obtain s' where s': "rw_Delete RW (bs_store bs) (cid_Bytes P c) = Some (None, s')" "ok n s'"
    "model s' = (model (bs_store bs))(contents (cid_Bytes P c) := None)"
    using kv_store.delete [OF assms(1,3) ne] by blast
  with kv_store.bs_Get_absent [OF assms(1), of n "bs\<lparr>bs_store := s'\<rparr>" P c] ne show ?thesis
    by (auto simp: bs_DeleteBlock_def)
qed

end
