(* ===== verification/Leveldb.thy ===== *)
theory Leveldb
  imports Iface
begin

text \<open>
  The store over goleveldb (\<^verbatim>\<open>leveldb/leveldb.go\<close>, \<^verbatim>\<open>leveldb/iter.go\<close>).  The database itself is a
  foreign package: its methods are the fields of \<open>level_ops\<close>, an argument of every definition,
  and what is documented of them is the locale \<open>leveldb\<close>.
\<close>

subsection \<open>The foreign package\<close>

text \<open>Its errors: the two sentinels the code maps, other errors, and errors wrapping others.\<close>

datatype level_error = level_ErrNotFound | level_ErrClosed | level_Err string | level_Wrapped string level_error

fun level_Is :: "level_error \<Rightarrow> level_error \<Rightarrow> bool" where
  "level_Is (level_Wrapped msg e) target = (level_Wrapped msg e = target \<or> level_Is e target)"
| "level_Is e target = (e = target)"

fun level_message :: "level_error \<Rightarrow> string" where
  "level_message level_ErrNotFound = ''leveldb: not found''"
| "level_message level_ErrClosed = ''leveldb: closed''"
| "level_message (level_Err msg) = msg"
| "level_message (level_Wrapped msg e) = msg @ level_message e"

record ('db, 'tx, 'it) level_ops =
  db_Get :: "'db \<Rightarrow> slice \<Rightarrow> level_error + slice"
  db_Has :: "'db \<Rightarrow> slice \<Rightarrow> level_error + bool"
  db_Put :: "'db \<Rightarrow> slice \<Rightarrow> slice \<Rightarrow> level_error option \<times> 'db"
  db_Delete :: "'db \<Rightarrow> slice \<Rightarrow> level_error option \<times> 'db"
  db_Close :: "'db \<Rightarrow> level_error option \<times> 'db"
  db_NewIterator :: "'db \<Rightarrow> slice \<times> slice \<Rightarrow> 'it"
  db_OpenTransaction :: "'db \<Rightarrow> (level_error + 'tx) \<times> 'db"
  tr_Get :: "'tx \<Rightarrow> slice \<Rightarrow> level_error + slice"
  tr_Has :: "'tx \<Rightarrow> slice \<Rightarrow> level_error + bool"
  tr_Put :: "'tx \<Rightarrow> slice \<Rightarrow> slice \<Rightarrow> level_error option \<times> 'tx"
  tr_Delete :: "'tx \<Rightarrow> slice \<Rightarrow> level_error option \<times> 'tx"
  tr_NewIterator :: "'tx \<Rightarrow> slice \<times> slice \<Rightarrow> 'it"
  tr_Commit :: "'tx \<Rightarrow> 'db \<Rightarrow> level_error option \<times> 'tx \<times> 'db"
  tr_Discard :: "'tx \<Rightarrow> 'db \<Rightarrow> 'tx \<times> 'db"
  it_First :: "'it \<Rightarrow> bool \<times> 'it"
  it_Last :: "'it \<Rightarrow> bool \<times> 'it"
  it_Next :: "'it \<Rightarrow> bool \<times> 'it"
  it_Prev :: "'it \<Rightarrow> bool \<times> 'it"
  it_Seek :: "'it \<Rightarrow> slice \<Rightarrow> bool \<times> 'it"
  it_Valid :: "'it \<Rightarrow> bool"
  it_Key :: "'it \<Rightarrow> slice"
  it_Value :: "'it \<Rightarrow> slice"
  it_Release :: "'it \<Rightarrow> 'it"
  util_BytesPrefix :: "slice \<Rightarrow> slice \<times> slice" \<comment> \<open>the \<^verbatim>\<open>Start\<close> and the \<^verbatim>\<open>Limit\<close> of the range\<close>

subsection \<open>Errors\<close>

text \<open>
  The mapping of errors; \<open>level_mapped\<close> is its part for an error that is not nil.  The loop
  over the map asks whether the sentinel is the error, in the map's order, which does not
  matter: no other error is a sentinel.
\<close>

definition levelErrToKVErrMap :: "(level_error \<times> kverror) list" where
  "levelErrToKVErrMap = [(level_ErrNotFound, ErrNotFound), (level_ErrClosed, ErrDBClosed)]"

definition level_mapped :: "level_error \<Rightarrow> kverror" where
  "level_mapped e =
     (case map_of levelErrToKVErrMap e of
        Some mappedErr \<Rightarrow> mappedErr
      | None \<Rightarrow>
          (case List.find (\<lambda>(k, v). level_Is k e) levelErrToKVErrMap of
             Some (k, v) \<Rightarrow> v
           | None \<Rightarrow> ErrForeign (level_message e)))"

definition levelErrToKVErr :: "level_error option \<Rightarrow> err" where
  "levelErrToKVErr err = (case err of None \<Rightarrow> None | Some e \<Rightarrow> Some (level_mapped e))"

text \<open>The sentinels are mapped, and every other error, one that wraps a sentinel too, is passed on.\<close>

lemma level_mapped_simps [simp]:
  "level_mapped level_ErrNotFound = ErrNotFound" "level_mapped level_ErrClosed = ErrDBClosed"
  "level_mapped (level_Err msg) = ErrForeign msg"
  "level_mapped (level_Wrapped msg e) = ErrForeign (msg @ level_message e)"
  by (simp_all add: level_mapped_def levelErrToKVErrMap_def)

subsection \<open>The store\<close>

record 'db level_Datastore =
  ld_db :: 'db
  ld_closed :: bool

record 'tx lTxn =
  lt_t :: "'tx option"
  lt_err :: "level_error option"

record 'it level_iterator =
  li_i :: 'it
  li_start :: slice
  li_end :: slice
  li_reverse :: bool
  li_keysOnly :: bool
  li_reset :: bool

definition level_NewDatastoreFrom :: "'db \<Rightarrow> 'db level_Datastore" where
  "level_NewDatastoreFrom db = \<lparr>ld_db = db, ld_closed = False\<rparr>"

text \<open>\<^verbatim>\<open>NewDatastore\<close> is given what \<^verbatim>\<open>leveldb.OpenFile\<close> returned.\<close>

definition level_NewDatastore :: "level_error + 'db \<Rightarrow> level_error + 'db level_Datastore" where
  "level_NewDatastore opened =
     (case opened of Inl e \<Rightarrow> Inl e | Inr db \<Rightarrow> Inr \<lparr>ld_db = db, ld_closed = False\<rparr>)"

definition level_slice :: "('db, 'tx, 'it) level_ops \<Rightarrow> IterOptions \<Rightarrow> slice \<times> slice" where
  "level_slice L opts = (if Prefix opts \<noteq> None then util_BytesPrefix L (Prefix opts) else (Start opts, End opts))"

subsection \<open>Transactions\<close>

text \<open>
  Every method first returns the error \<^verbatim>\<open>OpenTransaction\<close> gave, then the closed error.  A nil
  transaction without an error would be dereferenced: a panic.
\<close>

definition lt_guard :: "'tx lTxn \<Rightarrow> 'db level_Datastore \<Rightarrow> kverror + 'tx" where
  "lt_guard txn d =
     (case lt_err txn of
        Some e \<Rightarrow> Inl (level_mapped e)
      | None \<Rightarrow>
          if ld_closed d then Inl ErrDBClosed
          else case lt_t txn of None \<Rightarrow> Inl (Panic ''nil pointer dereference'') | Some t \<Rightarrow> Inr t)"

definition lt_Get :: "('db, 'tx, 'it) level_ops \<Rightarrow> 'tx lTxn \<Rightarrow> 'db level_Datastore \<Rightarrow> slice \<Rightarrow> slice res" where
  "lt_Get L txn d k =
     (case lt_guard txn d of
        Inl e \<Rightarrow> Inl e
      | Inr t \<Rightarrow> (case tr_Get L t k of Inl e \<Rightarrow> Inl (level_mapped e) | Inr value \<Rightarrow> Inr value))"

definition lt_Has :: "('db, 'tx, 'it) level_ops \<Rightarrow> 'tx lTxn \<Rightarrow> 'db level_Datastore \<Rightarrow> slice \<Rightarrow> bool res" where
  "lt_Has L txn d k =
     (case lt_guard txn d of
        Inl e \<Rightarrow> Inl e
      | Inr t \<Rightarrow> (case tr_Has L t k of Inl e \<Rightarrow> Inl (level_mapped e) | Inr exists \<Rightarrow> Inr exists))"

definition lt_Iterator ::
  "('db, 'tx, 'it) level_ops \<Rightarrow> 'tx lTxn \<Rightarrow> 'db level_Datastore \<Rightarrow> IterOptions \<Rightarrow> 'it level_iterator res" where
  "lt_Iterator L txn d opts =
     (case lt_guard txn d of
        Inl e \<Rightarrow> Inl e
      | Inr t \<Rightarrow>
          let slice = level_slice L opts
          in Inr \<lparr>li_i = tr_NewIterator L t slice, li_start = fst slice, li_end = snd slice,
                  li_reverse = Reverse opts, li_keysOnly = KeysOnly opts, li_reset = True\<rparr>)"

definition lt_Set ::
  "('db, 'tx, 'it) level_ops \<Rightarrow> 'tx lTxn \<Rightarrow> 'db level_Datastore \<Rightarrow> slice \<Rightarrow> slice \<Rightarrow> err \<times> 'tx lTxn" where
  "lt_Set L txn d k v =
     (case lt_guard txn d of
        Inl e \<Rightarrow> (Some e, txn)
      | Inr t \<Rightarrow> let (e, t) = tr_Put L t k v in (levelErrToKVErr e, txn\<lparr>lt_t := Some t\<rparr>))"

definition lt_Delete ::
  "('db, 'tx, 'it) level_ops \<Rightarrow> 'tx lTxn \<Rightarrow> 'db level_Datastore \<Rightarrow> slice \<Rightarrow> err \<times> 'tx lTxn" where
  "lt_Delete L txn d k =
     (case lt_guard txn d of
        Inl e \<Rightarrow> (Some e, txn)
      | Inr t \<Rightarrow> let (e, t) = tr_Delete L t k in (levelErrToKVErr e, txn\<lparr>lt_t := Some t\<rparr>))"

definition lt_Commit ::
  "('db, 'tx, 'it) level_ops \<Rightarrow> 'tx lTxn \<Rightarrow> 'db level_Datastore \<Rightarrow> err \<times> 'tx lTxn \<times> 'db level_Datastore" where
  "lt_Commit L txn d =
     (case lt_guard txn d of
        Inl e \<Rightarrow> (Some e, txn, d)
      | Inr t \<Rightarrow> let (e, t, db) = tr_Commit L t (ld_db d)
                in (levelErrToKVErr e, txn\<lparr>lt_t := Some t\<rparr>, d\<lparr>ld_db := db\<rparr>))"

definition lt_Discard ::
  "('db, 'tx, 'it) level_ops \<Rightarrow> 'tx lTxn \<Rightarrow> 'db level_Datastore \<Rightarrow> 'tx lTxn \<times> 'db level_Datastore" where
  "lt_Discard L txn d =
     (case lt_t txn of
        None \<Rightarrow> (txn, d)
      | Some t \<Rightarrow> let (t, db) = tr_Discard L t (ld_db d) in (txn\<lparr>lt_t := Some t\<rparr>, d\<lparr>ld_db := db\<rparr>))"

subsection \<open>Methods of the store\<close>

text \<open>The argument \<open>ctx\<close> is the transaction found in the context, if there is one.\<close>

definition ld_Get ::
  "('db, 'tx, 'it) level_ops \<Rightarrow> 'tx lTxn option \<Rightarrow> 'db level_Datastore \<Rightarrow> slice \<Rightarrow> slice res" where
  "ld_Get L ctx d k =
     (case ctx of
        Some txn \<Rightarrow> lt_Get L txn d k
      | None \<Rightarrow> (case db_Get L (ld_db d) k of Inl e \<Rightarrow> Inl (level_mapped e) | Inr value \<Rightarrow> Inr value))"

definition ld_Has ::
  "('db, 'tx, 'it) level_ops \<Rightarrow> 'tx lTxn option \<Rightarrow> 'db level_Datastore \<Rightarrow> slice \<Rightarrow> bool res" where
  "ld_Has L ctx d k =
     (case ctx of
        Some txn \<Rightarrow> lt_Has L txn d k
      | None \<Rightarrow> (case db_Has L (ld_db d) k of Inl e \<Rightarrow> Inl (level_mapped e) | Inr exists \<Rightarrow> Inr exists))"

definition ld_Set ::
  "('db, 'tx, 'it) level_ops \<Rightarrow> 'tx lTxn option \<Rightarrow> 'db level_Datastore \<Rightarrow> slice \<Rightarrow> slice \<Rightarrow>
   err \<times> 'tx lTxn option \<times> 'db level_Datastore" where
  "ld_Set L ctx d k v =
     (case ctx of
        Some txn \<Rightarrow> let (e, txn) = lt_Set L txn d k v in (e, Some txn, d)
      | None \<Rightarrow> let (e, db) = db_Put L (ld_db d) k v in (levelErrToKVErr e, None, d\<lparr>ld_db := db\<rparr>))"

definition ld_Delete ::
  "('db, 'tx, 'it) level_ops \<Rightarrow> 'tx lTxn option \<Rightarrow> 'db level_Datastore \<Rightarrow> slice \<Rightarrow>
   err \<times> 'tx lTxn option \<times> 'db level_Datastore" where
  "ld_Delete L ctx d k =
     (case ctx of
        Some txn \<Rightarrow> let (e, txn) = lt_Delete L txn d k in (e, Some txn, d)
      | None \<Rightarrow> let (e, db) = db_Delete L (ld_db d) k in (levelErrToKVErr e, None, d\<lparr>ld_db := db\<rparr>))"

text \<open>\<^verbatim>\<open>CompareAndSwap\<close> lets only the first call of \<^verbatim>\<open>Close\<close> through.\<close>

definition ld_Close :: "('db, 'tx, 'it) level_ops \<Rightarrow> 'db level_Datastore \<Rightarrow> err \<times> 'db level_Datastore" where
  "ld_Close L d =
     (if ld_closed d then (None, d)
      else let (e, db) = db_Close L (ld_db d) in (levelErrToKVErr e, \<lparr>ld_db = db, ld_closed = True\<rparr>))"

definition ld_Iterator ::
  "('db, 'tx, 'it) level_ops \<Rightarrow> 'tx lTxn option \<Rightarrow> 'db level_Datastore \<Rightarrow> IterOptions \<Rightarrow> 'it level_iterator res" where
  "ld_Iterator L ctx d opts =
     (case ctx of
        Some txn \<Rightarrow> lt_Iterator L txn d opts
      | None \<Rightarrow>
          if ld_closed d then Inl ErrDBClosed
          else let slice = level_slice L opts
               in Inr \<lparr>li_i = db_NewIterator L (ld_db d) slice, li_start = fst slice, li_end = snd slice,
                       li_reverse = Reverse opts, li_keysOnly = KeysOnly opts, li_reset = True\<rparr>)"

definition ld_NewTxn ::
  "('db, 'tx, 'it) level_ops \<Rightarrow> bool \<Rightarrow> 'db level_Datastore \<Rightarrow> 'tx lTxn \<times> 'db level_Datastore" where
  "ld_NewTxn L readonly d =
     (case db_OpenTransaction L (ld_db d) of
        (Inl e, db) \<Rightarrow> (\<lparr>lt_t = None, lt_err = Some e\<rparr>, d\<lparr>ld_db := db\<rparr>)
      | (Inr t, db) \<Rightarrow> (\<lparr>lt_t = Some t, lt_err = None\<rparr>, d\<lparr>ld_db := db\<rparr>))"

subsection \<open>Iterators\<close>

definition li_Reset :: "'it level_iterator \<Rightarrow> 'it level_iterator" where
  "li_Reset it = it\<lparr>li_reset := True\<rparr>"

definition li_moved :: "'it level_iterator \<Rightarrow> bool \<times> 'it \<Rightarrow> bool res \<times> 'it level_iterator" where
  "li_moved it m = (Inr (fst m), it\<lparr>li_i := snd m\<rparr>)"

definition li_restart :: "('db, 'tx, 'it) level_ops \<Rightarrow> 'it level_iterator \<Rightarrow> bool res \<times> 'it level_iterator" where
  "li_restart L it =
     (let it = it\<lparr>li_reset := False\<rparr>
      in if li_reverse it then li_moved it (it_Last L (li_i it)) else li_moved it (it_First L (li_i it)))"

definition li_Next ::
  "('db, 'tx, 'it) level_ops \<Rightarrow> 'db level_Datastore \<Rightarrow> 'it level_iterator \<Rightarrow> bool res \<times> 'it level_iterator" where
  "li_Next L d it =
     (if ld_closed d then (Inl ErrDBClosed, it)
      else if li_reset it then li_restart L it
      else if li_reverse it then li_moved it (it_Prev L (li_i it))
      else li_moved it (it_Next L (li_i it)))"

definition li_Key :: "('db, 'tx, 'it) level_ops \<Rightarrow> 'it level_iterator \<Rightarrow> slice" where
  "li_Key L it = it_Key L (li_i it)"

definition li_Value :: "('db, 'tx, 'it) level_ops \<Rightarrow> 'it level_iterator \<Rightarrow> slice res" where
  "li_Value L it =
     (if li_keysOnly it then Inr None
      else let value = it_Value L (li_i it) in if len value = 0 then Inr None else Inr value)"

definition li_Seek ::
  "('db, 'tx, 'it) level_ops \<Rightarrow> 'db level_Datastore \<Rightarrow> slice \<Rightarrow> 'it level_iterator \<Rightarrow> bool res \<times> 'it level_iterator" where
  "li_Seek L d k it =
     (let it = it\<lparr>li_reset := False\<rparr>
      in if ld_closed d then (Inl ErrDBClosed, it)
         else if li_reverse it \<and> li_end it \<noteq> None \<and> bytes_Compare (contents (li_end it)) (contents k) < 0
         then li_moved it (it_Last L (li_i it))
         else if \<not> li_reverse it \<and> li_start it \<noteq> None \<and> bytes_Compare (contents k) (contents (li_start it)) < 0
         then li_moved it (it_First L (li_i it))
         else let (hasItem, i) = it_Seek L (li_i it) k; it = it\<lparr>li_i := i\<rparr>
              in if \<not> hasItem then (Inr False, it)
                 else if li_reverse it \<and> bytes_Compare (contents (it_Key L i)) (contents k) > 0
                 then li_moved it (it_Prev L i)
                 else (Inr (it_Valid L i), it))"

definition li_Close :: "('db, 'tx, 'it) level_ops \<Rightarrow> 'it level_iterator \<Rightarrow> err \<times> 'it level_iterator" where
  "li_Close L it = (None, it\<lparr>li_i := it_Release L (li_i it)\<rparr>)"

definition level_Iterator :: "('db, 'tx, 'it) level_ops \<Rightarrow> ('db level_Datastore, 'it level_iterator) Iterator" where
  "level_Iterator L =
     \<lparr>i_Next = (\<lambda>d it. Some (li_Next L d it)), i_Key = (\<lambda>it. Inr (li_Key L it)), i_Value = li_Value L,
      i_Seek = (\<lambda>d k it. Some (li_Seek L d k it)), i_Reset = li_Reset, i_Close = li_Close L\<rparr>"

lemmas level_defs [run_defs] =
  levelErrToKVErr_def level_NewDatastoreFrom_def level_slice_def lt_guard_def lt_Get_def lt_Has_def
  lt_Iterator_def lt_Set_def lt_Delete_def lt_Commit_def lt_Discard_def ld_Get_def ld_Has_def ld_Set_def
  ld_Delete_def ld_Close_def ld_Iterator_def ld_NewTxn_def li_Reset_def li_moved_def li_restart_def li_Next_def
  li_Key_def li_Value_def li_Seek_def li_Close_def level_Iterator_def

end
