(* ===== verification/Pairs.thy ===== *)
theory Pairs
  imports Iface
begin

text \<open>
  Tables of key-value pairs in ascending order of keys: how the foreign databases are seen.
  The lemmas say what a seek finds, what listing a table amounts to, and how the sorted
  list behaves as a map.
\<close>

lemma map_of_rev_distinct:
  assumes "distinct (map fst xs)"
  shows "map_of (rev xs) = map_of xs"
  by (rule map_of_eqI) (use assms in \<open>auto simp: map_of_eq_Some_iff rev_map [symmetric] fun_eq_iff\<close>)

text \<open>The pairs of a table that is ordered by key, in the direction of the options.\<close>

type_synonym pair = "bytes \<times> bytes"

abbreviation ordered :: "pair list \<Rightarrow> bool" where
  "ordered rs \<equiv> sorted_wrt (\<lambda>a b. fst a < fst b) rs"

lemma ordered_distinct: "ordered rs \<Longrightarrow> distinct (map fst rs)"
  by (induction rs) auto

lemma map_of_filter_key: "map_of (filter (\<lambda>r. P (fst r)) rs) k = (if P k then map_of rs k else None)"
  by (induction rs) auto

definition rows_asked :: "(bytes \<Rightarrow> slice) \<Rightarrow> IterOptions \<Rightarrow> pair list \<Rightarrow> entry list" where
  "rows_asked f opts rs =
     map (\<lambda>r. (Some (fst r), f (snd r))) ((if Reverse opts then rev else id) (filter (\<lambda>r. wanted opts (fst r)) rs))"

lemma lists_rows:
  assumes "ordered rs"
  shows "lists (\<lambda>k. map_option f (map_of rs k)) opts (rows_asked f opts rs)"
proof -
  let ?rs = "filter (\<lambda>r. wanted opts (fst r)) rs" and ?d = "if Reverse opts then rev else id :: pair list \<Rightarrow> pair list"
  have sorted: "ordered ?rs" using assms by (rule sorted_wrt_filter)
  then have distinct: "distinct (map fst ?rs)" by (rule ordered_distinct)
  have "map_of (?d ?rs) k = map_of ?rs k" for k using distinct by (simp add: map_of_rev_distinct)
  moreover have "map_of (map (\<lambda>r. (fst r, f (snd r))) xs) k = map_option f (map_of xs k)" for xs :: "pair list" and k
    by (induction xs) auto
  ultimately show ?thesis using sorted
    by (auto simp: rows_asked_def lists_def sorted_wrt_map sorted_wrt_rev dless_def comp_def map_of_filter_key)
qed

text \<open>An ordered table is determined by its map.\<close>

lemma ordered_unique:
  assumes "ordered rs" "ordered rs'" "map_of rs = map_of rs'"
  shows "rs = rs'"
proof -
  note distinct = ordered_distinct [OF assms(1)] ordered_distinct [OF assms(2)]
  have set: "set rs = set rs'"
    using assms(3) map_of_eq_Some_iff [OF distinct(1)] map_of_eq_Some_iff [OF distinct(2)] by auto
  have "sorted (map fst rs)" "sorted (map fst rs')"
    using assms(1,2) by (auto simp: sorted_wrt_map intro: sorted_wrt_mono_rel [rotated])
  moreover have "inj_on fst (set rs \<union> set rs')"
    using distinct(1) set by (simp add: distinct_map)
  ultimately show ?thesis using map_sorted_distinct_set_unique [of fst rs rs'] distinct set by blast
qed

text \<open>The first row whose key is not below \<open>k\<close>.\<close>

definition row_from :: "pair list \<Rightarrow> bytes \<Rightarrow> nat" where
  "row_from rs k = length (takeWhile (\<lambda>r. fst r < k) rs)"

subsection \<open>Rows below and from a key\<close>

lemma row_from_split:
  assumes "ordered rs"
  shows "r \<in> set (take (row_from rs k) rs) \<Longrightarrow> fst r < k" "r \<in> set (drop (row_from rs k) rs) \<Longrightarrow> k \<le> fst r"
proof -
  show "fst r < k" if "r \<in> set (take (row_from rs k) rs)"
    using that set_takeWhileD by (fastforce simp: row_from_def takeWhile_eq_take [symmetric])
  show "k \<le> fst r" if "r \<in> set (drop (row_from rs k) rs)"
    using that assms
  proof (induction rs)
    case (Cons a rs)
    show ?case
    proof (cases "fst a < k")
      case True
      with Cons show ?thesis by (simp add: row_from_def)
    next
      case False
      with Cons.prems show ?thesis by (fastforce simp: row_from_def)
    qed
  qed simp
qed

lemma dropWhile_none: "(\<And>x. x \<in> set xs \<Longrightarrow> \<not> P x) \<Longrightarrow> dropWhile P xs = xs"
  by (cases xs) auto

lemma drop_rows_forward:
  assumes "ordered rs"
  shows "dropWhile (\<lambda>r. fst r < k) rs = drop (row_from rs k) rs"
  by (simp add: row_from_def dropWhile_eq_drop)

text \<open>In reverse the rows above \<open>k\<close> come first; the row at \<open>k\<close>, if there is one, is kept.\<close>

lemma drop_rows_reverse:
  fixes k :: bytes and rs :: "pair list"
  assumes "ordered rs"
  defines "n \<equiv> row_from rs k"
  shows "dropWhile (\<lambda>r. k < fst r) (rev rs) =
    (if n < length rs \<and> fst (rs ! n) = k then rev (take (Suc n) rs) else rev (take n rs))"
proof -
  let ?m = "if n < length rs \<and> fst (rs ! n) = k then Suc n else n"
  have upper: "k < fst r" if "r \<in> set (drop ?m rs)" for r
  proof (cases "n < length rs")
    case True
    have dropn: "drop n rs = rs ! n # drop (Suc n) rs" using True by (simp add: Cons_nth_drop_Suc)
    have le: "k \<le> fst (rs ! n)" using row_from_split(2) [OF assms(1), of "rs ! n" k] dropn by (simp add: n_def)
    have "sorted_wrt (\<lambda>a b. fst a < fst b) (drop n rs)" using assms(1) by (simp add: sorted_wrt_drop)
    then have "\<forall>r \<in> set (drop (Suc n) rs). fst (rs ! n) < fst r" using dropn by simp
    with that le dropn True show ?thesis by (cases "fst (rs ! n) = k") auto
  qed (use that in simp)
  have lower: "\<not> k < fst r" if "r \<in> set (take ?m rs)" for r
  proof -
    have "r \<in> set (take n rs) \<or> n < length rs \<and> fst (rs ! n) = k \<and> r = rs ! n"
      using that by (auto simp: take_Suc_conv_app_nth split: if_splits)
    with row_from_split(1) [OF assms(1), of r k] show ?thesis by (auto simp: n_def)
  qed
  have split: "rev rs = rev (drop ?m rs) @ rev (take ?m rs)" by (metis append_take_drop_id rev_append)
  have keep: "dropWhile (\<lambda>r. k < fst r) (rev (take ?m rs)) = rev (take ?m rs)"
    by (rule dropWhile_none, rule lower, simp only: set_rev)
  have "dropWhile (\<lambda>r. k < fst r) (rev (drop ?m rs) @ rev (take ?m rs)) = dropWhile (\<lambda>r. k < fst r) (rev (take ?m rs))"
    by (rule dropWhile_append2) (rule upper, simp only: set_rev)
  then have "dropWhile (\<lambda>r. k < fst r) (rev rs) = rev (take ?m rs)" unfolding keep by (simp only: split [symmetric])
  then show ?thesis by simp
qed

subsection \<open>Tables as maps\<close>

definition table_put :: "bytes \<Rightarrow> bytes \<Rightarrow> pair list \<Rightarrow> pair list" where
  "table_put k v rs = takeWhile (\<lambda>r. fst r < k) rs @ (k, v) # dropWhile (\<lambda>r. fst r \<le> k) rs"

definition table_del :: "bytes \<Rightarrow> pair list \<Rightarrow> pair list" where
  "table_del k rs = filter (\<lambda>r. fst r \<noteq> k) rs"

lemma table_put_Cons:
  "table_put k v (r # rs) = (if fst r < k then r # table_put k v rs else (k, v) # (if fst r = k then dropWhile (\<lambda>r. fst r \<le> k) rs else r # rs))"
  by (auto simp: table_put_def)

lemma set_table_put: "set (table_put k v rs) \<subseteq> insert (k, v) (set rs)"
  by (auto simp: table_put_def dest: set_takeWhileD set_dropWhileD)

lemma ordered_drop_le: "ordered (r # rs) \<Longrightarrow> fst r = k \<Longrightarrow> dropWhile (\<lambda>r. fst r \<le> k) rs = rs"
  by (cases rs) auto

lemma ordered_table_put:
  assumes "ordered rs"
  shows "ordered (table_put k v rs)"
  using assms
proof (induction rs)
  case (Cons r rs)
  have "fst r < fst r'" if "r' \<in> set (table_put k v rs)" "fst r < k" for r'
    using that set_table_put [of k v rs] Cons.prems by auto
  with Cons ordered_drop_le [OF Cons.prems] show ?case
    by (auto simp: table_put_Cons not_less order.order_iff_strict intro: order.strict_trans)
qed (simp add: table_put_def)

lemma map_of_table_put:
  assumes "ordered rs"
  shows "map_of (table_put k v rs) = (map_of rs)(k \<mapsto> v)"
  using assms
proof (induction rs)
  case (Cons r rs)
  then show ?case using ordered_drop_le [OF Cons.prems]
    by (auto simp: table_put_Cons fun_eq_iff split: if_splits)
qed (simp add: table_put_def)

lemma ordered_table_del: "ordered rs \<Longrightarrow> ordered (table_del k rs)"
  by (simp add: table_del_def sorted_wrt_filter)

lemma map_of_table_del: "map_of (table_del k rs) = (map_of rs)(k := None)"
  by (auto simp: table_del_def map_of_filter_key [where P = "\<lambda>k'. k' \<noteq> k"] fun_eq_iff)

text \<open>A list read as a table: one that is not ordered stands for the empty table.\<close>

definition table :: "pair list \<Rightarrow> pair list" where
  "table rs = (if ordered rs then rs else [])"

lemma table_ordered: "ordered rs \<Longrightarrow> table rs = rs"
  by (simp add: table_def)

lemma ordered_table [simp]: "ordered (table rs)"
  by (simp add: table_def)

declare table_put_def [run_defs] table_del_def [run_defs] table_def [run_defs] row_from_def [run_defs]

subsection \<open>Comparison and prefixes\<close>

lemma bytes_Compare_less0: "bytes_Compare a b < 0 \<longleftrightarrow> a < b"
  using bytes_Compare_cases [of a b] bytes_Compare_less [of a b] by auto

lemma bytes_Compare_greater0: "bytes_Compare a b > 0 \<longleftrightarrow> b < a"
  using bytes_Compare_cases [of a b] bytes_Compare_greater [of a b] by auto

text \<open>Above a prefix of \<^verbatim>\<open>0xff\<close> bytes there are only its extensions.\<close>

lemma all_ff_ge: "all_ff p \<Longrightarrow> p \<le> k \<longleftrightarrow> bytes_HasPrefix k p"
proof (induction p arbitrary: k)
  case (Cons x p)
  have max: "\<not> (- 1 :: byte) < y" for y using word_order.extremum [of y] by (simp add: not_less)
  from Cons show ?case by (cases k) (auto simp: all_ff_def max)
qed simp

end
