(* ===== verification/Leveldb_Laws.thy ===== *)
theory Leveldb_Laws
  imports Leveldb Pairs
begin

text \<open>
  What goleveldb documents of its iterators and of the database, as the locale \<open>leveldb\<close>,
  and the proof that under it the iterators of the store meet the contract \<open>kv_iterator\<close>.
  A database is seen through \<open>content\<close>, its pairs in ascending order of keys; an iterator
  through \<open>rows\<close>, the pairs of its range, and \<open>pos\<close>, where it rests.
\<close>

datatype lpos = NoPos | On nat | EOI

definition in_slice :: "slice \<times> slice \<Rightarrow> bytes \<Rightarrow> bool" where
  "in_slice sl k \<longleftrightarrow> (fst sl \<noteq> None \<longrightarrow> contents (fst sl) \<le> k) \<and> (snd sl \<noteq> None \<longrightarrow> k < contents (snd sl))"

locale leveldb =
  fixes L :: "('db, 'tx, 'it) level_ops"
    and content :: "'db \<Rightarrow> pair list"
    and rows :: "'it \<Rightarrow> pair list"
    and pos :: "'it \<Rightarrow> lpos"
  assumes content_ordered: "ordered (content db)"
    and rows_new: "rows (db_NewIterator L db sl) = filter (\<lambda>r. in_slice sl (fst r)) (content db)"
    and bytes_prefix: "in_slice (util_BytesPrefix L p) b \<longleftrightarrow> bytes_HasPrefix b (contents p)"
    and rows_moved: "rows (snd (it_First L i)) = rows i" "rows (snd (it_Last L i)) = rows i"
      "rows (snd (it_Next L i)) = rows i" "rows (snd (it_Prev L i)) = rows i" "rows (snd (it_Seek L i k)) = rows i"
    and first: "fst (it_First L i) \<longleftrightarrow> rows i \<noteq> []" "pos (snd (it_First L i)) = (if rows i = [] then EOI else On 0)"
    and last: "fst (it_Last L i) \<longleftrightarrow> rows i \<noteq> []" "rows i \<noteq> [] \<Longrightarrow> pos (snd (it_Last L i)) = On (length (rows i) - 1)"
    and nexts: "pos i = On n \<Longrightarrow> fst (it_Next L i) \<longleftrightarrow> Suc n < length (rows i)"
      "pos i = On n \<Longrightarrow> pos (snd (it_Next L i)) = (if Suc n < length (rows i) then On (Suc n) else EOI)"
      "pos i = EOI \<Longrightarrow> \<not> fst (it_Next L i) \<and> pos (snd (it_Next L i)) = EOI"
    and prevs: "pos i = On n \<Longrightarrow> fst (it_Prev L i) \<longleftrightarrow> 0 < n"
      "pos i = On (Suc m) \<Longrightarrow> pos (snd (it_Prev L i)) = On m"
    and seeks: "fst (it_Seek L i k) \<longleftrightarrow> row_from (rows i) (contents k) < length (rows i)"
      "row_from (rows i) (contents k) < length (rows i) \<Longrightarrow> pos (snd (it_Seek L i k)) = On (row_from (rows i) (contents k))"
    and here: "pos i = On n \<Longrightarrow> n < length (rows i) \<Longrightarrow> it_Key L i = Some (fst (rows i ! n))"
      "pos i = On n \<Longrightarrow> n < length (rows i) \<Longrightarrow> contents (it_Value L i) = snd (rows i ! n)"
      "pos i = On n \<Longrightarrow> n < length (rows i) \<Longrightarrow> it_Valid L i"

text \<open>The entry the wrapper shows for a row: empty values, and all values of key-only iterators, are nil.\<close>

definition level_entry :: "'it level_iterator \<Rightarrow> pair \<Rightarrow> entry" where
  "level_entry it r = (Some (fst r), if li_keysOnly it \<or> snd r = [] then None else Some (snd r))"

definition level_rows :: "('it \<Rightarrow> pair list) \<Rightarrow> 'it level_iterator \<Rightarrow> pair list" where
  "level_rows rows it = (if li_reverse it then rev (rows (li_i it)) else rows (li_i it))"

text \<open>The rows still to come.\<close>

definition level_rest :: "('it \<Rightarrow> pair list) \<Rightarrow> ('it \<Rightarrow> lpos) \<Rightarrow> 'it level_iterator \<Rightarrow> pair list \<Rightarrow> bool" where
  "level_rest rows pos it R \<longleftrightarrow>
     (if li_reset it then R = level_rows rows it
      else case pos (li_i it) of
             On n \<Rightarrow> n < length (rows (li_i it)) \<and>
               R = (if li_reverse it then rev (take n (rows (li_i it))) else drop (Suc n) (rows (li_i it)))
           | EOI \<Rightarrow> \<not> li_reverse it \<and> R = []
           | NoPos \<Rightarrow> False)"

definition level_iterates ::
  "('it \<Rightarrow> pair list) \<Rightarrow> ('it \<Rightarrow> lpos) \<Rightarrow> 'db level_Datastore \<Rightarrow> 'it level_iterator \<Rightarrow> entry list \<Rightarrow> entry list \<Rightarrow> bool" where
  "level_iterates rows pos d it Es Rs \<longleftrightarrow>
     \<not> ld_closed d \<and> ordered (rows (li_i it)) \<and> (\<forall>r \<in> set (rows (li_i it)). in_slice (li_start it, li_end it) (fst r)) \<and>
     Es = map (level_entry it) (level_rows rows it) \<and>
     (\<exists>R. level_rest rows pos it R \<and> Rs = map (level_entry it) R)"

text \<open>
  The keys \<^verbatim>\<open>Seek\<close> handles as promised: all of them forward; in reverse those beyond the end of
  the range, and those not beyond the last key.
\<close>

definition level_seekable :: "('it \<Rightarrow> pair list) \<Rightarrow> 'it level_iterator \<Rightarrow> slice \<Rightarrow> bool" where
  "level_seekable rows it k \<longleftrightarrow>
     li_reverse it \<longrightarrow> rows (li_i it) = [] \<or> row_from (rows (li_i it)) (contents k) < length (rows (li_i it)) \<or>
       li_end it \<noteq> None \<and> contents (li_end it) < contents k"

lemma key_before_entry: "key_before fwd k (level_entry it r) = (if fwd then fst r < contents k else contents k < fst r)"
  by (simp add: key_before_def level_entry_def)

lemma dropWhile_entries:
  "dropWhile (key_before fwd k) (map (level_entry it) rs) =
   map (level_entry it) (dropWhile (\<lambda>r. if fwd then fst r < contents k else contents k < fst r) rs)"
  by (simp add: dropWhile_map comp_def key_before_entry)

subsection \<open>The contract\<close>

context leveldb
begin

abbreviation "its \<equiv> level_iterates rows pos"

text \<open>Moving to a row: what the wrapper shows there, and what is left.\<close>

lemma landed:
  assumes "its d it Es Rs" "rows i = rows (li_i it)" "pos i = On n" "n < length (rows i)"
  defines "it' \<equiv> it\<lparr>li_reset := False, li_i := i\<rparr>"
  shows "i_Key (level_Iterator L) it' = Inr (fst (level_entry it (rows i ! n)))"
    "i_Value (level_Iterator L) it' = Inr (snd (level_entry it (rows i ! n)))"
    "its d it' Es (map (level_entry it) (if li_reverse it then rev (take n (rows i)) else drop (Suc n) (rows i)))"
proof -
  have entry: "level_entry it' = level_entry it" by (simp add: level_entry_def it'_def fun_eq_iff)
  show "i_Key (level_Iterator L) it' = Inr (fst (level_entry it (rows i ! n)))"
    using here(1) [OF assms(3,4)] by (simp add: level_Iterator_def li_Key_def level_entry_def it'_def)
  show "i_Value (level_Iterator L) it' = Inr (snd (level_entry it (rows i ! n)))"
    using here(2) [OF assms(3,4)]
    by (cases "it_Value L i") (auto simp: level_Iterator_def li_Value_def level_entry_def it'_def Let_def)
  show "its d it' Es (map (level_entry it) (if li_reverse it then rev (take n (rows i)) else drop (Suc n) (rows i)))"
    using assms(1,2,3,4) unfolding level_iterates_def entry
    by (auto simp: level_rest_def level_rows_def it'_def)
qed

lemma reset_iterates: "its d it Es Rs \<Longrightarrow> rows i = rows (li_i it) \<Longrightarrow> its d (it\<lparr>li_i := i, li_reset := True\<rparr>) Es Es"
  by (auto simp: level_iterates_def level_rest_def level_rows_def level_entry_def [abs_def])

text \<open>A row and what is left after it, as one list.\<close>

lemma ahead_cons:
  assumes "n < length rs"
  shows "rs ! n # drop (Suc n) rs = drop n rs" "rs ! n # rev (take n rs) = rev (take (Suc n) rs)"
  using assms by (simp_all add: Cons_nth_drop_Suc take_Suc_conv_app_nth)

lemma not_reset: "\<not> li_reset it \<Longrightarrow> it\<lparr>li_reset := False\<rparr> = it"
  by (cases it) simp

text \<open>
  \<open>lands it has i R\<close>: a move of \<open>it\<close> said \<open>has\<close> and took the inner iterator to \<open>i\<close>; it now rests
  on the first row of \<open>R\<close>, with the others to come.
\<close>

definition lands :: "'it level_iterator \<Rightarrow> bool \<Rightarrow> 'it \<Rightarrow> pair list \<Rightarrow> bool" where
  "lands it has i R \<longleftrightarrow> rows i = rows (li_i it) \<and>
     (if R = [] then \<not> has
      else has \<and> (\<exists>n < length (rows i). pos i = On n \<and>
             R = (if li_reverse it then rev (take (Suc n) (rows i)) else drop n (rows i))))"

lemma landsI:
  "rows i = rows (li_i it) \<Longrightarrow> pos i = On n \<Longrightarrow> n < length (rows i) \<Longrightarrow>
   R = (if li_reverse it then rev (take (Suc n) (rows i)) else drop n (rows i)) \<Longrightarrow> lands it True i R"
  by (auto simp: lands_def)

lemma lands_none: "rows i = rows (li_i it) \<Longrightarrow> lands it False i []"
  by (simp add: lands_def)

lemma lands_last: "li_reverse it \<Longrightarrow> lands it (fst (it_Last L (li_i it))) (snd (it_Last L (li_i it))) (rev (rows (li_i it)))"
  using last [of "li_i it"] rows_moved(2) [of "li_i it"] by (auto simp: lands_def)

lemma lands_first: "\<not> li_reverse it \<Longrightarrow> lands it (fst (it_First L (li_i it))) (snd (it_First L (li_i it))) (rows (li_i it))"
  using first [of "li_i it"] rows_moved(1) [of "li_i it"] by (auto simp: lands_def)

lemma lands_prev:
  assumes "li_reverse it" "rows i = rows (li_i it)" "pos i = On n" "n < length (rows i)"
  shows "lands it (fst (it_Prev L i)) (snd (it_Prev L i)) (rev (take n (rows i)))"
  using assms prevs(1) [OF assms(3)] prevs(2) [of i "n - 1"] rows_moved(4) [of i]
  by (cases n) (auto simp: lands_def)

lemma lands_next:
  assumes "\<not> li_reverse it" "rows i = rows (li_i it)" "pos i = On n" "n < length (rows i)"
  shows "lands it (fst (it_Next L i)) (snd (it_Next L i)) (drop (Suc n) (rows i))"
  using assms nexts(1,2) [OF assms(3)] rows_moved(3) [of i] by (auto simp: lands_def)

text \<open>Where \<^verbatim>\<open>Next\<close> goes: to the first of the rows left; a forward iterator stays at its end.\<close>

lemma next_lands:
  assumes "\<not> ld_closed d" "level_rest rows pos it R"
  shows "\<exists>has i. li_Next L d it = (Inr has, it\<lparr>li_reset := False, li_i := i\<rparr>) \<and> lands it has i R \<and>
    (\<not> has \<and> \<not> li_reverse it \<longrightarrow> pos i = EOI)"
proof (cases "li_reset it")
  case True
  then have "R = level_rows rows it" using assms(2) by (simp add: level_rest_def)
  with True assms(1) lands_last [of it] lands_first [of it] first [of "li_i it"] show ?thesis
    by (auto simp: li_Next_def li_restart_def li_moved_def Let_def level_rows_def)
next
  case False
  note keep = not_reset [OF False]
  show ?thesis
  proof (cases "pos (li_i it)")
    case (On n)
    with False assms(2) have n: "n < length (rows (li_i it))"
      "R = (if li_reverse it then rev (take n (rows (li_i it))) else drop (Suc n) (rows (li_i it)))"
      by (simp_all add: level_rest_def)
    with False assms(1) lands_prev [OF _ refl On] lands_next [OF _ refl On] nexts(1,2) [OF On] show ?thesis
      by (auto simp: li_Next_def li_moved_def keep)
  next
    case EOI
    with False assms nexts(3) [OF EOI] rows_moved(3) [of "li_i it"] show ?thesis
      by (auto simp: li_Next_def li_moved_def keep level_rest_def lands_def)
  qed (use False assms(2) in \<open>simp add: level_rest_def\<close>)
qed

text \<open>Where \<^verbatim>\<open>Seek\<close> goes: past the rows before the key.\<close>

definition rows_at :: "'it level_iterator \<Rightarrow> bytes \<Rightarrow> pair list" where
  "rows_at it k =
     (if li_reverse it then dropWhile (\<lambda>r. k < fst r) (rev (rows (li_i it)))
      else dropWhile (\<lambda>r. fst r < k) (rows (li_i it)))"

lemma seek_lands_reverse_past:
  assumes "\<not> ld_closed d" "\<forall>r \<in> set (rows (li_i it)). in_slice (li_start it, li_end it) (fst r)" "li_reverse it"
    and end': "li_end it \<noteq> None \<and> contents (li_end it) < contents k"
  shows "\<exists>has i. li_Seek L d k it = (Inr has, it\<lparr>li_reset := False, li_i := i\<rparr>) \<and> lands it has i (rows_at it (contents k))"
proof -
  have "\<not> contents k < fst r" if "r \<in> set (rows (li_i it))" for r using assms(2) that end' by (fastforce simp: in_slice_def)
  then have "rows_at it (contents k) = rev (rows (li_i it))" unfolding rows_at_def using assms(3) by (auto intro!: dropWhile_none)
  with end' assms(1,3) lands_last [of it] show ?thesis by (auto simp: li_Seek_def li_moved_def Let_def bytes_Compare_less0)
qed

lemma seek_lands_reverse_found:
  assumes "\<not> ld_closed d" "ordered (rows (li_i it))" "li_reverse it"
    and within: "\<not> (li_end it \<noteq> None \<and> contents (li_end it) < contents k)"
    and found: "row_from (rows (li_i it)) (contents k) < length (rows (li_i it))"
  shows "\<exists>has i. li_Seek L d k it = (Inr has, it\<lparr>li_reset := False, li_i := i\<rparr>) \<and> lands it has i (rows_at it (contents k))"
proof -
  let ?rs = "rows (li_i it)" and ?k = "contents k" let ?n = "row_from ?rs ?k" and ?s = "it_Seek L (li_i it) k"
  have R: "rows_at it ?k = (if ?n < length ?rs \<and> fst (?rs ! ?n) = ?k then rev (take (Suc ?n) ?rs) else rev (take ?n ?rs))"
    using drop_rows_reverse [OF assms(2), of ?k] assms(3) by (simp only: rows_at_def if_True)
  have le: "?k \<le> fst (?rs ! ?n)"
    using row_from_split(2) [OF assms(2), of "?rs ! ?n" ?k] found by (simp add: Cons_nth_drop_Suc [symmetric])
  have s: "fst ?s" "pos (snd ?s) = On ?n" "rows (snd ?s) = ?rs"
    using seeks [of "li_i it" k] rows_moved(5) [of "li_i it" k] found by auto
  have key: "it_Key L (snd ?s) = Some (fst (?rs ! ?n))" "it_Valid L (snd ?s)" using here(1,3) [OF s(2)] found s(3) by auto
  show ?thesis
  proof (cases "fst (?rs ! ?n) = ?k")
    case True
    have "lands it True (snd ?s) (rows_at it ?k)"
      by (rule landsI [OF s(3,2)]) (use True found s(3) R assms(3) in \<open>simp_all only: if_True simp_thms\<close>)
    with True within assms(1,3) key s show ?thesis
      by (auto simp: li_Seek_def Let_def bytes_Compare_less0 bytes_Compare_greater0 split_def)
  next
    case False
    have "lands it (fst (it_Prev L (snd ?s))) (snd (it_Prev L (snd ?s))) (rows_at it ?k)"
      using lands_prev [OF assms(3) s(3,2)] found s(3) R False by simp
    with False le within assms(1,3) key s show ?thesis
      by (auto simp: li_Seek_def li_moved_def Let_def bytes_Compare_less0 bytes_Compare_greater0 split_def)
  qed
qed

lemma seek_lands_reverse:
  assumes "\<not> ld_closed d" "ordered (rows (li_i it))" "\<forall>r \<in> set (rows (li_i it)). in_slice (li_start it, li_end it) (fst r)"
    and "level_seekable rows it k" "li_reverse it"
  shows "\<exists>has i. li_Seek L d k it = (Inr has, it\<lparr>li_reset := False, li_i := i\<rparr>) \<and> lands it has i (rows_at it (contents k))"
proof (cases "li_end it \<noteq> None \<and> contents (li_end it) < contents k")
  case True
  show ?thesis by (rule seek_lands_reverse_past [OF assms(1,3,5) True])
next
  case within: False
  show ?thesis
  proof (cases "row_from (rows (li_i it)) (contents k) < length (rows (li_i it))")
    case True
    show ?thesis by (rule seek_lands_reverse_found [OF assms(1,2,5) within True])
  next
    case False
    with within assms(4,5) have "rows (li_i it) = []" by (auto simp: level_seekable_def)
    then have "\<not> fst (it_Seek L (li_i it) k)" "lands it False (snd (it_Seek L (li_i it) k)) (rows_at it (contents k))"
      using seeks(1) [of "li_i it" k] lands_none [OF rows_moved(5)] by (simp_all add: rows_at_def)
    with within assms(1,5) show ?thesis by (auto simp: li_Seek_def Let_def bytes_Compare_less0 split_def)
  qed
qed

lemma seek_lands_forward:
  assumes "\<not> ld_closed d" "ordered (rows (li_i it))" "\<forall>r \<in> set (rows (li_i it)). in_slice (li_start it, li_end it) (fst r)"
    and "\<not> li_reverse it"
  shows "\<exists>has i. li_Seek L d k it = (Inr has, it\<lparr>li_reset := False, li_i := i\<rparr>) \<and> lands it has i (rows_at it (contents k))"
proof -
  let ?rs = "rows (li_i it)" and ?k = "contents k"
  let ?n = "row_from ?rs ?k" and ?s = "it_Seek L (li_i it) k"
  have R: "rows_at it ?k = drop ?n ?rs" using drop_rows_forward [OF assms(2), of ?k] assms(4) by (simp add: rows_at_def)
  show ?thesis
  proof (cases "li_start it \<noteq> None \<and> ?k < contents (li_start it)")
    case True
    have "\<not> fst r < ?k" if "r \<in> set ?rs" for r using assms(3) that True by (fastforce simp: in_slice_def)
    then have "rows_at it ?k = ?rs" unfolding rows_at_def using assms(4) by (auto intro!: dropWhile_none)
    with True assms(1,4) lands_first [of it] show ?thesis
      by (auto simp: li_Seek_def li_moved_def Let_def bytes_Compare_less0)
  next
    case within: False
    have rs: "rows (snd ?s) = ?rs" by (rule rows_moved)
    show ?thesis
    proof (cases "?n < length ?rs")
      case True
      have s: "fst ?s" "pos (snd ?s) = On ?n" using seeks [of "li_i it" k] True by auto
      have "lands it True (snd ?s) (rows_at it ?k)" using landsI [OF rs s(2)] True rs R assms(4) by simp
      with within assms(1,4) s here(3) [OF s(2)] rs True show ?thesis
        by (auto simp: li_Seek_def Let_def bytes_Compare_less0 split_def)
    next
      case False
      with within assms(1,4) seeks(1) [of "li_i it" k] lands_none [OF rs] R show ?thesis
        by (auto simp: li_Seek_def Let_def bytes_Compare_less0 split_def)
    qed
  qed
qed

lemma rows_at_entries:
  "Es = map (level_entry it) (level_rows rows it) \<Longrightarrow>
   dropWhile (key_before (\<not> li_reverse it) k) Es = map (level_entry it) (rows_at it (contents k))"
  by (simp add: dropWhile_entries rows_at_def level_rows_def)

text \<open>The entry an iterator rests on after landing, and what it yields from there.\<close>

lemma lands_entry:
  assumes "its d it Es Rs" "lands it has i R" "map (level_entry it) R = (k, v) # Rs'"
  defines "it' \<equiv> it\<lparr>li_reset := False, li_i := i\<rparr>"
  shows "has" "i_Key (level_Iterator L) it' = Inr k" "i_Value (level_Iterator L) it' = Inr v" "its d it' Es Rs'"
proof -
  from assms(3) have "R \<noteq> []" by auto
  then obtain n where n: "has" "rows i = rows (li_i it)" "n < length (rows i)" "pos i = On n"
    "R = (if li_reverse it then rev (take (Suc n) (rows i)) else drop n (rows i))"
    using assms(2) unfolding lands_def by auto
  from n(5) have R: "R = rows i ! n # (if li_reverse it then rev (take n (rows i)) else drop (Suc n) (rows i))"
    using ahead_cons [OF n(3)] by simp
  note here = landed [OF assms(1) n(2,4,3), folded it'_def]
  from n(1) assms(3) here R show "has" "i_Key (level_Iterator L) it' = Inr k" "i_Value (level_Iterator L) it' = Inr v"
    "its d it' Es Rs'" by (auto simp only: list.map list.inject fst_conv snd_conv)
qed

lemma its_reset: "its d it Es Rs \<Longrightarrow> its d (i_Reset (level_Iterator L) it) Es Es"
  using reset_iterates [of d it Es Rs "li_i it"] by (simp add: level_Iterator_def li_Reset_def)

lemma level_next:
  assumes "its d it Es Rs"
  shows "\<exists>has it'. i_Next (level_Iterator L) d it = Some (Inr has, it') \<and> li_reverse it' = li_reverse it \<and>
    (Rs = [] \<longrightarrow> \<not> has \<and> its d (i_Reset (level_Iterator L) it') Es Es \<and> (\<not> li_reverse it \<longrightarrow> its d it' Es [])) \<and>
    (\<forall>k v Rs'. Rs = (k, v) # Rs' \<longrightarrow>
       has \<and> i_Key (level_Iterator L) it' = Inr k \<and> i_Value (level_Iterator L) it' = Inr v \<and> its d it' Es Rs')"
proof -
  from assms obtain R where R: "level_rest rows pos it R" "Rs = map (level_entry it) R" "\<not> ld_closed d"
    by (auto simp: level_iterates_def)
  obtain has i where i: "li_Next L d it = (Inr has, it\<lparr>li_reset := False, li_i := i\<rparr>)" "lands it has i R"
    "\<not> has \<and> \<not> li_reverse it \<longrightarrow> pos i = EOI" using next_lands [OF R(3,1)] by blast
  let ?it = "it\<lparr>li_reset := False, li_i := i\<rparr>"
  have "\<not> has" "its d (i_Reset (level_Iterator L) ?it) Es Es" "\<not> li_reverse it \<longrightarrow> its d ?it Es []" if "Rs = []"
  proof -
    from that R(2) i(2) show has: "\<not> has" by (simp add: lands_def)
    from i(2) have "rows i = rows (li_i it)" by (simp add: lands_def)
    with assms i(3) has show "its d (i_Reset (level_Iterator L) ?it) Es Es" "\<not> li_reverse it \<longrightarrow> its d ?it Es []"
      using reset_iterates [OF assms]
      by (auto simp: level_Iterator_def li_Reset_def level_iterates_def level_rest_def level_rows_def level_entry_def [abs_def])
  qed
  with i(1) lands_entry [OF assms i(2)] R(2) show ?thesis by (auto simp: level_Iterator_def)
qed

lemma level_seek:
  assumes "its d it Es Rs" "level_seekable rows it k"
  shows "\<exists>has it'. i_Seek (level_Iterator L) d k it = Some (Inr has, it') \<and> li_reverse it' = li_reverse it \<and>
    (dropWhile (key_before (\<not> li_reverse it) k) Es = [] \<longrightarrow> \<not> has \<and> its d (i_Reset (level_Iterator L) it') Es Es) \<and>
    (\<forall>k1 v1 R1. dropWhile (key_before (\<not> li_reverse it) k) Es = (k1, v1) # R1 \<longrightarrow>
       has \<and> i_Key (level_Iterator L) it' = Inr k1 \<and> i_Value (level_Iterator L) it' = Inr v1 \<and> its d it' Es R1)"
proof -
  from assms(1) have R: "\<not> ld_closed d" "ordered (rows (li_i it))"
    "\<forall>r \<in> set (rows (li_i it)). in_slice (li_start it, li_end it) (fst r)"
    "Es = map (level_entry it) (level_rows rows it)" by (auto simp: level_iterates_def)
  obtain has i where i: "li_Seek L d k it = (Inr has, it\<lparr>li_reset := False, li_i := i\<rparr>)"
    "lands it has i (rows_at it (contents k))"
    using seek_lands_forward [OF R(1,2,3)] seek_lands_reverse [OF R(1,2,3) assms(2)] by blast
  have "its d (i_Reset (level_Iterator L) (it\<lparr>li_reset := False, li_i := i\<rparr>)) Es Es"
    using reset_iterates [OF assms(1)] i(2) by (simp add: level_Iterator_def li_Reset_def lands_def)
  with i(1) lands_entry [OF assms(1) i(2)] i(2) show ?thesis
    unfolding rows_at_entries [OF R(4)] by (auto simp: level_Iterator_def lands_def)
qed

lemma level_kv_iterator:
  "kv_iterator (level_Iterator L) (level_iterates rows pos) (\<lambda>it. \<not> li_reverse it) (level_seekable rows)"
proof (unfold_locales, goal_cases)
  case (1 d it Es)
  from level_next [OF 1] show ?case by (auto simp: level_Iterator_def li_Close_def)
next
  case (2 d it Es k v Rs)
  from level_next [OF 2] show ?case by auto
next
  case (5 d it Es Rs k)
  from level_seek [OF 5(1,2)] 5(3) show ?case by auto
next
  case (6 d it Es Rs k k1 v1 R1)
  from level_seek [OF 6(1,2)] 6(3) show ?case by auto
next
  case (3 d it Es Rs)
  then show ?case by (rule its_reset)
qed (simp_all add: level_Iterator_def li_Reset_def li_Close_def)

text \<open>A fresh iterator of the store lists the pairs the options ask for.\<close>

lemma in_level_slice:
  assumes "End opts \<noteq> Some []"
  shows "in_slice (level_slice L opts) k \<longleftrightarrow> wanted opts k"
  using assms bytes_prefix [of "Prefix opts" k]
  by (cases "Prefix opts"; cases "Start opts"; cases "End opts") (auto simp: level_slice_def wanted_def in_slice_def)

lemma level_iterator_lists:
  assumes "\<not> ld_closed d" "End opts \<noteq> Some []"
  shows "\<exists>it Es. ld_Iterator L None d opts = Inr it \<and> its d it Es Es \<and> (li_reverse it \<longleftrightarrow> Reverse opts) \<and>
    lists (\<lambda>k. map_option (\<lambda>v. if KeysOnly opts \<or> v = [] then None else Some v) (map_of (content (ld_db d)) k)) opts Es"
proof -
  let ?sl = "level_slice L opts"
  define it where "it = \<lparr>li_i = db_NewIterator L (ld_db d) ?sl, li_start = fst ?sl, li_end = snd ?sl,
    li_reverse = Reverse opts, li_keysOnly = KeysOnly opts, li_reset = True\<rparr>"
  let ?rs = "filter (\<lambda>r. wanted opts (fst r)) (content (ld_db d))"
  have rs: "rows (li_i it) = ?rs" using rows_new in_level_slice [OF assms(2)] by (simp add: it_def)
  have sorted: "ordered ?rs" using content_ordered by (rule sorted_wrt_filter)
  let ?Es = "map (level_entry it) (level_rows rows it)"
  have "its d it ?Es ?Es"
    using assms(1) sorted rs in_level_slice [OF assms(2)]
    by (auto simp: level_iterates_def level_rest_def it_def)
  moreover have "lists (\<lambda>k. map_option (\<lambda>v. if KeysOnly opts \<or> v = [] then None else Some v) (map_of (content (ld_db d)) k)) opts ?Es"
    using lists_rows [OF content_ordered [of "ld_db d"], where f = "\<lambda>v. if KeysOnly opts \<or> v = [] then None else Some v" and opts = opts]
    by (cases "Reverse opts") (simp_all add: rows_asked_def level_rows_def rs level_entry_def [abs_def], simp_all add: it_def)
  ultimately show ?thesis using assms(1) by (auto simp: ld_Iterator_def it_def Let_def)
qed

end

end
