(* ===== verification/Leveldb_Props.thy ===== *)
theory Leveldb_Props
  imports Leveldb_Laws
begin

text \<open>
  The properties of the leveldb store, under what goleveldb documents, and sorted tables as
  a concrete instance of the locale \<open>leveldb\<close> on which they are evaluated.
\<close>

subsection \<open>Tables as a leveldb\<close>

type_synonym table_it = "pair list \<times> lpos"

fun table_move :: "pair list \<Rightarrow> nat \<Rightarrow> bool \<times> table_it" where
  "table_move rs n = (if n < length rs then (True, rs, On n) else (False, rs, EOI))"

fun table_next :: "table_it \<Rightarrow> bool \<times> table_it" where
  "table_next (rs, On n) = table_move rs (Suc n)"
| "table_next (rs, p) = (False, rs, EOI)"

fun table_prev :: "table_it \<Rightarrow> bool \<times> table_it" where
  "table_prev (rs, On (Suc n)) = (True, rs, On n)"
| "table_prev (rs, p) = (False, rs, NoPos)"

definition table_at :: "table_it \<Rightarrow> pair option" where
  "table_at i = (case i of (rs, On n) \<Rightarrow> if n < length rs then Some (rs ! n) else None | _ \<Rightarrow> None)"

definition table_get :: "pair list \<Rightarrow> slice \<Rightarrow> level_error + slice" where
  "table_get rs k = (case map_of (table rs) (contents k) of None \<Rightarrow> Inl level_ErrNotFound | Some v \<Rightarrow> Inr (Some v))"

text \<open>The database is a table and whether it is closed; a transaction is its own copy of the table.\<close>

definition table_level :: "(pair list \<times> bool, pair list, table_it) level_ops" where
  "table_level =
     \<lparr>db_Get = (\<lambda>(rs, c) k. if c then Inl level_ErrClosed else table_get rs k),
      db_Has = (\<lambda>(rs, c) k. if c then Inl level_ErrClosed else Inr (map_of (table rs) (contents k) \<noteq> None)),
      db_Put = (\<lambda>(rs, c) k v. if c then (Some level_ErrClosed, rs, c) else (None, table_put (contents k) (contents v) (table rs), c)),
      db_Delete = (\<lambda>(rs, c) k. if c then (Some level_ErrClosed, rs, c) else (None, table_del (contents k) (table rs), c)),
      db_Close = (\<lambda>(rs, c). if c then (Some level_ErrClosed, rs, c) else (None, rs, True)),
      db_NewIterator = (\<lambda>(rs, c) sl. (filter (\<lambda>r. in_slice sl (fst r)) (table rs), NoPos)),
      db_OpenTransaction = (\<lambda>(rs, c). (if c then Inl level_ErrClosed else Inr rs, rs, c)),
      tr_Get = table_get,
      tr_Has = (\<lambda>rs k. Inr (map_of (table rs) (contents k) \<noteq> None)),
      tr_Put = (\<lambda>rs k v. (None, table_put (contents k) (contents v) (table rs))),
      tr_Delete = (\<lambda>rs k. (None, table_del (contents k) (table rs))),
      tr_NewIterator = (\<lambda>rs sl. (filter (\<lambda>r. in_slice sl (fst r)) (table rs), NoPos)),
      tr_Commit = (\<lambda>rs (_, c). (None, rs, rs, c)),
      tr_Discard = (\<lambda>rs db. (rs, db)),
      it_First = (\<lambda>(rs, p). table_move rs 0),
      it_Last = (\<lambda>(rs, p). table_move rs (length rs - 1)),
      it_Next = table_next,
      it_Prev = table_prev,
      it_Seek = (\<lambda>(rs, p) k. table_move rs (row_from rs (contents k))),
      it_Valid = (\<lambda>i. table_at i \<noteq> None),
      it_Key = (\<lambda>i. map_option fst (table_at i)),
      it_Value = (\<lambda>i. map_option snd (table_at i)),
      it_Release = (\<lambda>i. i),
      util_BytesPrefix = (\<lambda>p. (Some (contents p), if all_ff (contents p) then None else bytesPrefixEnd p))\<rparr>"

declare table_at_def [run_defs] table_get_def [run_defs] in_slice_def [run_defs]

lemma table_moved [simp]: "fst (snd (table_move rs n)) = rs"
  by simp

lemma table_next_rows [simp]: "fst (snd (table_next i)) = fst i"
  by (cases i rule: table_next.cases) auto

lemma table_prev_rows [simp]: "fst (snd (table_prev i)) = fst i"
  by (cases i rule: table_prev.cases) auto

lemma table_prev_on [simp]: "fst (table_prev (rs, On n)) \<longleftrightarrow> 0 < n"
  by (cases n) auto

lemma length_pred: "length xs - Suc 0 < length xs \<longleftrightarrow> xs \<noteq> []"
  by (cases xs) auto

lemma table_prefix: "in_slice (util_BytesPrefix table_level p) b \<longleftrightarrow> bytes_HasPrefix b (contents p)"
proof (cases "all_ff (contents p)")
  case True
  then show ?thesis using all_ff_ge [OF True, of b] by (simp add: table_level_def in_slice_def)
next
  case False
  have "bytesPrefixEnd p \<noteq> None" by (rule bytes_split [OF False]) (simp add: bytesPrefixEnd_split)
  with False bytesPrefixEnd_interval [OF False, of b] show ?thesis by (auto simp: table_level_def in_slice_def)
qed

interpretation table_level: leveldb table_level "\<lambda>db. table (fst db)" fst snd
proof (unfold_locales, goal_cases)
  case (3 p b)
  show ?case by (rule table_prefix)
qed (auto simp: table_level_def table_at_def length_pred split: prod.splits if_splits, metis prod.collapse)

interpretation table_iter: kv_iterator "level_Iterator table_level" "level_iterates fst snd" "\<lambda>it. \<not> li_reverse it"
    "level_seekable fst"
  by (rule table_level.level_kv_iterator)

subsection \<open>Iteration\<close>

text \<open>What an iterator shows of a value: nothing when only keys are asked for or the value is empty.\<close>

definition level_shown :: "IterOptions \<Rightarrow> bytes \<Rightarrow> slice" where
  "level_shown opts v = (if KeysOnly opts \<or> v = [] then None else Some v)"

text \<open>
  C12.  Iterating over the leveldb store lists it: on an open store and for options whose end is
  not an empty slice other than nil, an iterator is returned, calling Next until it says
  there is no more comes to an end, the entries are exactly the pairs of the database the
  options ask for, in ascending or descending order of keys, with \<^verbatim>\<open>KeysOnly\<close> without the
  values, and after a Reset the same entries come again.  A key equal to \<^verbatim>\<open>Prefix\<close> is among those
  asked for, against the comment in \<^verbatim>\<open>kv.go\<close>.
\<close>

theorem leveldb_iteration_lists:
  assumes "leveldb L content rows pos" "\<not> ld_closed d" "End opts \<noteq> Some []"
  shows "\<exists>it Es it' it''. ld_Iterator L None d opts = Inr it \<and>
    collect (level_Iterator L) d it = Some (Inr Es, it') \<and>
    lists (\<lambda>k. map_option (level_shown opts) (map_of (content (ld_db d)) k)) opts Es \<and>
    collect (level_Iterator L) d (li_Reset it') = Some (Inr Es, it'')"
proof -
  note laws = leveldb.level_kv_iterator [OF assms(1)]
  obtain it Es where it: "ld_Iterator L None d opts = Inr it" "level_iterates rows pos d it Es Es"
    "lists (\<lambda>k. map_option (level_shown opts) (map_of (content (ld_db d)) k)) opts Es"
    using leveldb.level_iterator_lists [OF assms] unfolding level_shown_def [abs_def] by blast
  from kv_iterator.collect_again [OF laws it(2)] it(1,3) show ?thesis by (auto simp: level_Iterator_def)
qed

abbreviation level_sample :: "(pair list \<times> bool) level_Datastore" where
  "level_sample \<equiv> level_NewDatastoreFrom ([([1], [7]), ([2], []), ([3], [9])], False)"

theorem leveldb_iteration_lists_witness:
  "\<exists>it Es it'. ld_Iterator table_level None level_sample (DefaultIterOptions\<lparr>Reverse := True\<rparr>) = Inr it \<and>
    collect (level_Iterator table_level) level_sample it = Some (Inr Es, it') \<and>
    map_of (map (apfst contents) Es) [3] = Some (Some [9])"
proof -
  let ?opts = "DefaultIterOptions\<lparr>Reverse := True\<rparr>"
  have "\<not> ld_closed level_sample" "End ?opts \<noteq> Some []" "wanted ?opts [3]"
    by (simp_all add: level_NewDatastoreFrom_def DefaultIterOptions_def wanted_def)
  moreover have "map_option (level_shown ?opts) (map_of (table (fst (ld_db level_sample))) [3]) = Some (Some [9])"
    by (simp add: level_NewDatastoreFrom_def DefaultIterOptions_def level_shown_def table_def)
  ultimately show ?thesis
    using leveldb_iteration_lists [OF table_level.leveldb_axioms, of level_sample ?opts]
    by (fastforce simp: lists_def)
qed

text \<open>
  Seek on an iterator of the leveldb store rests on the first entry that is not before
  the key in the direction of the iterator, and Next goes on from there; if there is none it
  returns false.  In reverse this needs a key that is not beyond the last one, or one
  beyond the end of the range.
\<close>

lemma leveldb_seek_finds:
  assumes "leveldb L content rows pos" "level_iterates rows pos d it Es Rs" "level_seekable rows it k"
  shows "\<exists>it'. case dropWhile (key_before (\<not> li_reverse it) k) Es of
      [] \<Rightarrow> li_Seek L d k it = (Inr False, it')
    | (k1, v1) # R1 \<Rightarrow> li_Seek L d k it = (Inr True, it') \<and> li_Key L it' = k1 \<and> li_Value L it' = Inr v1 \<and>
        (\<exists>it''. collect (level_Iterator L) d it' = Some (Inr R1, it''))"
proof -
  note laws = leveldb.level_kv_iterator [OF assms(1)]
  note seek = leveldb.level_seek [OF assms]
  show ?thesis
  proof (cases "dropWhile (key_before (\<not> li_reverse it) k) Es")
    case Nil
    from seek show ?thesis unfolding Nil by (auto simp: level_Iterator_def)
  next
    case (Cons e R1)
    obtain k1 v1 where e: "e = (k1, v1)" by (cases e)
    with seek Cons obtain it' where "li_Seek L d k it = (Inr True, it')" "li_Key L it' = k1" "li_Value L it' = Inr v1"
      "level_iterates rows pos d it' Es R1" by (auto simp: level_Iterator_def)
    with kv_iterator.collect_iterates [OF laws] Cons e show ?thesis by fastforce
  qed
qed

definition level_sample_iter :: "table_it level_iterator" where
  "level_sample_iter =
     \<lparr>li_i = (table [([1], [7]), ([2], []), ([3], [9])], NoPos), li_start = None, li_end = None,
      li_reverse = True, li_keysOnly = False, li_reset = True\<rparr>"

text \<open>
  A reverse Seek to a key beyond the last one, in a range without an end, returns false
  although there are entries before it.
\<close>

lemma leveldb_reverse_seek_misses:
  "fst (li_Seek table_level level_sample (Some [4]) level_sample_iter) = Inr False"
  by (simp add: level_sample_iter_def level_NewDatastoreFrom_def li_Seek_def table_def table_level_def row_from_def Let_def)

subsection \<open>Closing\<close>

text \<open>
  Once the store is closed its iterators and transactions return ErrDBClosed (a transaction
  that could not be opened: the error it got then), and closing it again does nothing.
\<close>

lemma leveldb_closed_refuses:
  assumes "ld_Close L d = (e, d')"
  shows "fst (li_Next L d' it) = Inl ErrDBClosed" "fst (li_Seek L d' k it) = Inl ErrDBClosed"
    "ld_Iterator L None d' opts = Inl ErrDBClosed" "ld_Close L d' = (None, d')"
    "lt_err txn = None \<Longrightarrow> lt_Get L txn d' k = Inl ErrDBClosed \<and> lt_Has L txn d' k = Inl ErrDBClosed \<and>
      lt_Iterator L txn d' opts = Inl ErrDBClosed \<and> lt_Set L txn d' k v = (Some ErrDBClosed, txn) \<and>
      lt_Delete L txn d' k = (Some ErrDBClosed, txn) \<and> lt_Commit L txn d' = (Some ErrDBClosed, txn, d')"
proof -
  have "ld_closed d'" using assms by (auto simp: ld_Close_def Let_def split: if_splits prod.splits)
  then show "fst (li_Next L d' it) = Inl ErrDBClosed" "fst (li_Seek L d' k it) = Inl ErrDBClosed"
    "ld_Iterator L None d' opts = Inl ErrDBClosed" "ld_Close L d' = (None, d')"
    "lt_err txn = None \<Longrightarrow> lt_Get L txn d' k = Inl ErrDBClosed \<and> lt_Has L txn d' k = Inl ErrDBClosed \<and>
      lt_Iterator L txn d' opts = Inl ErrDBClosed \<and> lt_Set L txn d' k v = (Some ErrDBClosed, txn) \<and>
      lt_Delete L txn d' k = (Some ErrDBClosed, txn) \<and> lt_Commit L txn d' = (Some ErrDBClosed, txn, d')"
    by (simp_all add: level_defs)
qed

end
