(* ===== verification/Leveldb_Map.thy ===== *)
theory Leveldb_Map
  imports Leveldb_Props Namespace
begin

text \<open>
  The leveldb store as a map, with its transactions.  The locale \<open>leveldb_db\<close> adds to \<open>leveldb\<close>
  what goleveldb documents of reads, writes and its one transaction at a time: the
  transaction sees the pairs of the database and its own writes, its commit makes these the
  pairs of the database.
\<close>

text \<open>
  \<open>dopen\<close>: the database is open.  \<open>idle\<close>: no transaction is in flight; while one is, writes and
  \<^verbatim>\<open>OpenTransaction\<close> wait for it, so nothing is assumed of them then.  \<open>live db t\<close>: \<open>t\<close> is the
  transaction of \<open>db\<close> in flight, \<open>tcontent\<close> are its pairs.
\<close>

locale leveldb_db = leveldb L content rows pos
  for L :: "('db, 'tx, 'it) level_ops" and content rows pos +
  fixes dopen :: "'db \<Rightarrow> bool"
    and idle :: "'db \<Rightarrow> bool"
    and live :: "'db \<Rightarrow> 'tx \<Rightarrow> bool"
    and tcontent :: "'tx \<Rightarrow> pair list"
    and copied :: "bytes \<Rightarrow> slice"
  assumes gets: "dopen db \<Longrightarrow> db_Get L db k =
      (case map_of (content db) (contents k) of None \<Rightarrow> Inl level_ErrNotFound | Some v \<Rightarrow> Inr (copied v))"
    and hass: "dopen db \<Longrightarrow> db_Has L db k = Inr (map_of (content db) (contents k) \<noteq> None)"
    and puts: "dopen db \<Longrightarrow> idle db \<Longrightarrow> db_Put L db k v = (e, db') \<Longrightarrow>
      e = None \<and> dopen db' \<and> idle db' \<and> map_of (content db') = (map_of (content db))(contents k \<mapsto> contents v)"
    and deletes: "dopen db \<Longrightarrow> idle db \<Longrightarrow> db_Delete L db k = (e, db') \<Longrightarrow>
      e = None \<and> dopen db' \<and> idle db' \<and> map_of (content db') = (map_of (content db))(contents k := None)"
    and opens: "dopen db \<Longrightarrow> idle db \<Longrightarrow> db_OpenTransaction L db = (r, db') \<Longrightarrow>
      \<exists>t. r = Inr t \<and> dopen db' \<and> content db' = content db \<and> live db' t \<and> tcontent t = content db"
    and txn_gets: "live db t \<Longrightarrow> tr_Get L t k =
      (case map_of (tcontent t) (contents k) of None \<Rightarrow> Inl level_ErrNotFound | Some v \<Rightarrow> Inr (copied v))"
    and txn_puts: "live db t \<Longrightarrow> tr_Put L t k v = (e, t') \<Longrightarrow>
      e = None \<and> live db t' \<and> map_of (tcontent t') = (map_of (tcontent t))(contents k \<mapsto> contents v)"
    and txn_deletes: "live db t \<Longrightarrow> tr_Delete L t k = (e, t') \<Longrightarrow>
      e = None \<and> live db t' \<and> map_of (tcontent t') = (map_of (tcontent t))(contents k := None)"
    and txn_commits: "dopen db \<Longrightarrow> live db t \<Longrightarrow> tr_Commit L t db = (e, t', db') \<Longrightarrow>
      e = None \<and> dopen db' \<and> idle db' \<and> content db' = tcontent t"
    and txn_discards: "dopen db \<Longrightarrow> live db t \<Longrightarrow> tr_Discard L t db = (t', db') \<Longrightarrow>
      dopen db' \<and> idle db' \<and> content db' = content db"

text \<open>The store behind the interface, with no transaction in the context.\<close>

definition level_RW :: "('db, 'tx, 'it) level_ops \<Rightarrow> ('db level_Datastore, 'it level_iterator) ReaderWriter" where
  "level_RW L =
     \<lparr>rw_Get = (\<lambda>d k. Some (ld_Get L None d k, d)),
      rw_Has = (\<lambda>d k. Some (ld_Has L None d k, d)),
      rw_Iterator = (\<lambda>d opts. (ld_Iterator L None d opts, d)),
      rw_Set = (\<lambda>d k v. case ld_Set L None d k v of (e, _, d') \<Rightarrow> Some (e, d')),
      rw_Delete = (\<lambda>d k. case ld_Delete L None d k of (e, _, d') \<Rightarrow> Some (e, d')),
      rw_it = level_Iterator L\<rparr>"

definition ld_ok :: "('db \<Rightarrow> bool) \<Rightarrow> ('db \<Rightarrow> bool) \<Rightarrow> nat \<Rightarrow> 'db level_Datastore \<Rightarrow> bool" where
  "ld_ok dopen idle n d \<longleftrightarrow> \<not> ld_closed d \<and> dopen (ld_db d) \<and> idle (ld_db d)"

definition ld_view :: "('db \<Rightarrow> pair list) \<Rightarrow> (bytes \<Rightarrow> slice) \<Rightarrow> 'db level_Datastore \<Rightarrow> bytes \<Rightarrow> slice option" where
  "ld_view content copied d k = map_option copied (map_of (content (ld_db d)) k)"

declare level_RW_def [run_defs] ld_ok_def [run_defs] ld_view_def [run_defs]

text \<open>Writes through the methods of the store, with the transaction of the context if there is one.\<close>

fun ld_writes ::
  "('db, 'tx, 'it) level_ops \<Rightarrow> 'tx lTxn option \<Rightarrow> 'db level_Datastore \<Rightarrow> kv_write list \<Rightarrow>
   err \<times> 'tx lTxn option \<times> 'db level_Datastore" where
  "ld_writes L ctx d [] = (None, ctx, d)"
| "ld_writes L ctx d (W_Set k v # ws) =
     (case ld_Set L ctx d k v of (Some e, ctx, d) \<Rightarrow> (Some e, ctx, d) | (None, ctx, d) \<Rightarrow> ld_writes L ctx d ws)"
| "ld_writes L ctx d (W_Delete k # ws) =
     (case ld_Delete L ctx d k of (Some e, ctx, d) \<Rightarrow> (Some e, ctx, d) | (None, ctx, d) \<Rightarrow> ld_writes L ctx d ws)"

text \<open>A transaction that \<^verbatim>\<open>OpenTransaction\<close> gave without an error.\<close>

abbreviation begun :: "'tx \<Rightarrow> 'tx lTxn" where
  "begun t \<equiv> \<lparr>lt_t = Some t, lt_err = None\<rparr>"

context leveldb_db
begin

lemma level_kv_map: "kv_map (level_RW L) (ld_ok dopen idle) (ld_view content copied) (\<lambda>_ _. True) (\<lambda>v. copied (contents v))"
proof
  fix n d k v assume *: "ld_ok dopen idle (Suc n) d"
  obtain e db where w: "db_Put L (ld_db d) k v = (e, db)" by fastforce
  from puts [OF _ _ w] * w
  show "\<exists>s'. rw_Set (level_RW L) d k v = Some (None, s') \<and> ld_ok dopen idle n s' \<and>
      ld_view content copied s' = (ld_view content copied d)(contents k := Some (copied (contents v)))"
    by (auto simp: level_RW_def ld_Set_def levelErrToKVErr_def ld_view_def ld_ok_def fun_eq_iff)
next
  fix n d k assume *: "ld_ok dopen idle (Suc n) d"
  obtain e db where w: "db_Delete L (ld_db d) k = (e, db)" by fastforce
  from deletes [OF _ _ w] * w
  show "\<exists>s'. rw_Delete (level_RW L) d k = Some (None, s') \<and> ld_ok dopen idle n s' \<and>
      ld_view content copied s' = (ld_view content copied d)(contents k := None)"
    by (auto simp: level_RW_def ld_Delete_def levelErrToKVErr_def ld_view_def ld_ok_def fun_eq_iff)
qed (auto simp: level_RW_def ld_Get_def ld_Has_def ld_view_def ld_ok_def gets hass split: option.splits)

lemma txn_writes:
  assumes "\<not> ld_closed d" "live (ld_db d) t"
  shows "\<exists>t'. ld_writes L (Some (begun t)) d ws = (None, Some (begun t'), d) \<and> live (ld_db d) t' \<and>
    map_of (tcontent t') = batch contents ws (map_of (tcontent t))"
  using assms(2)
proof (induction ws arbitrary: t)
  case (Cons w ws)
  show ?case
  proof (cases w)
    case (W_Set k v)
    obtain e t1 where s: "tr_Put L t k v = (e, t1)" by fastforce
    have t1: "e = None" "live (ld_db d) t1" "map_of (tcontent t1) = (map_of (tcontent t))(contents k \<mapsto> contents v)"
      using txn_puts [OF Cons.prems s] by auto
    from Cons.IH [OF t1(2)] s t1(1) assms(1) show ?thesis
      unfolding W_Set batch.simps t1(3) [symmetric] by (simp add: ld_Set_def lt_Set_def lt_guard_def levelErrToKVErr_def)
  next
    case (W_Delete k)
    obtain e t1 where s: "tr_Delete L t k = (e, t1)" by fastforce
    have t1: "e = None" "live (ld_db d) t1" "map_of (tcontent t1) = (map_of (tcontent t))(contents k := None)"
      using txn_deletes [OF Cons.prems s] by auto
    from Cons.IH [OF t1(2)] s t1(1) assms(1) show ?thesis
      unfolding W_Delete batch.simps t1(3) [symmetric] by (simp add: ld_Delete_def lt_Delete_def lt_guard_def levelErrToKVErr_def)
  qed
qed simp

lemma store_reads: "dopen (ld_db d) \<Longrightarrow> ld_Get L None d k = found (map_option copied (map_of (content (ld_db d)) (contents k)))"
  by (simp add: ld_Get_def gets split: option.splits)

lemma txn_reads: "\<not> ld_closed d \<Longrightarrow> live (ld_db d) t \<Longrightarrow>
  ld_Get L (Some (begun t)) d k = found (map_option copied (map_of (tcontent t) (contents k)))"
  using txn_gets by (simp add: ld_Get_def lt_Get_def lt_guard_def split: option.splits)

lemma new_txn:
  assumes "dopen (ld_db d)" "idle (ld_db d)" "ld_NewTxn L ro d = (txn, d0)"
  obtains t where "txn = begun t" "ld_closed d0 = ld_closed d" "dopen (ld_db d0)" "content (ld_db d0) = content (ld_db d)"
    "live (ld_db d0) t" "tcontent t = content (ld_db d)"
proof -
  obtain r db' where o': "db_OpenTransaction L (ld_db d) = (r, db')" by fastforce
  with opens [OF assms(1,2) o'] assms(3) that show thesis by (auto simp: ld_NewTxn_def)
qed

end

subsection \<open>Tables\<close>

interpretation table_level_db: leveldb_db table_level "\<lambda>db. table (fst db)" fst snd "\<lambda>db. \<not> snd db" "\<lambda>_. True" "\<lambda>db t. \<not> snd db"
    table Some
  by unfold_locales
    (auto simp: table_level_def table_get_def map_of_table_put map_of_table_del ordered_table_put ordered_table_del table_ordered
      split: option.splits)

interpretation table_level_map: kv_map "level_RW table_level" "ld_ok (\<lambda>db. \<not> snd db) (\<lambda>_. True)" "ld_view (\<lambda>db. table (fst db)) Some"
    "\<lambda>_ _. True" "\<lambda>v. Some (contents v)"
  by (rule table_level_db.level_kv_map)

interpretation ns_table_level: kv_map "Wrap (level_RW table_level) (Some [1])" "ld_ok (\<lambda>db. \<not> snd db) (\<lambda>_. True)"
    "\<lambda>d k. ld_view (\<lambda>db. table (fst db)) Some d (contents (Some [1]) @ k)" "\<lambda>k v. True" "\<lambda>v. Some (contents v)"
  using table_level_map.namespace_kv_map [of "Some [1]"] by simp

subsection \<open>Batches\<close>

text \<open>
  C14.  Writes through a transaction of the leveldb store are one batch: sets and deletes
  through the store's methods, with the transaction in the context, succeed; reads with it
  in the context see the writes in their order; reads without it see the store as it was;
  after the commit every read sees the store with all of the writes, and after a discard
  instead every read sees the store as it was.
\<close>

theorem leveldb_batch:
  assumes "leveldb_db L content rows pos dopen idle live tcontent copied"
    and "\<not> ld_closed d" "dopen (ld_db d)" "idle (ld_db d)" "ld_NewTxn L ro d = (txn, d0)"
  shows "\<exists>txn1 txn2 d1. ld_writes L (Some txn) d0 ws = (None, Some txn1, d0) \<and> lt_Commit L txn1 d0 = (None, txn2, d1) \<and>
    ld_Get L (Some txn1) d0 k = found (map_option copied (batch contents ws (map_of (content (ld_db d))) (contents k))) \<and>
    ld_Get L None d0 k = found (map_option copied (map_of (content (ld_db d)) (contents k))) \<and>
    ld_Get L None d1 k = found (map_option copied (batch contents ws (map_of (content (ld_db d))) (contents k))) \<and>
    ld_Get L None (snd (lt_Discard L txn1 d0)) k = found (map_option copied (map_of (content (ld_db d)) (contents k)))"
proof -
  note db = assms(1)
  obtain t where t: "txn = begun t" "ld_closed d0 = ld_closed d" "dopen (ld_db d0)" "content (ld_db d0) = content (ld_db d)"
    "live (ld_db d0) t" "tcontent t = content (ld_db d)" using leveldb_db.new_txn [OF db assms(3-5)] .
  have open': "\<not> ld_closed d0" using t(2) assms(2) by simp
  obtain t1 where w: "ld_writes L (Some txn) d0 ws = (None, Some (begun t1), d0)" "live (ld_db d0) t1"
    "map_of (tcontent t1) = batch contents ws (map_of (content (ld_db d)))"
    using leveldb_db.txn_writes [OF db open' t(5)] t(1,6) by auto
  obtain e t2 db1 where c: "tr_Commit L t1 (ld_db d0) = (e, t2, db1)" using prod_cases3 by blast
  note c' = leveldb_db.txn_commits [OF db t(3) w(2) c]
  obtain t3 db2 where x: "tr_Discard L t1 (ld_db d0) = (t3, db2)" by fastforce
  note x' = leveldb_db.txn_discards [OF db t(3) w(2) x]
  note reads = leveldb_db.store_reads [OF db]
  show ?thesis
    using w c c' x x' open' t(3,4) reads [of d0] reads [of "d0\<lparr>ld_db := db1\<rparr>"] reads [of "d0\<lparr>ld_db := db2\<rparr>"]
      leveldb_db.txn_reads [OF db open' w(2)]
    by (simp add: lt_Commit_def lt_guard_def lt_Discard_def levelErrToKVErr_def)
qed

theorem leveldb_batch_witness:
  "\<exists>txn1 txn2 d1. ld_writes table_level (Some (begun [([1], [7])])) (level_NewDatastoreFrom ([([1], [7])], False))
      [W_Set (Some [2]) (Some [9]), W_Delete (Some [1])] = (None, Some txn1, level_NewDatastoreFrom ([([1], [7])], False)) \<and>
    lt_Commit table_level txn1 (level_NewDatastoreFrom ([([1], [7])], False)) = (None, txn2, d1) \<and>
    ld_Get table_level None (level_NewDatastoreFrom ([([1], [7])], False)) (Some [1]) = Inr (Some [7]) \<and>
    ld_Get table_level None d1 (Some [1]) = Inl ErrNotFound"
  using leveldb_batch [OF table_level_db.leveldb_db_axioms, where d = "level_NewDatastoreFrom ([([1], [7])], False)" and ro = False
      and d0 = "level_NewDatastoreFrom ([([1], [7])], False)" and txn = "begun [([1], [7])]"
      and ws = "[W_Set (Some [2]) (Some [9]), W_Delete (Some [1])]" and k = "Some [1]"]
  by (auto simp: level_NewDatastoreFrom_def ld_NewTxn_def table_level_def table_def)

end
