(* ===== verification/Mem_System.thy ===== *)
theory Mem_System
  imports Mem_Props
begin

text \<open>
  The store with its transactions as a state machine: any number of transactions are open at
  once and their methods, and those of the store, are called in any order.  Along a run the
  maps the store has shown at its successive versions are collected; the invariant says that
  each of them stays readable at its version, which is what transactions read from.

  \<^verbatim>\<open>DropAll\<close> is not a call of the machine: it removes rows that running transactions still
  read.  The theory \<open>Mem_Background\<close> adds the purge and the other goroutine of the store.
\<close>

record ('t, 'u) mem_system =
  sys_store :: "('t, 'u) Datastore"
  sys_txns :: "nat \<Rightarrow> 't basicTxn option"

datatype sys_call =
    Begin nat bool
  | GetIn nat slice
  | HasIn nat slice
  | SizeIn nat slice
  | SetIn nat slice slice
  | DeleteIn nat slice
  | CommitOf nat
  | DiscardOf nat
  | SetNow slice slice
  | DeleteNow slice
  | CloseNow

text \<open>A method of transaction \<open>i\<close>; an identifier that names no transaction does nothing.\<close>

definition on_txn ::
  "nat \<Rightarrow> ('t basicTxn \<Rightarrow> ('t basicTxn \<times> ('t, 'u) Datastore) option) \<Rightarrow> ('t, 'u) mem_system \<Rightarrow> ('t, 'u) mem_system option" where
  "on_txn i f s =
     (case sys_txns s i of
        None \<Rightarrow> Some s
      | Some t \<Rightarrow> map_option (\<lambda>(t, d). \<lparr>sys_store = d, sys_txns = (sys_txns s)(i := Some t)\<rparr>) (f t))"

fun sys_step ::
  "('t, dsItem, 'i) btree_ops \<Rightarrow> ('u, dsTxn, 'j) btree_ops \<Rightarrow> time \<Rightarrow> sys_call \<Rightarrow> ('t, 'u) mem_system \<Rightarrow>
   ('t, 'u) mem_system option" where
  "sys_step B T now (Begin i ro) s =
     (if sys_txns s i \<noteq> None then Some s
      else let (t, d) = NewTxn B T now ro (sys_store s) in Some \<lparr>sys_store = d, sys_txns = (sys_txns s)(i := Some t)\<rparr>)"
| "sys_step B T now (GetIn i k) s = on_txn i (\<lambda>t. Some (snd (txn_Get B t (sys_store s) k), sys_store s)) s"
| "sys_step B T now (HasIn i k) s = on_txn i (\<lambda>t. Some (snd (txn_Has B t (sys_store s) k), sys_store s)) s"
| "sys_step B T now (SizeIn i k) s = on_txn i (\<lambda>t. Some (snd (txn_GetSize B t (sys_store s) k), sys_store s)) s"
| "sys_step B T now (SetIn i k v) s = on_txn i (\<lambda>t. Some (snd (txn_Set B t (sys_store s) k v), sys_store s)) s"
| "sys_step B T now (DeleteIn i k) s = on_txn i (\<lambda>t. Some (snd (txn_Delete B t (sys_store s) k), sys_store s)) s"
| "sys_step B T now (CommitOf i) s = on_txn i (\<lambda>t. map_option snd (txn_Commit B T now t (sys_store s))) s"
| "sys_step B T now (DiscardOf i) s = on_txn i (\<lambda>t. txn_Discard B T now t (sys_store s)) s"
| "sys_step B T now (SetNow k v) s =
     map_option (\<lambda>(_, _, d). s\<lparr>sys_store := d\<rparr>) (Datastore_Set B T now now None (sys_store s) k v)"
| "sys_step B T now (DeleteNow k) s =
     map_option (\<lambda>(_, _, d). s\<lparr>sys_store := d\<rparr>) (Datastore_Delete B T now now None (sys_store s) k)"
| "sys_step B T now CloseNow s = Some (s\<lparr>sys_store := snd (Close (sys_store s))\<rparr>)"

text \<open>
  \<open>sys_run n s H\<close>: \<open>s\<close> is reached from the empty store by \<open>n\<close> calls, and \<open>H\<close> are the maps the store
  has shown, one for each of its versions.
\<close>

inductive sys_run ::
  "('t, dsItem, 'i) btree_ops \<Rightarrow> ('u, dsTxn, 'j) btree_ops \<Rightarrow> ('t \<Rightarrow> dsItem list) \<Rightarrow>
   nat \<Rightarrow> ('t, 'u) mem_system \<Rightarrow> (bytes \<Rightarrow> slice option) list \<Rightarrow> bool"
  for B T items where
  start: "sys_run B T items 0 \<lparr>sys_store = NewDatastore B T, sys_txns = (\<lambda>_. None)\<rparr> [\<lambda>_. None]"
| call: "sys_run B T items n s H \<Longrightarrow> sys_step B T now c s = Some s' \<Longrightarrow>
    H' = (if ds_version (sys_store s') = ds_version (sys_store s) then H else H @ [store_view items (sys_store s')]) \<Longrightarrow>
    sys_run B T items (Suc n) s' H'"

inductive_cases sys_run_SucE: "sys_run B T items (Suc n) s H"

subsection \<open>Invariant\<close>

text \<open>
  \<open>p\<close> is the lowest version that is still whole: the calls of the machine keep it, the purge
  raises it.
\<close>

definition sys_inv ::
  "('t \<Rightarrow> dsItem list) \<Rightarrow> ('u \<Rightarrow> dsTxn list) \<Rightarrow> u64 \<Rightarrow> nat \<Rightarrow> ('t, 'u) mem_system \<Rightarrow> (bytes \<Rightarrow> slice option) list \<Rightarrow> bool" where
  "sys_inv items fitems p n s H \<longleftrightarrow>
     store_inv items (sys_store s) \<and> unat (ds_version (sys_store s)) \<le> n \<and> (closing (sys_store s) \<longleftrightarrow> closed (sys_store s)) \<and>
     (\<forall>i t. sys_txns s i = Some t \<longrightarrow> txn_wf items t (sys_store s)) \<and>
     (\<forall>e \<in> set (fitems (inFlightTxn (sys_store s))). ft_dsVersion e \<le> ds_version (sys_store s)) \<and>
     length H = Suc (unat (ds_version (sys_store s))) \<and> p \<le> ds_version (sys_store s) \<and>
     (\<forall>v. p \<le> v \<and> v \<le> ds_version (sys_store s) \<longrightarrow> view (items (ds_values (sys_store s))) v = H ! unat v)"

text \<open>
  What a call may do to the rows: nothing, or add rows at the next version.  It lists no
  running transaction but one of the current version, and may close the store.
\<close>

definition grown :: "('t \<Rightarrow> dsItem list) \<Rightarrow> ('t, 'u) Datastore \<Rightarrow> ('t, 'u) Datastore \<Rightarrow> bool" where
  "grown items d d' \<longleftrightarrow>
     ds_version d' = ds_version d + 1 \<and> store_inv items d' \<and>
     set (items (ds_values d)) \<subseteq> set (items (ds_values d')) \<and>
     (\<forall>v \<le> ds_version d. view (items (ds_values d')) v = view (items (ds_values d)) v)"

definition evolves :: "('t \<Rightarrow> dsItem list) \<Rightarrow> ('u \<Rightarrow> dsTxn list) \<Rightarrow> ('t, 'u) Datastore \<Rightarrow> ('t, 'u) Datastore \<Rightarrow> bool" where
  "evolves items fitems d d' \<longleftrightarrow>
     (ds_version d' = ds_version d \<and> ds_values d' = ds_values d \<or> grown items d d') \<and>
     (\<forall>e \<in> set (fitems (inFlightTxn d')). e \<in> set (fitems (inFlightTxn d)) \<or> ft_dsVersion e = ds_version d) \<and>
     (closed d' = closed d \<and> closing d' = closing d \<or> closed d' \<and> closing d')"

lemma evolves_refl [simp]: "evolves items fitems d d"
  by (simp add: evolves_def)

lemma evolves_cases [consumes 1, case_names quiet grown]:
  assumes "evolves items fitems d d'"
  obtains "ds_version d' = ds_version d" "ds_values d' = ds_values d" | "grown items d d'"
  using assms unfolding evolves_def by blast

lemma same_rows:
  assumes "ds_version d' = ds_version d" "ds_values d' = ds_values d"
  shows "store_inv items d' = store_inv items d" "txn_wf items t d' = txn_wf items t d" "store_view items d' = store_view items d"
    "grown items d' = grown items d"
  using assms by (simp_all add: store_inv_def txn_wf_def store_view_def grown_def fun_eq_iff)

lemma evolves_trans1:
  assumes "ds_version d1 = ds_version d" "ds_values d1 = ds_values d" "evolves items fitems d d1" "evolves items fitems d1 d'"
  shows "evolves items fitems d d'"
  using assms(1,2,4) assms(3) [unfolded evolves_def] same_rows(4) [OF assms(1,2), of items] unfolding evolves_def by auto

lemma next_version:
  assumes "sys_inv items fitems p n s H" "n < 2 ^ 64 - 1" "grown items (sys_store s) d'"
  shows "unat (ds_version d') = Suc (unat (ds_version (sys_store s)))"
proof -
  have "unat (ds_version (sys_store s)) + 1 < 2 ^ 64" using assms(1,2) by (simp add: sys_inv_def)
  then show ?thesis using assms(3) by (simp add: grown_def unat_word_ariths)
qed

lemma evolve_txn_wf:
  assumes "sys_inv items fitems p n s H" "n < 2 ^ 64 - 1" "evolves items fitems (sys_store s) d'" "txn_wf items t (sys_store s)"
  shows "txn_wf items t d'"
  using assms(3)
proof (cases rule: evolves_cases)
  case quiet
  with assms(4) same_rows(2) [OF quiet] show ?thesis by simp
next
  case grown
  with next_version [OF assms(1,2) grown] assms(4) show ?thesis by (simp add: txn_wf_def word_le_nat_alt)
qed

lemma evolve_flights:
  assumes "sys_inv items fitems p n s H" "n < 2 ^ 64 - 1" "evolves items fitems (sys_store s) d'"
    and "e \<in> set (fitems (inFlightTxn d'))"
  shows "ft_dsVersion e \<le> ds_version d'"
proof -
  have "ft_dsVersion e \<le> ds_version (sys_store s)"
    using assms(1,3,4) unfolding sys_inv_def evolves_def by auto
  moreover have "ds_version (sys_store s) \<le> ds_version d'"
    using assms(3) by (cases rule: evolves_cases) (simp_all add: next_version [OF assms(1,2)] word_le_nat_alt)
  ultimately show ?thesis by (rule order_trans)
qed

lemma evolve_history:
  assumes "sys_inv items fitems p n s H" "n < 2 ^ 64 - 1" "grown items (sys_store s) d'" "p \<le> v" "v \<le> ds_version d'"
  shows "view (items (ds_values d')) v = (H @ [store_view items d']) ! unat v"
proof (cases "v \<le> ds_version (sys_store s)")
  case True
  then have "unat v < length H" using assms(1) by (simp add: sys_inv_def word_le_nat_alt)
  with True assms(1,3,4) show ?thesis by (simp add: sys_inv_def grown_def nth_append)
next
  case False
  with assms(5) next_version [OF assms(1-3)] have "unat v = unat (ds_version d')" by (simp add: word_le_nat_alt)
  then have "v = ds_version d'" by (rule word_unat_eq_iff [THEN iffD2])
  with next_version [OF assms(1-3)] assms(1) show ?thesis by (simp add: sys_inv_def store_view_def nth_append)
qed

lemma evolve_inv:
  assumes inv: "sys_inv items fitems p n s H" "n < 2 ^ 64 - 1" "evolves items fitems (sys_store s) d'"
    and "\<And>i t. X i = Some t \<Longrightarrow> sys_txns s i = Some t \<or> txn_wf items t d'"
  shows "sys_inv items fitems p (Suc n) \<lparr>sys_store = d', sys_txns = X\<rparr>
    (if ds_version d' = ds_version (sys_store s) then H else H @ [store_view items d'])"
proof -
  have wf: "txn_wf items t d'" if "X i = Some t" for i t
    using assms(4) [OF that] inv(1) evolve_txn_wf [OF inv] unfolding sys_inv_def by blast
  note flights = evolve_flights [OF inv]
  have flags: "closing d' \<longleftrightarrow> closed d'" using inv(1,3) unfolding sys_inv_def evolves_def by auto
  from inv(3) show ?thesis
  proof (cases rule: evolves_cases)
    case quiet
    with inv(1) wf flights flags same_rows [OF quiet] show ?thesis by (simp add: sys_inv_def)
  next
    case grown
    note up = next_version [OF inv(1,2) grown]
    then have "ds_version d' \<noteq> ds_version (sys_store s)" by auto
    moreover have "p \<le> ds_version d'" using inv(1) up by (simp add: sys_inv_def word_le_nat_alt)
    ultimately show ?thesis
      using evolve_history [OF inv(1,2) grown] grown inv(1) wf flights flags up by (simp add: sys_inv_def grown_def)
  qed
qed

lemma txn_reads_history:
  assumes "sys_inv items fitems p n s H" "sys_txns s i = Some t" "p \<le> dsVersion t"
    and "key (latest (items (ops t)) k (dsVersion t + 1)) = None"
  shows "unat (dsVersion t) < length H \<and> txn_view items t (sys_store s) k = (H ! unat (dsVersion t)) k"
proof -
  have "txn_wf items t (sys_store s)" using assms(1,2) unfolding sys_inv_def by blast
  then have "dsVersion t \<le> ds_version (sys_store s)" by (simp add: txn_wf_def)
  with assms show ?thesis by (simp add: sys_inv_def txn_view_def word_le_nat_alt)
qed

context mem_trees
begin

lemma txn_get_wf: "txn_wf items t d \<Longrightarrow> txn_wf items (snd (txn_get B t d k)) d"
  by (auto simp: txn_get_def txn_wf_def writes_def items_set set_list_set Let_def)

lemma reads_keep_wf:
  assumes "txn_wf items t d"
  shows "txn_wf items (snd (txn_Get B t d k)) d" "txn_wf items (snd (txn_Has B t d k)) d" "txn_wf items (snd (txn_GetSize B t d k)) d"
  using assms txn_get_wf [OF assms, of k] by (auto simp: txn_Get_def txn_Has_def txn_GetSize_def Let_def split_def)

lemma stage_wf:
  assumes "txn_wf items t d" "version x = dsVersion t + 1" "kb x \<noteq> []"
  shows "txn_wf items (t\<lparr>ops := bt_set B (ops t) x\<rparr>) d"
  using assms by (auto simp: txn_wf_def writes_def items_set set_list_set)

lemma writes_keep_wf:
  assumes "txn_wf items t d"
  shows "txn_wf items (snd (txn_Set B t d k v)) d" "txn_wf items (snd (txn_Delete B t d k)) d"
proof -
  show "txn_wf items (snd (txn_Set B t d k v)) d"
    using assms by (auto simp: txn_Set_def getTxnVersion_def getDSVersion_def len_0_iff intro!: stage_wf)
  show "txn_wf items (snd (txn_Delete B t d k)) d"
    using assms txn_get_wf [OF assms, of k]
    by (auto simp: txn_Delete_def getTxnVersion_def getDSVersion_def len_0_iff split_def Let_def intro!: stage_wf)
qed

lemma cleared_wf: "txn_wf items t d \<Longrightarrow> txn_wf items (t\<lparr>ops := bt_clear B (ops t), discarded := True\<rparr>) d"
  by (simp add: txn_wf_def writes_def items_clear)

lemma discard_flights:
  assumes "txn_Discard B T now t d = Some (t', d')"
  shows "set (fitems (inFlightTxn d')) \<subseteq> set (fitems (inFlightTxn d))"
proof (cases "discarded t")
  case False
  obtain u where "txn_Discard B T now t d = Some (t\<lparr>ops := bt_clear B (ops t), discarded := True\<rparr>, d\<lparr>inFlightTxn := u\<rparr>)"
    "fitems u = filter (\<lambda>x. \<not> now > ft_expiresAt x \<and>
      \<not> (ft_dsVersion x = dsVersion t \<and> ft_txnVersion x = dsVersion t + 1)) (fitems (inFlightTxn d))"
    using txn_Discard_returns [OF False, of now d] .
  with assms show ?thesis by auto
qed (use assms in \<open>simp add: txn_Discard_def\<close>)

lemma discard_evolves:
  assumes "txn_wf items t d"
  shows "\<exists>t' d'. txn_Discard B T now t d = Some (t', d') \<and> evolves items fitems d d' \<and> txn_wf items t' d'"
proof (cases "discarded t")
  case False
  obtain u where u: "txn_Discard B T now t d = Some (t\<lparr>ops := bt_clear B (ops t), discarded := True\<rparr>, d\<lparr>inFlightTxn := u\<rparr>)"
    using txn_Discard_returns [OF False, of now d] .
  with cleared_wf [OF assms] discard_flights [OF u] show ?thesis by (auto simp: evolves_def)
qed (use assms in \<open>simp add: txn_Discard_def\<close>)

lemma commit_grown:
  assumes inv: "store_inv items d" "txn_wf items t d" and max: "ds_version d \<noteq> - 1"
    and tree: "items tree = commit_items (ds_version d + 1) (items (ds_values d)) (writes items t)"
  shows "grown items d (d\<lparr>ds_version := ds_version d + 1, ds_values := tree\<rparr>)"
proof -
  have less: "ds_version d < ds_version d + 1" using max by (rule word_less_plus_1)
  have "set (items (ds_values d)) \<subseteq> set (items tree)"
    unfolding tree by (rule commit_items_keeps) (use store_invD(3) [OF inv(1)] less in \<open>auto dest: le_less_trans\<close>)
  moreover have "view (items tree) v = view (items (ds_values d)) v" if "v \<le> ds_version d" for v
    using commit_view [OF inv max tree, of v] that less by (auto simp: fun_eq_iff)
  ultimately show ?thesis using commit_store_inv [OF inv max tree] by (simp add: grown_def)
qed

lemma commit_evolves:
  assumes inv: "store_inv items d" "txn_wf items t d" and max: "ds_version d \<noteq> - 1"
  shows "\<exists>e t' d'. txn_Commit B T now t d = Some (e, t', d') \<and> evolves items fitems d d' \<and> txn_wf items t' d'"
proof -
  have closed: ?thesis if "closed d \<or> discarded t" using that assms(2) by (auto simp: txn_Commit_def)
  have quiet: ?thesis if "\<not> closed d" "commit B t d = Some (e, d) \<or> readOnly t" "\<not> discarded t" for e
    using that discard_evolves [OF assms(2), of now] by (auto simp: txn_Commit_def)
  have commits: ?thesis if live: "\<not> closed d" "\<not> discarded t" "\<not> readOnly t" "\<not> conflicts items t d"
  proof -
    obtain tree where c: "commit B t d = Some (None, d\<lparr>ds_version := ds_version d + 1, ds_values := tree\<rparr>)"
      "items tree = commit_items (ds_version d + 1) (items (ds_values d)) (writes items t)" using commit_ok [OF live(4)] .
    let ?d = "d\<lparr>ds_version := ds_version d + 1, ds_values := tree\<rparr>"
    note grown = commit_grown [OF inv max c(2)]
    have "dsVersion t \<le> ds_version d + 1"
      using inv(2) word_less_plus_1 [OF max] unfolding txn_wf_def by (meson le_less_trans less_imp_le)
    then have wf: "txn_wf items t ?d" using inv(2) by (simp add: txn_wf_def)
    from discard_evolves [OF wf, of now] obtain t' d' where d: "txn_Discard B T now t ?d = Some (t', d')"
      "evolves items fitems ?d d'" "txn_wf items t' d'" by blast
    obtain u where "txn_Discard B T now t ?d = Some (t\<lparr>ops := bt_clear B (ops t), discarded := True\<rparr>, ?d\<lparr>inFlightTxn := u\<rparr>)"
      using txn_Discard_returns [OF live(2), of now ?d] .
    with d(1) have u: "d' = ?d\<lparr>inFlightTxn := u\<rparr>" by simp
    have "grown items d d'" "closed d' = closed d" "closing d' = closing d" using grown unfolding u by (simp_all add: grown_def)
    then have "evolves items fitems d d'" using discard_flights [OF d(1)] by (auto simp: evolves_def)
    with live c d show ?thesis by (simp add: txn_Commit_def)
  qed
  show ?thesis using closed quiet commits commit_conflict by blast
qed

lemma new_evolves:
  assumes "ds_version d \<noteq> - 1" "newTransaction B T now ro d = (t, d')"
  shows "evolves items fitems d d' \<and> txn_wf items t d'"
  using assms by (auto simp: newTransaction_def getVersion_def Let_def evolves_def txn_wf_def writes_def items_new F.items_set list_set_def)

lemma store_writes_evolve:
  assumes "store_inv items d" "ds_version d \<noteq> - 1"
  shows "\<exists>e c d'. Datastore_Set B T t0 t1 None d k v = Some (e, c, d') \<and> evolves items fitems d d'"
    "\<exists>e c d'. Datastore_Delete B T t0 t1 None d k = Some (e, c, d') \<and> evolves items fitems d d'"
proof -
  obtain t d1 where new: "newTransaction B T t0 False d = (t, d1)" by fastforce
  note n = newTransaction_eq [OF new] newTransaction_inv(2) [OF new assms]
  note e = new_evolves [OF assms(2) new]
  have c: "\<exists>e t' d'. txn_Commit B T t1 x d1 = Some (e, t', d') \<and> evolves items fitems d d'" if "txn_wf items x d1" for x
    using commit_evolves [OF n(8) that, of t1] assms(2) n(5) e evolves_trans1 [OF n(5,6)] by metis
  have x: "\<exists>t' d'. txn_Discard B T t1 x d1 = Some (t', d') \<and> evolves items fitems d d'" if "txn_wf items x d1" for x
    using discard_evolves [OF that, of t1] e evolves_trans1 [OF n(5,6)] by metis
  note w = writes_keep_wf [of t d1 k] 
  have "\<exists>e c d'. Datastore_Set B T t0 t1 None d k v = Some (e, c, d') \<and> evolves items fitems d d'"
    if "\<not> (closed d \<or> len k = 0)"
    using that c [OF w(1), of v] x [OF w(1), of v] e
    by (cases "txn_Set B t d1 k v") (auto simp: Datastore_Set_def new)
  then show "\<exists>e c d'. Datastore_Set B T t0 t1 None d k v = Some (e, c, d') \<and> evolves items fitems d d'"
    by (cases "closed d \<or> len k = 0") (auto simp: Datastore_Set_def)
  have "\<exists>e c d'. Datastore_Delete B T t0 t1 None d k = Some (e, c, d') \<and> evolves items fitems d d'"
    if "\<not> (closed d \<or> len k = 0)"
    using that c [OF w(2)] e by (cases "txn_Delete B t d1 k") (auto simp: Datastore_Delete_def new)
  then show "\<exists>e c d'. Datastore_Delete B T t0 t1 None d k = Some (e, c, d') \<and> evolves items fitems d d'"
    by (cases "closed d \<or> len k = 0") (auto simp: Datastore_Delete_def)
qed

text \<open>Every call returns, keeps the invariant and extends the history.\<close>

lemma on_txn_evolves:
  assumes "sys_inv items fitems p n s H" "n < 2 ^ 64 - 1"
    and "\<And>t. sys_txns s i = Some t \<Longrightarrow> txn_wf items t (sys_store s) \<Longrightarrow>
      \<exists>t' d'. f t = Some (t', d') \<and> evolves items fitems (sys_store s) d' \<and> txn_wf items t' d'"
  shows "\<exists>s'. on_txn i f s = Some s' \<and> evolves items fitems (sys_store s) (sys_store s') \<and>
    (\<forall>j t. sys_txns s' j = Some t \<longrightarrow> sys_txns s j = Some t \<or> txn_wf items t (sys_store s'))"
proof (cases "sys_txns s i")
  case (Some t)
  moreover have "txn_wf items t (sys_store s)" using assms(1) Some by (auto simp: sys_inv_def)
  ultimately show ?thesis using assms(3) [OF Some] by (fastforce simp: on_txn_def)
qed (simp add: on_txn_def)

lemma max_version:
  assumes "sys_inv items fitems p n s H" "n < 2 ^ 64 - 1"
  shows "ds_version (sys_store s) \<noteq> - 1"
proof
  assume "ds_version (sys_store s) = - 1"
  then have "unat (ds_version (sys_store s)) = 2 ^ 64 - 1" by (simp add: unsigned_minus_1_eq_mask mask_eq_exp_minus_1)
  with assms show False by (simp add: sys_inv_def)
qed

lemma step_evolves:
  assumes "sys_inv items fitems p n s H" "n < 2 ^ 64 - 1"
  shows "\<exists>s'. sys_step B T now c s = Some s' \<and> evolves items fitems (sys_store s) (sys_store s') \<and>
    (\<forall>j t. sys_txns s' j = Some t \<longrightarrow> sys_txns s j = Some t \<or> txn_wf items t (sys_store s'))"
proof -
  note inv = assms(1) [unfolded sys_inv_def]
  then have store: "store_inv items (sys_store s)" by blast
  note max = max_version [OF assms]
  note on = on_txn_evolves [OF assms]
  have close: "evolves items fitems (sys_store s) (snd (Close (sys_store s)))" by (simp add: Close_def evolves_def)
  show ?thesis
  proof (cases c)
    case (Begin i ro)
    then show ?thesis using new_evolves [OF max, of now ro] by (cases "sys_txns s i") (auto simp: NewTxn_def split: prod.split)
  next
    case (SetNow k v)
    then show ?thesis using store_writes_evolve(1) [OF store max, of now now k v] by auto
  next
    case (DeleteNow k)
    then show ?thesis using store_writes_evolve(2) [OF store max, of now now k] by auto
  next
    case (CommitOf i)
    have "\<exists>t' d'. map_option snd (txn_Commit B T now t (sys_store s)) = Some (t', d') \<and> evolves items fitems (sys_store s) d' \<and> txn_wf items t' d'"
      if "txn_wf items t (sys_store s)" for t using commit_evolves [OF store that max, of now] by auto
    with on [of i "\<lambda>t. map_option snd (txn_Commit B T now t (sys_store s))"] CommitOf show ?thesis by simp
  next
    case (DiscardOf i)
    with on [of i "\<lambda>t. txn_Discard B T now t (sys_store s)"] discard_evolves [of _ "sys_store s" now] show ?thesis by simp
  qed (simp_all add: on reads_keep_wf writes_keep_wf close)
qed

lemma step_inv:
  assumes "sys_inv items fitems p n s H" "n < 2 ^ 64 - 1" "sys_step B T now c s = Some s'"
    and "H' = (if ds_version (sys_store s') = ds_version (sys_store s) then H else H @ [store_view items (sys_store s')])"
  shows "sys_inv items fitems p (Suc n) s' H'"
  using step_evolves [OF assms(1,2), of now c] assms(3,4) evolve_inv [OF assms(1,2), of "sys_store s'" "sys_txns s'"]
  by (cases s') auto

lemma start_inv: "sys_inv items fitems 0 0 \<lparr>sys_store = NewDatastore B T, sys_txns = (\<lambda>_. None)\<rparr> [\<lambda>_. None]"
  by (simp add: sys_inv_def NewDatastore_def store_inv_def items_new F.items_new view_def fun_eq_iff)

lemma run_inv: "sys_run B T items n s H \<Longrightarrow> n < 2 ^ 64 \<Longrightarrow> sys_inv items fitems 0 n s H"
proof (induction rule: sys_run.induct)
  case start
  show ?case by (rule start_inv)
next
  case (call n s H now c s' H')
  then show ?case using step_inv [of 0 n s H now c s' H'] by simp
qed

text \<open>Writes on an open transaction, one after the other.\<close>

lemma sets_collect:
  assumes "txn_inv items t d" "\<not> closed d" "\<not> discarded t" "\<not> readOnly t" "list_all (\<lambda>(k, v). len k \<noteq> 0) ws"
  shows "\<exists>t'. fold (\<lambda>(k, v) t. snd (txn_Set B t d k v)) ws t = t' \<and> txn_inv items t' d \<and> \<not> discarded t' \<and> \<not> readOnly t' \<and>
    dsVersion t' = dsVersion t \<and> txn_view items t' d = fold (\<lambda>(k, v) m. m(contents k := Some v)) ws (txn_view items t d)"
  using assms
proof (induction ws arbitrary: t)
  case (Cons w ws)
  obtain k v where w: "w = (k, v)" by (cases w)
  from txn_Set_eq [OF Cons.prems(1-4), of k v] Cons.prems(5) w obtain t1 where "txn_Set B t d k v = (None, t1)" "txn_inv items t1 d"
    "txn_view items t1 d = (txn_view items t d)(contents k := Some v)" "dsVersion t1 = dsVersion t"
    "discarded t1 = discarded t" "readOnly t1 = readOnly t" by auto
  with Cons.IH [of t1] Cons.prems w show ?case by simp
qed simp

end

subsection \<open>Properties of runs\<close>

text \<open>
  C2.  Every version of the store stays as it was when it was current.  After any sequence of
  fewer than 2^64 calls on the store and on any number of transactions, interleaved in any
  way, the store reads at each of its versions the map it showed when it was at that
  version, and every transaction, open or ended, reads a key it has no own row for from the
  version it was begun at.
\<close>

theorem history_preserved:
  assumes "mem_trees B T items its pos fitems fits fpos" "sys_run B T items n s H" "n < 2 ^ 64"
  shows "length H = Suc (unat (ds_version (sys_store s))) \<and>
    (\<forall>v \<le> ds_version (sys_store s). view (items (ds_values (sys_store s))) v = H ! unat v) \<and>
    (\<forall>i t k. sys_txns s i = Some t \<longrightarrow> key (latest (items (ops t)) k (dsVersion t + 1)) = None \<longrightarrow>
       unat (dsVersion t) < length H \<and> txn_view items t (sys_store s) k = (H ! unat (dsVersion t)) k)"
proof -
  note inv = mem_trees.run_inv [OF assms]
  show ?thesis using inv [unfolded sys_inv_def] txn_reads_history [OF inv] by simp
qed

text \<open>Two transactions that write the same key; the second one to commit is refused.\<close>

definition sample_calls :: "sys_call list" where
  "sample_calls = [SetNow (Some [1]) (Some [7]), Begin 0 False, Begin 1 False, SetIn 0 (Some [1]) (Some [8]),
     SetIn 1 (Some [1]) (Some [9]), CommitOf 0, CommitOf 1]"

fun sys_steps ::
  "('t, dsItem, 'i) btree_ops \<Rightarrow> ('u, dsTxn, 'j) btree_ops \<Rightarrow> sys_call list \<Rightarrow> ('t, 'u) mem_system \<Rightarrow> ('t, 'u) mem_system option" where
  "sys_steps B T [] s = Some s"
| "sys_steps B T (c # cs) s = Option.bind (sys_step B T 0 c s) (sys_steps B T cs)"

abbreviation sys_start :: "(dsItem list, dsTxn list) mem_system" where
  "sys_start \<equiv> \<lparr>sys_store = NewDatastore lB lT, sys_txns = (\<lambda>_. None)\<rparr>"

lemma sys_steps_run:
  "sys_steps B T cs s = Some s' \<Longrightarrow> sys_run B T items n s H \<Longrightarrow> \<exists>H'. sys_run B T items (n + length cs) s' H'"
proof (induction cs arbitrary: n s H)
  case (Cons c cs)
  from Cons.prems(1) obtain s1 where s1: "sys_step B T 0 c s = Some s1" "sys_steps B T cs s1 = Some s'"
    by (auto simp: bind_eq_Some_conv)
  from Cons.IH [OF s1(2) sys_run.call [OF Cons.prems(2) s1(1) refl]] show ?case by simp
qed auto

lemma sample_run:
  "\<exists>s. sys_steps lB lT sample_calls sys_start = Some s \<and> ds_version (sys_store s) = 2 \<and>
     view (lI (ds_values (sys_store s))) 1 [1] = Some (Some [7]) \<and> store_view lI (sys_store s) [1] = Some (Some [8])"
  by (simp add: sample_calls_def on_txn_def run_defs for_next.simps clearOld_loop.simps cong: bind_weak_cong map_option_weak_cong)
    (simp add: word_le_nat_alt)

theorem history_preserved_witness:
  "\<exists>s H n. sys_steps lB lT sample_calls sys_start = Some s \<and> sys_run lB lT lI n s H \<and>
     length H = 3 \<and> (H ! 1) [1] = Some (Some [7]) \<and> (H ! 2) [1] = Some (Some [8])"
proof -
  obtain s where s: "sys_steps lB lT sample_calls sys_start = Some s" "ds_version (sys_store s) = 2"
    "view (lI (ds_values (sys_store s))) 1 [1] = Some (Some [7])" "store_view lI (sys_store s) [1] = Some (Some [8])"
    using sample_run by blast
  obtain H where H: "sys_run lB lT lI (0 + length sample_calls) s H"
    using sys_steps_run [OF s(1) sys_run.start] by blast
  note h = history_preserved [OF mem_list.mem_trees_axioms H]
  have "length H = 3" "view (lI (ds_values (sys_store s))) 1 = H ! 1" "view (lI (ds_values (sys_store s))) 2 = H ! 2"
    using h s(2) by (simp_all add: sample_calls_def word_le_nat_alt)
  with s H show ?thesis by (auto simp: store_view_def)
qed

text \<open>
  C6.  The loops of every call of the machine end.  In every state that can be reached by fewer
  than 2^64 - 1 of its calls, whatever calls led there and in whatever order, each of them
  (NewTxn, Set, Delete and Close of the store; Get, Has, GetSize, Set, Delete, Commit and
  Discard of a transaction), run by itself, returns, on a closed store and on an ended
  transaction too, and leaves the store at its version or at the next one.  Waiting for a
  mutex is not part of the model.
\<close>

theorem every_call_returns:
  assumes "mem_trees B T items its pos fitems fits fpos" "sys_run B T items n s H" "n < 2 ^ 64 - 1"
  shows "\<exists>s' H'. sys_step B T now c s = Some s' \<and> sys_run B T items (Suc n) s' H' \<and>
    ds_version (sys_store s') \<in> {ds_version (sys_store s), ds_version (sys_store s) + 1}"
proof -
  have "sys_inv items fitems 0 n s H" using mem_trees.run_inv [OF assms(1,2)] assms(3) by simp
  from mem_trees.step_evolves [OF assms(1) this assms(3), of now c] obtain s' where
    s': "sys_step B T now c s = Some s'" "evolves items fitems (sys_store s) (sys_store s')" by blast
  with sys_run.call [OF assms(2) s'(1) refl] show ?thesis by (auto simp: evolves_def grown_def)
qed

theorem every_call_returns_witness:
  "\<exists>s s'. sys_steps lB lT sample_calls sys_start = Some s \<and> sys_step lB lT 0 (DiscardOf 1) s = Some s'"
proof -
  obtain s where s: "sys_steps lB lT sample_calls sys_start = Some s" using sample_run by blast
  obtain H where "sys_run lB lT lI (0 + length sample_calls) s H"
    using sys_steps_run [OF s sys_run.start] by blast
  from every_call_returns [OF mem_list.mem_trees_axioms this, of 0 "DiscardOf 1"] s show ?thesis
    by (auto simp: sample_calls_def)
qed

text \<open>
  C9.  A transaction that nothing disturbs commits.  In every reachable state of an open
  store, a transaction that is begun, writes any list of keys and commits with no other
  commit in between succeeds, and the store then reads as before with these writes applied
  in order: a transaction refused for a conflict can be run again.
\<close>

theorem undisturbed_txn_commits:
  assumes "mem_trees B T items its pos fitems fits fpos" "sys_run B T items n s H" "n < 2 ^ 64 - 1"
    and "\<not> closed (sys_store s)" "list_all (\<lambda>(k, v). len k \<noteq> 0) ws"
    and "NewTxn B T t0 False (sys_store s) = (t, d)"
  shows "\<exists>t' d'. txn_Commit B T t1 (fold (\<lambda>(k, v) t. snd (txn_Set B t d k v)) ws t) d = Some (None, t', d') \<and>
    (\<forall>k. k \<noteq> [] \<longrightarrow> store_view items d' k = fold (\<lambda>(k, v) m. m(contents k := Some v)) ws (store_view items (sys_store s)) k)"
proof -
  have inv: "sys_inv items fitems 0 n s H" using mem_trees.run_inv [OF assms(1,2)] assms(3) by simp
  then have store: "store_inv items (sys_store s)" by (simp add: sys_inv_def)
  note max = mem_trees.max_version [OF assms(1) inv assms(3)]
  have new: "newTransaction B T t0 False (sys_store s) = (t, d)" using assms(6) by (simp add: NewTxn_def)
  note n = mem_trees.newTransaction_eq [OF assms(1) new] mem_trees.newTransaction_inv [OF assms(1) new store max]
  let ?t = "fold (\<lambda>(k, v) t. snd (txn_Set B t d k v)) ws t"
  have t: "txn_inv items ?t d" "\<not> discarded ?t" "\<not> readOnly ?t" "dsVersion ?t = ds_version d"
    "txn_view items ?t d = fold (\<lambda>(k, v) m. m(contents k := Some v)) ws (txn_view items t d)"
    using mem_trees.sets_collect [OF assms(1) n(8) _ n(3) _ assms(5)] n assms(4) by auto
  have "ds_version d \<noteq> - 1" "\<not> closed d" using max n assms(4) by simp_all
  from mem_trees.fresh_commit [OF assms(1) n(9) t(1) this(1) t(4) this(2) t(2,3), of t1] t(5) n(11) show ?thesis by metis
qed

theorem undisturbed_txn_commits_witness:
  "\<exists>t d t' d'. NewTxn lB lT 0 False (NewDatastore lB lT) = (t, d) \<and>
     txn_Commit lB lT 1 (snd (txn_Set lB (snd (txn_Set lB t d (Some [1]) (Some [7]))) d (Some [2]) (Some [8]))) d = Some (None, t', d') \<and>
     store_view lI d' [1] = Some (Some [7]) \<and> store_view lI d' [2] = Some (Some [8])"
proof -
  obtain t d where new: "NewTxn lB lT 0 False (NewDatastore lB lT) = (t, d)" by fastforce
  let ?ws = "[(Some [1], Some [7]), (Some [2], Some [8])] :: (slice \<times> slice) list"
  have "\<not> closed (NewDatastore lB lT)" "list_all (\<lambda>(k, v). len k \<noteq> 0) ?ws" by (simp_all add: NewDatastore_def len_def)
  with undisturbed_txn_commits [OF mem_list.mem_trees_axioms sys_run.start, of ?ws 0 t d 1] new show ?thesis by auto
qed

end
