(* ===== verification/Mem_Background.thy ===== *)
theory Mem_Background
  imports Mem_System Mem_Purge
begin

text \<open>
  The two goroutines \<^verbatim>\<open>NewDatastore\<close> starts: \<^verbatim>\<open>purgeOldVersions\<close>, which purges at midnight and
  ends with the store or its context, and \<^verbatim>\<open>handleContextDone\<close>, which closes the store when
  the context is cancelled.  They run beside the calls of \<open>Mem_System\<close>.  The purge takes one
  step per access to the shared trees, so that calls fall between the moment it picks its
  version, its scans and its single deletions.
\<close>

subsection \<open>The calendar\<close>

text \<open>
  An entry of a time zone: its offset and the instants between which it applies.  A location
  gives the entry for every instant.
\<close>

record zone =
  z_offset :: time
  z_start :: time
  z_end :: time

type_synonym location = "time \<Rightarrow> zone"

definition day :: time where
  "day = 24 * hour"

text \<open>
  \<^verbatim>\<open>time.Date(t.Year(), t.Month(), t.Day()+1, 0, 0, 0, 0, t.Location())\<close>: the next midnight on the
  wall clock.  As the standard library does it, the wall time is looked up as if it were
  UTC, and looked up again when the instant found lies outside the entry used.
\<close>

definition next_midnight :: "location \<Rightarrow> time \<Rightarrow> time" where
  "next_midnight loc t =
     (let wall = ((t + z_offset (loc t)) div day + 1) * day;
          z = loc wall
      in if z_offset z = 0 then wall
         else let utc = wall - z_offset z;
                  z = (if utc < z_start z \<or> utc \<ge> z_end z then loc utc else z)
              in wall - z_offset z)"

subsection \<open>The goroutines\<close>

text \<open>
  Where the purge goroutine is: at its \<^verbatim>\<open>select\<close> with the next deadline, inside
  \<^verbatim>\<open>executePurge\<close> after it read the version, before a round, within the deletions of a
  round, or returned.
\<close>

datatype purger =
    Waiting time
  | Reading u64
  | Scanning u64
  | Deleting u64 "dsItem list"
  | Stopped

datatype select_case = CtxDone | Closing | Timer

fun select_ready :: "bool \<Rightarrow> bool \<Rightarrow> time \<Rightarrow> time \<Rightarrow> select_case \<Rightarrow> bool" where
  "select_ready cancelled isClosing now nextCompression CtxDone = cancelled"
| "select_ready cancelled isClosing now nextCompression Closing = isClosing"
| "select_ready cancelled isClosing now nextCompression Timer = (nextCompression \<le> now)"

text \<open>
  One step of the goroutine, \<open>None\<close> when it has to wait.  At the \<^verbatim>\<open>select\<close> any case that is
  ready may be taken; elsewhere the argument \<open>c\<close> does not matter.
\<close>

fun purgeOldVersions ::
  "('t, dsItem, 'i) btree_ops \<Rightarrow> ('u, dsTxn, 'j) btree_ops \<Rightarrow> location \<Rightarrow> bool \<Rightarrow> time \<Rightarrow> select_case \<Rightarrow>
   purger \<times> ('t, 'u) Datastore \<Rightarrow> (purger \<times> ('t, 'u) Datastore) option" where
  "purgeOldVersions B T loc cancelled now c (Waiting nextCompression, d) =
     (if \<not> select_ready cancelled (closing d) now nextCompression c then None
      else case c of
             CtxDone \<Rightarrow> Some (Stopped, d)
           | Closing \<Rightarrow> Some (Stopped, d)
           | Timer \<Rightarrow> Some (Reading (getVersion d), d))"
| "purgeOldVersions B T loc cancelled now c (Reading v, d) =
     Some (Scanning (case bt_min T (inFlightTxn d) of Some oldest \<Rightarrow> ft_dsVersion oldest | None \<Rightarrow> v), d)"
| "purgeOldVersions B T loc cancelled now c (Scanning v, d) =
     map_option (\<lambda>(itemsToDelete, ntotal).
         if ntotal = 0 then (Waiting (next_midnight loc now), d) else (Deleting v itemsToDelete, d))
       (purge_scan B v (ds_values d))"
| "purgeOldVersions B T loc cancelled now c (Deleting v [], d) = Some (Scanning v, d)"
| "purgeOldVersions B T loc cancelled now c (Deleting v (x # xs), d) =
     Some (Deleting v xs, d\<lparr>ds_values := bt_delete B (ds_values d) x\<rparr>)"
| "purgeOldVersions B T loc cancelled now c (Stopped, d) = None"

text \<open>The watcher: blocked until the context is cancelled, then it closes the store and ends.\<close>

definition handleContextDone :: "bool \<Rightarrow> ('t, 'u) Datastore \<Rightarrow> ('t, 'u) Datastore option" where
  "handleContextDone cancelled d = (if cancelled then Some (snd (Close d)) else None)"

subsection \<open>The whole process\<close>

record ('t, 'u) mem_process =
  pr_system :: "('t, 'u) mem_system"
  pr_cancelled :: bool
  pr_purger :: purger
  pr_watching :: bool
  pr_clock :: time

datatype bg_event = Call sys_call | Purger select_case | Watcher | Cancel | Tick nat

definition pr_store :: "('t, 'u) mem_process \<Rightarrow> ('t, 'u) Datastore" where
  "pr_store P = sys_store (pr_system P)"

definition start_process ::
  "('t, dsItem, 'i) btree_ops \<Rightarrow> ('u, dsTxn, 'j) btree_ops \<Rightarrow> location \<Rightarrow> time \<Rightarrow> ('t, 'u) mem_process" where
  "start_process B T loc now =
     \<lparr>pr_system = \<lparr>sys_store = NewDatastore B T, sys_txns = (\<lambda>_. None)\<rparr>, pr_cancelled = False,
      pr_purger = Waiting (next_midnight loc now), pr_watching = True, pr_clock = now\<rparr>"

fun bg_step ::
  "('t, dsItem, 'i) btree_ops \<Rightarrow> ('u, dsTxn, 'j) btree_ops \<Rightarrow> location \<Rightarrow> bg_event \<Rightarrow> ('t, 'u) mem_process \<Rightarrow>
   ('t, 'u) mem_process option" where
  "bg_step B T loc (Call c) P = map_option (\<lambda>s. P\<lparr>pr_system := s\<rparr>) (sys_step B T (pr_clock P) c (pr_system P))"
| "bg_step B T loc (Purger c) P =
     map_option (\<lambda>(g, d). P\<lparr>pr_purger := g, pr_system := (pr_system P)\<lparr>sys_store := d\<rparr>\<rparr>)
       (purgeOldVersions B T loc (pr_cancelled P) (pr_clock P) c (pr_purger P, pr_store P))"
| "bg_step B T loc Watcher P =
     (if \<not> pr_watching P then None
      else map_option (\<lambda>d. P\<lparr>pr_watching := False, pr_system := (pr_system P)\<lparr>sys_store := d\<rparr>\<rparr>)
             (handleContextDone (pr_cancelled P) (pr_store P)))"
| "bg_step B T loc Cancel P = Some (P\<lparr>pr_cancelled := True\<rparr>)"
| "bg_step B T loc (Tick n) P = Some (P\<lparr>pr_clock := pr_clock P + int n\<rparr>)"

text \<open>
  \<open>bg_run n p P H\<close>: \<open>P\<close> is reached by \<open>n\<close> calls and any number of other events; \<open>H\<close> are the maps the
  store has shown and \<open>p\<close> is the highest version a purge has worked below.
\<close>

fun purging_below :: "purger \<Rightarrow> u64" where
  "purging_below (Scanning v) = v"
| "purging_below (Deleting v _) = v"
| "purging_below _ = 0"

fun calls_of :: "bg_event \<Rightarrow> nat" where
  "calls_of (Call _) = 1"
| "calls_of _ = 0"

inductive bg_run ::
  "('t, dsItem, 'i) btree_ops \<Rightarrow> ('u, dsTxn, 'j) btree_ops \<Rightarrow> location \<Rightarrow> ('t \<Rightarrow> dsItem list) \<Rightarrow>
   nat \<Rightarrow> u64 \<Rightarrow> ('t, 'u) mem_process \<Rightarrow> (bytes \<Rightarrow> slice option) list \<Rightarrow> bool"
  for B T loc items where
  start: "bg_run B T loc items 0 0 (start_process B T loc now) [\<lambda>_. None]"
| event: "bg_run B T loc items n p P H \<Longrightarrow> bg_step B T loc e P = Some P' \<Longrightarrow>
    n' = n + calls_of e \<Longrightarrow> p' = max p (purging_below (pr_purger P')) \<Longrightarrow>
    H' = (if ds_version (pr_store P') = ds_version (pr_store P) then H else H @ [store_view items (pr_store P')]) \<Longrightarrow>
    bg_run B T loc items n' p' P' H'"

subsection \<open>Deleting one row\<close>

lemma superseded_by_latest:
  assumes "sorted_wrt byKeys xs" "superseded xs v x"
  shows "latest xs (kb x) v \<in> set xs \<and> kb (latest xs (kb x) v) = kb x \<and> version x < version (latest xs (kb x) v) \<and>
    version (latest xs (kb x) v) \<le> v \<and> (\<forall>y \<in> set xs. kb y = kb x \<and> version y \<le> v \<longrightarrow> version y \<le> version (latest xs (kb x) v))"
proof -
  obtain y where y: "y \<in> set xs" "kb y = kb x" "version x < version y" "version y \<le> v"
    using assms(2) unfolding superseded_def by blast
  from assms(1) show ?thesis
  proof (cases rule: latest_cases [where k = "kb x" and v = v])
    case none
    with y show ?thesis by blast
  next
    case some
    from some y have "version y \<le> version (latest xs (kb x) v)" by blast
    with y(3) have "version x < version (latest xs (kb x) v)" by (rule less_le_trans)
    with some show ?thesis by blast
  qed
qed

text \<open>A row stays superseded when another superseded one goes.\<close>

lemma superseded_del:
  assumes "sorted_wrt byKeys xs" "superseded xs v x" "superseded xs v z"
  shows "superseded (list_del byKeys x xs) v z"
proof -
  let ?l = "latest xs (kb z) v"
  note l = superseded_by_latest [OF assms(1,3)]
  have "\<not> (kb ?l = kb x \<and> version ?l = version x)"
  proof
    assume same: "kb ?l = kb x \<and> version ?l = version x"
    let ?m = "latest xs (kb x) v"
    have m: "?m \<in> set xs" "kb ?m = kb x" "version x < version ?m" "version ?m \<le> v"
      using superseded_by_latest [OF assms(1,2)] by blast+
    have "kb ?m = kb z" using m(2) same l by simp
    with m(1,4) l have "version ?m \<le> version ?l" by blast
    with m(3) same show False by simp
  qed
  then have "?l \<in> set (list_del byKeys x xs)"
    using l by (cases "kb ?l" "kb x" rule: linorder_cases) (auto simp: list_del_def byKeys_iff neq_iff)
  with l show ?thesis unfolding superseded_def by blast
qed

lemma latest_del:
  assumes "sorted_wrt byKeys xs" "superseded xs v x" "v \<le> w"
  shows "latest (list_del byKeys x xs) k w = latest xs k w"
proof (rule latest_superseded [OF assms(1) _ _ assms(3)])
  show "sorted_wrt byKeys (list_del byKeys x xs)" unfolding list_del_def using assms(1) by (rule sorted_wrt_filter)
next
  fix y assume "y \<in> set xs" "y \<notin> set (list_del byKeys x xs)"
  then have "kb y = kb x" "version y = version x" by (auto simp: list_del_def byKeys_iff not_less)
  with assms(2) show "superseded xs v y" by (simp add: superseded_def)
qed (simp add: list_del_def)

subsection \<open>Invariant\<close>

fun purger_ok :: "('t \<Rightarrow> dsItem list) \<Rightarrow> u64 \<Rightarrow> ('t, 'u) Datastore \<Rightarrow> purger \<Rightarrow> bool" where
  "purger_ok items p d (Reading v) \<longleftrightarrow> v \<le> ds_version d"
| "purger_ok items p d (Scanning v) \<longleftrightarrow> v \<le> p"
| "purger_ok items p d (Deleting v ds) \<longleftrightarrow> v \<le> p \<and> (\<forall>x \<in> set ds. superseded (items (ds_values d)) v x)"
| "purger_ok items p d _ \<longleftrightarrow> True"

definition bg_inv ::
  "('t \<Rightarrow> dsItem list) \<Rightarrow> ('u \<Rightarrow> dsTxn list) \<Rightarrow> nat \<Rightarrow> u64 \<Rightarrow> ('t, 'u) mem_process \<Rightarrow> (bytes \<Rightarrow> slice option) list \<Rightarrow> bool" where
  "bg_inv items fitems n p P H \<longleftrightarrow>
     sys_inv items fitems p n (pr_system P) H \<and> purger_ok items p (pr_store P) (pr_purger P) \<and>
     (\<not> pr_watching P \<longrightarrow> closed (pr_store P))"

lemma sys_inv_raise:
  "sys_inv items fitems p n s H \<Longrightarrow> p \<le> q \<Longrightarrow> q \<le> ds_version (sys_store s) \<Longrightarrow> sys_inv items fitems q n s H"
  unfolding sys_inv_def by (meson order_trans)

lemma sys_inv_close: "sys_inv items fitems p n s H \<Longrightarrow> sys_inv items fitems p n (s\<lparr>sys_store := snd (Close (sys_store s))\<rparr>) H"
  by (simp add: sys_inv_def Close_def store_inv_def txn_wf_def)

lemma sys_inv_rows:
  assumes "sys_inv items fitems p n s H" "set (items tree) \<subseteq> set (items (ds_values (sys_store s)))"
    and "\<And>k w. p \<le> w \<Longrightarrow> latest (items tree) k w = latest (items (ds_values (sys_store s))) k w"
  shows "sys_inv items fitems p n (s\<lparr>sys_store := (sys_store s)\<lparr>ds_values := tree\<rparr>\<rparr>) H"
proof -
  have "view (items tree) w = view (items (ds_values (sys_store s))) w" if "p \<le> w" for w
    using assms(3) [OF that] by (simp add: view_def fun_eq_iff)
  with assms(1,2) show ?thesis by (simp add: sys_inv_def store_inv_def txn_wf_def subset_iff)
qed

lemma purger_ok_mono:
  assumes "purger_ok items p d g" "ds_version d \<le> ds_version d'" "set (items (ds_values d)) \<subseteq> set (items (ds_values d'))"
  shows "purger_ok items p d' g"
  using assms(1)
proof (cases g)
  case (Reading v)
  with assms show ?thesis by simp
next
  case (Deleting v ds)
  with assms superseded_mono show ?thesis by auto
qed simp_all

context mem_trees
begin

lemma oldest_running:
  assumes "sys_inv items fitems p n s H" "v \<le> ds_version (sys_store s)"
  shows "(case bt_min T (inFlightTxn (sys_store s)) of Some oldest \<Rightarrow> ft_dsVersion oldest | None \<Rightarrow> v) \<le> ds_version (sys_store s)"
  using assms by (auto simp: F.min_items sys_inv_def split: list.split)

lemma delete_one:
  assumes "sys_inv items fitems p n s H" "purger_ok items p (sys_store s) (Deleting v (x # xs))"
  defines "d' \<equiv> (sys_store s)\<lparr>ds_values := bt_delete B (ds_values (sys_store s)) x\<rparr>"
  shows "sys_inv items fitems p n (s\<lparr>sys_store := d'\<rparr>) H" "purger_ok items p d' (Deleting v xs)"
proof -
  let ?xs = "items (ds_values (sys_store s))"
  have x: "superseded ?xs v x" and v: "v \<le> p" using assms(2) by simp_all
  have same: "latest (list_del byKeys x ?xs) k w = latest ?xs k w" if "p \<le> w" for k w
    using latest_del [OF sorted_items x, of w] v that by (meson order_trans)
  show "sys_inv items fitems p n (s\<lparr>sys_store := d'\<rparr>) H"
    unfolding d'_def by (rule sys_inv_rows [OF assms(1)]) (simp_all add: items_delete same, simp add: list_del_def)
  show "purger_ok items p d' (Deleting v xs)"
    using assms(2) superseded_del [OF sorted_items x] by (simp add: d'_def items_delete)
qed

lemma purger_inv:
  assumes inv: "sys_inv items fitems p n s H" and ok: "purger_ok items p (sys_store s) g"
    and step: "purgeOldVersions B T loc cancelled now c (g, sys_store s) = Some (g', d')"
  shows "sys_inv items fitems (max p (purging_below g')) n (s\<lparr>sys_store := d'\<rparr>) H \<and>
    purger_ok items (max p (purging_below g')) d' g' \<and>
    ds_version d' = ds_version (sys_store s) \<and> closed d' = closed (sys_store s)"
proof (cases g)
  case (Waiting t)
  with step inv show ?thesis by (cases c) (auto simp: getVersion_def split: if_splits)
next
  case (Reading v)
  let ?v = "case bt_min T (inFlightTxn (sys_store s)) of Some oldest \<Rightarrow> ft_dsVersion oldest | None \<Rightarrow> v"
  have r: "g' = Scanning ?v" "d' = sys_store s" using Reading step by auto
  have "?v \<le> ds_version (sys_store s)" using oldest_running [OF inv] ok Reading by simp
  then have "sys_inv items fitems (max p ?v) n s H"
    using inv by (intro sys_inv_raise [OF inv]) (simp_all add: sys_inv_def)
  with r show ?thesis by simp
next
  case (Scanning v)
  obtain ds where "purge_scan B v (ds_values (sys_store s)) = Some (ds, length ds)"
    "found_in (items (ds_values (sys_store s))) v ds" using purge_scan_returns by metis
  with Scanning step inv ok show ?thesis by (auto simp: found_in_def max_absorb1 split: if_splits)
next
  case (Deleting v ds)
  show ?thesis
  proof (cases ds)
    case Nil
    with Deleting step inv ok show ?thesis by (auto simp: max_absorb1)
  next
    case (Cons x xs)
    with Deleting step delete_one [OF inv, of v x xs] ok show ?thesis by (auto simp: max_absorb1)
  qed
qed (use step in simp)

lemma call_inv:
  assumes "bg_inv items fitems n p P H" "n < 2 ^ 64 - 1" "sys_step B T now c (pr_system P) = Some s'"
    and "H' = (if ds_version (sys_store s') = ds_version (pr_store P) then H else H @ [store_view items (sys_store s')])"
  shows "bg_inv items fitems (Suc n) p (P\<lparr>pr_system := s'\<rparr>) H'"
proof -
  have inv: "sys_inv items fitems p n (pr_system P) H" using assms(1) by (simp add: bg_inv_def)
  have e: "evolves items fitems (pr_store P) (sys_store s')"
    using step_evolves [OF inv assms(2), of now c] assms(3) by (auto simp: pr_store_def)
  have "ds_version (pr_store P) \<le> ds_version (sys_store s') \<and> set (items (ds_values (pr_store P))) \<subseteq> set (items (ds_values (sys_store s')))"
    using e
  proof (cases rule: evolves_cases)
    case grown
    with next_version [OF inv assms(2), of "sys_store s'"] show ?thesis by (simp add: pr_store_def grown_def word_le_nat_alt)
  qed simp
  then have "purger_ok items p (sys_store s') (pr_purger P)"
    using assms(1) purger_ok_mono unfolding bg_inv_def by blast
  moreover have "closed (pr_store P) \<Longrightarrow> closed (sys_store s')" using e unfolding evolves_def by auto
  ultimately show ?thesis
    using assms(1) step_inv [OF inv assms(2,3)] assms(4) by (auto simp: bg_inv_def pr_store_def)
qed

lemma event_inv:
  assumes "bg_inv items fitems n p P H" "n + calls_of e < 2 ^ 64" "bg_step B T loc e P = Some P'"
    and "H' = (if ds_version (pr_store P') = ds_version (pr_store P) then H else H @ [store_view items (pr_store P')])"
  shows "bg_inv items fitems (n + calls_of e) (max p (purging_below (pr_purger P'))) P' H'"
proof -
  have below: "purging_below (pr_purger P) \<le> p" using assms(1) by (cases "pr_purger P") (simp_all add: bg_inv_def)
  show ?thesis
  proof (cases e)
    case (Call c)
    then obtain s' where s': "sys_step B T (pr_clock P) c (pr_system P) = Some s'" "P' = P\<lparr>pr_system := s'\<rparr>"
      using assms(3) by auto
    have "H' = (if ds_version (sys_store s') = ds_version (pr_store P) then H else H @ [store_view items (sys_store s')])"
      using assms(4) s'(2) by (simp add: pr_store_def cong: if_cong)
    from call_inv [OF assms(1) _ s'(1) this] assms(2) s'(2) Call below show ?thesis by (simp add: max_absorb1)
  next
    case (Purger c)
    then obtain g d where g: "purgeOldVersions B T loc (pr_cancelled P) (pr_clock P) c (pr_purger P, sys_store (pr_system P)) = Some (g, d)"
      "P' = P\<lparr>pr_purger := g, pr_system := (pr_system P)\<lparr>sys_store := d\<rparr>\<rparr>"
      using assms(3) by (auto simp: pr_store_def)
    have "sys_inv items fitems p n (pr_system P) H" "purger_ok items p (sys_store (pr_system P)) (pr_purger P)"
      using assms(1) by (simp_all add: bg_inv_def pr_store_def)
    from purger_inv [OF this g(1)] assms(1,4) g(2) Purger show ?thesis by (simp add: bg_inv_def pr_store_def)
  next
    case Watcher
    with assms(3) have w: "P' = P\<lparr>pr_watching := False, pr_system := (pr_system P)\<lparr>sys_store := snd (Close (pr_store P))\<rparr>\<rparr>"
      by (auto simp: handleContextDone_def split: if_splits)
    have "purger_ok items p (snd (Close (pr_store P))) (pr_purger P)"
      by (rule purger_ok_mono [of items p "pr_store P"]) (use assms(1) in \<open>simp_all add: bg_inv_def Close_def\<close>)
    moreover have "closed (snd (Close (pr_store P)))" "ds_version (snd (Close (pr_store P))) = ds_version (pr_store P)"
      by (simp_all add: Close_def)
    ultimately show ?thesis using w assms(1,4) below sys_inv_close [of items fitems p n "pr_system P" H] Watcher
      by (simp add: bg_inv_def pr_store_def max_absorb1)
  qed (use assms below in \<open>auto simp: bg_inv_def pr_store_def max_absorb1\<close>)
qed

lemma bg_run_inv: "bg_run B T loc items n p P H \<Longrightarrow> n < 2 ^ 64 \<Longrightarrow> bg_inv items fitems n p P H"
proof (induction rule: bg_run.induct)
  case (start now)
  show ?case using start_inv by (simp add: bg_inv_def start_process_def pr_store_def)
next
  case (event n p P H e P' n' p' H')
  with event_inv [of n p P H e loc P' H'] show ?case by simp
qed

end

subsection \<open>The purge goroutine by itself\<close>

fun purger_steps ::
  "('t, dsItem, 'i) btree_ops \<Rightarrow> ('u, dsTxn, 'j) btree_ops \<Rightarrow> location \<Rightarrow> bool \<Rightarrow> time \<Rightarrow> select_case list \<Rightarrow>
   purger \<times> ('t, 'u) Datastore \<Rightarrow> (purger \<times> ('t, 'u) Datastore) option" where
  "purger_steps B T loc cancelled now [] g = Some g"
| "purger_steps B T loc cancelled now (c # cs) g =
     Option.bind (purgeOldVersions B T loc cancelled now c g) (purger_steps B T loc cancelled now cs)"

definition takes_at_most ::
  "('t, dsItem, 'i) btree_ops \<Rightarrow> ('u, dsTxn, 'j) btree_ops \<Rightarrow> location \<Rightarrow> bool \<Rightarrow> time \<Rightarrow> nat \<Rightarrow>
   purger \<times> ('t, 'u) Datastore \<Rightarrow> bool" where
  "takes_at_most B T loc cancelled now n g \<longleftrightarrow>
     (\<forall>cs g'. purger_steps B T loc cancelled now cs g = Some g' \<longrightarrow> length cs \<le> n)"

lemma takes_step:
  assumes "\<And>c g'. purgeOldVersions B T loc cancelled now c g = Some g' \<Longrightarrow> takes_at_most B T loc cancelled now n g'"
  shows "takes_at_most B T loc cancelled now (Suc n) g"
  unfolding takes_at_most_def
proof (intro allI impI)
  fix cs g' assume run: "purger_steps B T loc cancelled now cs g = Some g'"
  show "length cs \<le> Suc n"
  proof (cases cs)
    case (Cons c cs')
    with run obtain g1 where "purgeOldVersions B T loc cancelled now c g = Some g1"
      "purger_steps B T loc cancelled now cs' g1 = Some g'" by (auto simp: bind_eq_Some_conv)
    with assms Cons show ?thesis by (auto simp: takes_at_most_def)
  qed simp
qed

lemma takes_only:
  assumes "\<And>c. purgeOldVersions B T loc cancelled now c g = Some g'" "takes_at_most B T loc cancelled now n g'"
  shows "takes_at_most B T loc cancelled now (Suc n) g"
  using assms by (intro takes_step) simp

lemma takes_stopped: "takes_at_most B T loc cancelled now n (Stopped, d)"
  unfolding takes_at_most_def
proof (intro allI impI)
  fix cs g' assume "purger_steps B T loc cancelled now cs (Stopped, d) = Some g'"
  then show "length cs \<le> n" by (cases cs) simp_all
qed

lemma takes_waiting:
  assumes "now < t"
  shows "takes_at_most B T loc cancelled now 1 (Waiting t, d)"
proof -
  have "takes_at_most B T loc cancelled now (Suc 0) (Waiting t, d)"
  proof (rule takes_step)
    fix c g' assume "purgeOldVersions B T loc cancelled now c (Waiting t, d) = Some g'"
    with assms have "g' = (Stopped, d)" by (cases c) (auto split: if_splits)
    then show "takes_at_most B T loc cancelled now 0 g'" by (simp add: takes_stopped)
  qed
  then show ?thesis by simp
qed

lemma takes_deleting:
  assumes "takes_at_most B T loc cancelled now n (Scanning v, d\<lparr>ds_values := fold (\<lambda>x t. bt_delete B t x) ds (ds_values d)\<rparr>)"
  shows "takes_at_most B T loc cancelled now (Suc (n + length ds)) (Deleting v ds, d)"
  using assms
proof (induction ds arbitrary: d)
  case Nil
  then show ?case by (intro takes_step) auto
next
  case (Cons x ds)
  have "takes_at_most B T loc cancelled now (Suc (n + length ds)) (Deleting v ds, d\<lparr>ds_values := bt_delete B (ds_values d) x\<rparr>)"
    by (rule Cons.IH) (use Cons.prems in simp)
  then show ?case by (intro takes_step) auto
qed

context mem_trees
begin

lemma takes_scanning:
  assumes "now < next_midnight loc now"
  shows "\<exists>n. takes_at_most B T loc cancelled now n (Scanning v, d)"
proof (induction "length (items (ds_values d))" arbitrary: d rule: less_induct)
  case less
  obtain ds where scan: "purge_scan B v (ds_values d) = Some (ds, length ds)" "found_in (items (ds_values d)) v ds"
    using purge_scan_returns by metis
  show ?case
  proof (cases ds)
    case Nil
    then have "takes_at_most B T loc cancelled now (Suc 1) (Scanning v, d)"
      using scan takes_waiting [OF assms] by (intro takes_step) auto
    then show ?thesis by blast
  next
    case (Cons x xs)
    let ?d = "d\<lparr>ds_values := fold (\<lambda>x t. bt_delete B t x) ds (ds_values d)\<rparr>"
    have "x \<in> set (items (ds_values d))" using scan(2) Cons by (simp add: found_in_def)
    then have "length (items (ds_values ?d)) < length (items (ds_values d))"
      using found_deleted [OF scan(2)] Cons by (simp, intro length_filter_less [of x]) auto
    from less [OF this] obtain n where "takes_at_most B T loc cancelled now n (Scanning v, ?d)" by blast
    note del = takes_deleting [OF this]
    have "purgeOldVersions B T loc cancelled now c (Scanning v, d) = Some (Deleting v ds, d)" for c
      using scan(1) Cons by simp
    from takes_only [OF this del] show ?thesis by blast
  qed
qed

lemma takes_finitely:
  assumes "now < next_midnight loc now"
  shows "\<exists>n. takes_at_most B T loc cancelled now n (g, d)"
proof (cases g)
  case (Waiting t)
  obtain n where "takes_at_most B T loc cancelled now n (Scanning (purge_version T d), d)" using takes_scanning [OF assms] by metis
  then have "takes_at_most B T loc cancelled now (Suc n) (Reading (getVersion d), d)"
    by (intro takes_step) (auto simp: purge_version_def)
  then have "takes_at_most B T loc cancelled now (Suc n) g'"
    if "purgeOldVersions B T loc cancelled now c (Waiting t, d) = Some g'" for c g'
    using that by (cases c) (auto simp: takes_stopped split: if_splits)
  then have "takes_at_most B T loc cancelled now (Suc (Suc n)) (Waiting t, d)" by (rule takes_step)
  with Waiting show ?thesis by blast
next
  case (Reading v)
  let ?v = "case bt_min T (inFlightTxn d) of Some oldest \<Rightarrow> ft_dsVersion oldest | None \<Rightarrow> v"
  obtain n where "takes_at_most B T loc cancelled now n (Scanning ?v, d)" using takes_scanning [OF assms] by metis
  then have "takes_at_most B T loc cancelled now (Suc n) (g, d)" unfolding Reading by (intro takes_step) auto
  then show ?thesis by blast
next
  case (Scanning v)
  then show ?thesis using takes_scanning [OF assms] by simp
next
  case (Deleting v ds)
  obtain n where "takes_at_most B T loc cancelled now n (Scanning v, d\<lparr>ds_values := fold (\<lambda>x t. bt_delete B t x) ds (ds_values d)\<rparr>)"
    using takes_scanning [OF assms] by metis
  from takes_deleting [OF this] Deleting show ?thesis by blast
qed (use takes_stopped in blast)

lemma purger_not_stuck:
  assumes "cancelled \<or> closing d" "g \<noteq> Stopped"
  shows "\<exists>c g'. purgeOldVersions B T loc cancelled now c (g, d) = Some g'"
proof (cases g)
  case (Waiting t)
  from assms(1) show ?thesis
  proof
    assume cancelled
    then show ?thesis unfolding Waiting by (intro exI [of _ CtxDone]) simp
  next
    assume "closing d"
    then show ?thesis unfolding Waiting by (intro exI [of _ Closing]) simp
  qed
next
  case (Scanning v)
  obtain ds where "purge_scan B v (ds_values d) = Some (ds, length ds)" using purge_scan_returns by metis
  with Scanning show ?thesis by simp
next
  case (Deleting v ds)
  then show ?thesis by (cases ds) simp_all
qed (use assms(2) in simp_all)

text \<open>Undisturbed, the steps of the goroutine amount to \<^verbatim>\<open>executePurge\<close>.\<close>

lemma deleting_steps:
  "purger_steps B T loc cancelled now (replicate (length ds) c) (Deleting v ds, d) =
     Some (Deleting v [], d\<lparr>ds_values := fold (\<lambda>x t. bt_delete B t x) ds (ds_values d)\<rparr>)"
  by (induction ds arbitrary: d) simp_all

lemma purger_steps_append:
  "purger_steps B T loc cancelled now (as @ bs) g =
     Option.bind (purger_steps B T loc cancelled now as g) (purger_steps B T loc cancelled now bs)"
proof (induction as arbitrary: g)
  case (Cons a as)
  show ?case by (cases "purgeOldVersions B T loc cancelled now a g") (simp_all add: Cons.IH)
qed simp

lemma scanning_steps:
  "purge_loop B v (ds_values d) = Some tree \<Longrightarrow>
   \<exists>n. purger_steps B T loc cancelled now (replicate n c) (Scanning v, d) =
     Some (Waiting (next_midnight loc now), d\<lparr>ds_values := tree\<rparr>)"
proof (induction "length (items (ds_values d))" arbitrary: d rule: less_induct)
  case less
  obtain ds where scan: "purge_scan B v (ds_values d) = Some (ds, length ds)" "found_in (items (ds_values d)) v ds"
    using purge_scan_returns by metis
  show ?case
  proof (cases ds)
    case Nil
    with scan less.prems have "tree = ds_values d" by (simp add: purge_loop.simps [of B v "ds_values d"])
    with Nil scan show ?thesis by (intro exI [of _ 1]) simp
  next
    case (Cons x xs)
    let ?d = "d\<lparr>ds_values := fold (\<lambda>x t. bt_delete B t x) ds (ds_values d)\<rparr>"
    have "x \<in> set (items (ds_values d))" using scan(2) Cons by (simp add: found_in_def)
    then have "length (items (ds_values ?d)) < length (items (ds_values d))"
      using found_deleted [OF scan(2)] Cons by (simp, intro length_filter_less [of x]) auto
    moreover have "purge_loop B v (ds_values ?d) = Some tree"
      using less.prems scan(1) Cons by (simp add: purge_loop.simps [of B v "ds_values d"])
    ultimately obtain n where n: "purger_steps B T loc cancelled now (replicate n c) (Scanning v, ?d) =
        Some (Waiting (next_midnight loc now), d\<lparr>ds_values := tree\<rparr>)" using less.hyps [of ?d] by auto
    have "purgeOldVersions B T loc cancelled now c (Scanning v, d) = Some (Deleting v ds, d)" using scan(1) Cons by simp
    with n have "purger_steps B T loc cancelled now (c # replicate (length ds) c @ c # replicate n c) (Scanning v, d) =
        Some (Waiting (next_midnight loc now), d\<lparr>ds_values := tree\<rparr>)"
      by (simp add: purger_steps_append deleting_steps del: purgeOldVersions.simps(3))
    then show ?thesis by (metis replicate_Suc replicate_add)
  qed
qed

end

end
