(* ===== verification/Mem_Process.thy ===== *)
theory Mem_Process
  imports Mem_Background
begin

text \<open>
  Properties of the store with its goroutines: no step of the purge changes the map the store
  shows, however they fall between calls, a cancelled context closes the store, the purge goroutine ends, and
  what its deadlines are.
\<close>

context mem_trees
begin

lemma picked_version:
  assumes "e \<in> set (fitems (inFlightTxn d))"
  shows "\<exists>w. purgeOldVersions B T loc cancelled now c (Reading v, d) = Some (Scanning w, d) \<and> w \<le> ft_dsVersion e"
proof -
  obtain x xs where xs: "fitems (inFlightTxn d) = x # xs" using assms by (cases "fitems (inFlightTxn d)") auto
  have "ft_dsVersion x \<le> ft_dsVersion e"
    using F.sorted_items [of "inFlightTxn d"] assms xs by (auto simp: byDSVersion_def split: if_splits)
  with xs show ?thesis by (simp add: F.min_items)
qed

end

lemma step_closing: "purgeOldVersions B T loc cancelled now c (g, d) = Some (g', d') \<Longrightarrow> closing d' = closing d"
proof (cases g)
  case (Waiting t)
  assume "purgeOldVersions B T loc cancelled now c (g, d) = Some (g', d')"
  with Waiting show ?thesis by (cases c) (auto split: if_splits)
next
  case (Deleting v ds)
  assume "purgeOldVersions B T loc cancelled now c (g, d) = Some (g', d')"
  with Deleting show ?thesis by (cases ds) auto
qed (auto split: if_splits)

lemma steps_closing:
  "purger_steps B T loc cancelled now cs (g, d) = Some (g', d') \<Longrightarrow> closing d' = closing d"
proof (induction cs arbitrary: g d)
  case (Cons c cs)
  then obtain g1 d1 where "purgeOldVersions B T loc cancelled now c (g, d) = Some (g1, d1)"
    "purger_steps B T loc cancelled now cs (g1, d1) = Some (g', d')" by (auto simp: bind_eq_Some_conv)
  with Cons.IH step_closing show ?case by metis
qed simp

lemma fixed_zone_midnight:
  assumes "\<And>t. z_offset (loc t) = off"
  shows "next_midnight loc t = ((t + off) div day + 1) * day - off"
  using assms by (simp add: next_midnight_def Let_def)

lemma day_split: "x < (x div day + 1) * day" "(x div day + 1) * day \<le> x + day"
proof -
  have pos: "0 < day" by (simp add: day_def hour_def)
  have "x = day * (x div day) + x mod day" "(x div day + 1) * day = day * (x div day) + day" by (simp_all add: algebra_simps)
  moreover have "0 \<le> x mod day" "x mod day < day" using pos by simp_all
  ultimately show "x < (x div day + 1) * day" "(x div day + 1) * day \<le> x + day" by linarith+
qed

text \<open>Events one after the other, for concrete runs.\<close>

fun bg_steps ::
  "('t, dsItem, 'i) btree_ops \<Rightarrow> ('u, dsTxn, 'j) btree_ops \<Rightarrow> location \<Rightarrow> bg_event list \<Rightarrow> ('t, 'u) mem_process \<Rightarrow>
   ('t, 'u) mem_process option" where
  "bg_steps B T loc [] P = Some P"
| "bg_steps B T loc (e # es) P = Option.bind (bg_step B T loc e P) (bg_steps B T loc es)"

lemma bg_steps_run:
  "bg_steps B T loc es P = Some P' \<Longrightarrow> bg_run B T loc items n p P H \<Longrightarrow>
   \<exists>p' H'. bg_run B T loc items (n + sum_list (map calls_of es)) p' P' H'"
proof (induction es arbitrary: n p P H)
  case (Cons e es)
  then obtain P1 where P1: "bg_step B T loc e P = Some P1" "bg_steps B T loc es P1 = Some P'"
    by (auto simp: bind_eq_Some_conv)
  from Cons.IH [OF P1(2) bg_run.event [OF Cons.prems(2) P1(1) refl refl refl]] show ?case by (simp add: add.assoc)
qed auto

definition utc :: location where
  "utc = (\<lambda>_. \<lparr>z_offset = 0, z_start = 0, z_end = 0\<rparr>)"

text \<open>A key is overwritten, and a third value written while the purge deletes the first.\<close>

definition sample_events :: "bg_event list" where
  "sample_events = [Call (SetNow (Some [1]) (Some [7])), Call (SetNow (Some [1]) (Some [8])), Tick 86400000000000,
     Purger Timer, Purger Timer, Purger Timer, Call (SetNow (Some [1]) (Some [9])), Purger Timer, Call (Begin 0 True), Cancel]"

lemma sample_process:
  "\<exists>P. bg_steps lB lT utc sample_events (start_process lB lT utc 0) = Some P \<and>
     ds_values (pr_store P) = [row [1] 2 [8], row [1] 3 [9]] \<and> ds_version (pr_store P) = 3 \<and>
     pr_purger P = Deleting 2 [] \<and> pr_cancelled P \<and> pr_watching P"
  by (simp add: sample_events_def start_process_def pr_store_def utc_def next_midnight_def day_def hour_def row_def
      run_defs for_next.simps clearOld_loop.simps cong: bind_weak_cong map_option_weak_cong)

lemma sample_bg_run:
  assumes "bg_steps lB lT utc sample_events (start_process lB lT utc 0) = Some P"
  shows "\<exists>p H. bg_run lB lT utc lI 4 p P H"
proof -
  have "0 + sum_list (map calls_of sample_events) = 4" by (simp add: sample_events_def)
  with bg_steps_run [OF assms bg_run.start, of lI] show ?thesis by metis
qed

subsection \<open>Properties\<close>

lemma purger_version:
  assumes "bg_step B T loc (Purger c) P = Some P'"
  shows "ds_version (pr_store P') = ds_version (pr_store P)"
proof -
  have "ds_version d' = ds_version d" if "purgeOldVersions B T loc cancelled now c (g, d) = Some (g', d')" for cancelled now g d g' d'
  proof (cases g)
    case (Waiting t)
    with that show ?thesis by (cases c) (auto split: if_splits)
  next
    case (Deleting v ds)
    with that show ?thesis by (cases ds) auto
  qed (use that in \<open>auto split: if_splits\<close>)
  with assms show ?thesis by (auto simp: pr_store_def)
qed

text \<open>The store shows the map recorded last.\<close>

lemma shows_last:
  assumes "mem_trees B T items its pos fitems fits fpos" "bg_run B T loc items n p P H" "n < 2 ^ 64"
  shows "store_view items (pr_store P) = last H"
proof -
  have inv: "sys_inv items fitems p n (pr_system P) H" using mem_trees.bg_run_inv [OF assms] by (simp add: bg_inv_def)
  then have H: "length H = Suc (unat (ds_version (pr_store P)))" "p \<le> ds_version (pr_store P)"
    "\<forall>v. p \<le> v \<and> v \<le> ds_version (pr_store P) \<longrightarrow> view (items (ds_values (pr_store P))) v = H ! unat v"
    by (simp_all add: sys_inv_def pr_store_def)
  have "last H = H ! unat (ds_version (pr_store P))" using H(1) by (simp add: last_conv_nth flip: length_0_conv)
  with H show ?thesis by (simp add: store_view_def)
qed

text \<open>
  C3.  The purge does not change what the store shows.  Along a run in which calls on the store
  and its transactions fall in any way between the steps of the purge, with fewer than 2^64
  calls, \<open>H\<close> records the map the store showed when it came to each of its versions and \<open>p\<close> is the
  highest version a purge worked below.  Then the store shows the last of these maps, no
  further step of the purge changes that, every version from \<open>p\<close> on still reads as recorded,
  and every transaction begun at \<open>p\<close> or later reads the keys it has no own row for as recorded
  at its version.  The version a purge picks is never above that of a transaction listed as
  running.  (Nothing is said of transactions begun below \<open>p\<close>; \<open>shared_entry_purge_decides_commit\<close>
  shows one.)
\<close>

theorem purge_interleaved_keeps_maps:
  assumes "mem_trees B T items its pos fitems fits fpos" "bg_run B T loc items n p P H" "n < 2 ^ 64"
  shows "length H = Suc (unat (ds_version (pr_store P))) \<and> store_view items (pr_store P) = last H \<and>
    (\<forall>c P'. bg_step B T loc (Purger c) P = Some P' \<longrightarrow> store_view items (pr_store P') = store_view items (pr_store P)) \<and>
    (\<forall>v. p \<le> v \<and> v \<le> ds_version (pr_store P) \<longrightarrow> view (items (ds_values (pr_store P))) v = H ! unat v) \<and>
    (\<forall>i t k. sys_txns (pr_system P) i = Some t \<and> p \<le> dsVersion t \<and> key (latest (items (ops t)) k (dsVersion t + 1)) = None \<longrightarrow>
       unat (dsVersion t) < length H \<and> txn_view items t (pr_store P) k = (H ! unat (dsVersion t)) k) \<and>
    (\<forall>c v. \<forall>e \<in> set (fitems (inFlightTxn (pr_store P))).
       \<exists>w. purgeOldVersions B T loc (pr_cancelled P) (pr_clock P) c (Reading v, pr_store P) = Some (Scanning w, pr_store P) \<and>
         w \<le> ft_dsVersion e)"
proof -
  have inv: "sys_inv items fitems p n (pr_system P) H" using mem_trees.bg_run_inv [OF assms] by (simp add: bg_inv_def)
  then have H: "length H = Suc (unat (ds_version (pr_store P)))"
    "\<forall>v. p \<le> v \<and> v \<le> ds_version (pr_store P) \<longrightarrow> view (items (ds_values (pr_store P))) v = H ! unat v"
    by (simp_all add: sys_inv_def pr_store_def)
  note last = shows_last [OF assms]
  have "store_view items (pr_store P') = store_view items (pr_store P)" if step: "bg_step B T loc (Purger c) P = Some P'" for c P'
    using shows_last [OF assms(1) bg_run.event [OF assms(2) step refl refl refl]] assms(3) last purger_version [OF step] by simp
  moreover have "unat (dsVersion t) < length H \<and> txn_view items t (pr_store P) k = (H ! unat (dsVersion t)) k"
    if "sys_txns (pr_system P) i = Some t \<and> p \<le> dsVersion t \<and> key (latest (items (ops t)) k (dsVersion t + 1)) = None" for i t k
    using txn_reads_history [OF inv] that unfolding pr_store_def by blast
  moreover note mem_trees.picked_version [OF assms(1)]
  ultimately show ?thesis using H last by blast
qed

theorem purge_interleaved_keeps_maps_witness:
  "\<exists>P H p. bg_steps lB lT utc sample_events (start_process lB lT utc 0) = Some P \<and> bg_run lB lT utc lI 4 p P H \<and>
     length H = 4 \<and> store_view lI (pr_store P) = last H \<and> last H [1] = Some (Some [9])"
proof -
  obtain P where P: "bg_steps lB lT utc sample_events (start_process lB lT utc 0) = Some P"
    "ds_values (pr_store P) = [row [1] 2 [8], row [1] 3 [9]]" "ds_version (pr_store P) = 3" using sample_process by blast
  obtain p H where run: "bg_run lB lT utc lI 4 p P H"
    using sample_bg_run [OF P(1)] by blast
  have "store_view lI (pr_store P) [1] = Some (Some [9])" using P(2,3) by (simp add: row_def run_defs)
  with P(1,3) run purge_interleaved_keeps_maps [OF mem_list.mem_trees_axioms run] show ?thesis by auto
qed

text \<open>
  What a purge can do to a transaction begun below its version.  Two transactions are begun at
  version 1 and share an entry of the table of running ones, one is discarded and the entry
  is gone, the key is overwritten at version 2.  The other then deletes that key, sets a new
  one and commits: without a purge in between that is a conflict, with one the row it began
  from is gone, no conflict is seen and the commit goes through.
\<close>

definition shared_events :: "bg_event list \<Rightarrow> bg_event list" where
  "shared_events purge =
     [Call (SetNow (Some [1]) (Some [7])), Call (Begin 0 False), Call (Begin 1 False), Call (DiscardOf 0),
      Call (SetNow (Some [1]) (Some [8])), Tick 86400000000000] @ purge @
     [Call (DeleteIn 1 (Some [1])), Call (SetIn 1 (Some [2]) (Some [5])), Call (CommitOf 1)]"

lemma shared_entry_purge_decides_commit:
  "map_option (\<lambda>P. (ds_version (pr_store P), store_view lI (pr_store P) [2]))
     (bg_steps lB lT utc (shared_events []) (start_process lB lT utc 0)) = Some (2, None)"
  "map_option (\<lambda>P. (ds_version (pr_store P), store_view lI (pr_store P) [2]))
     (bg_steps lB lT utc (shared_events [Purger Timer, Purger Timer, Purger Timer, Purger Timer]) (start_process lB lT utc 0)) =
   Some (3, Some (Some [5]))"
  by (simp_all add: shared_events_def start_process_def pr_store_def utc_def next_midnight_def day_def hour_def row_def on_txn_def
      run_defs for_next.simps clearOld_loop.simps cong: bind_weak_cong map_option_weak_cong)

text \<open>
  C8.  Every reachable state of the process is well formed: rows have a key and a version
  between one and the current one and are never remembered reads; the writes of every
  transaction carry the version after the one it started from, which the store has reached;
  no listed transaction is ahead of the store; the closed flag and the closing channel agree;
  and the rows the purge is about to delete are superseded by rows the store still holds.
\<close>

theorem process_well_formed:
  assumes "mem_trees B T items its pos fitems fits fpos" "bg_run B T loc items n p P H" "n < 2 ^ 64"
  shows "store_inv items (pr_store P) \<and> (\<forall>i t. sys_txns (pr_system P) i = Some t \<longrightarrow> txn_wf items t (pr_store P)) \<and>
    (\<forall>e \<in> set (fitems (inFlightTxn (pr_store P))). ft_dsVersion e \<le> ds_version (pr_store P)) \<and>
    (closing (pr_store P) \<longleftrightarrow> closed (pr_store P)) \<and>
    (\<forall>v ds. pr_purger P = Deleting v ds \<longrightarrow> (\<forall>x \<in> set ds. superseded (items (ds_values (pr_store P))) v x))"
  using mem_trees.bg_run_inv [OF assms] by (auto simp: bg_inv_def sys_inv_def pr_store_def)

theorem process_well_formed_witness:
  "\<exists>P. bg_steps lB lT utc sample_events (start_process lB lT utc 0) = Some P \<and> store_inv lI (pr_store P) \<and>
     (closing (pr_store P) \<longleftrightarrow> closed (pr_store P))"
proof -
  obtain P where P: "bg_steps lB lT utc sample_events (start_process lB lT utc 0) = Some P" using sample_process by blast
  obtain p H where run: "bg_run lB lT utc lI 4 p P H" using sample_bg_run [OF P] by blast
  from process_well_formed [OF mem_list.mem_trees_axioms run] P show ?thesis by auto
qed

text \<open>
  C34.  Cancelling the context closes the store: in every reachable state with a cancelled
  context the store is closed already, or the goroutine that waits for the context is ready
  and its step closes the store and changes nothing else in it.
\<close>

theorem cancel_closes_store:
  assumes "mem_trees B T items its pos fitems fits fpos" "bg_run B T loc items n p P H" "n < 2 ^ 64" "pr_cancelled P"
  shows "closed (pr_store P) \<and> closing (pr_store P) \<or>
    (\<exists>P'. bg_step B T loc Watcher P = Some P' \<and> \<not> pr_watching P' \<and>
       pr_store P' = (pr_store P)\<lparr>closed := True, closing := True\<rparr>)"
proof (cases "closed (pr_store P)")
  case True
  with mem_trees.bg_run_inv [OF assms(1-3)] show ?thesis by (simp add: bg_inv_def sys_inv_def pr_store_def)
next
  case False
  with mem_trees.bg_run_inv [OF assms(1-3)] have "pr_watching P" by (auto simp: bg_inv_def)
  with False assms(4) show ?thesis by (simp add: handleContextDone_def Close_def pr_store_def)
qed

theorem cancel_closes_store_witness:
  "\<exists>P. bg_steps lB lT utc sample_events (start_process lB lT utc 0) = Some P \<and>
     (closed (pr_store P) \<or> (\<exists>P'. bg_step lB lT utc Watcher P = Some P' \<and> closed (pr_store P')))"
proof -
  obtain P where P: "bg_steps lB lT utc sample_events (start_process lB lT utc 0) = Some P" "pr_cancelled P"
    using sample_process by blast
  obtain p H where run: "bg_run lB lT utc lI 4 p P H"
    using sample_bg_run [OF P(1)] by blast
  from cancel_closes_store [OF mem_list.mem_trees_axioms run _ P(2)] P(1) show ?thesis by auto
qed

text \<open>
  C35.  The purge goroutine ends.  When the store is closed or its context cancelled, and the
  next midnight lies ahead, then wherever the goroutine is, it can make only a bounded number
  of further steps, whichever ready cases it takes, and it is never stuck before it has
  returned.
\<close>

theorem purger_stops:
  assumes "mem_trees B T items its pos fitems fits fpos" "cancelled \<or> closing d" "now < next_midnight loc now"
  shows "\<exists>n. \<forall>cs g' d'. purger_steps B T loc cancelled now cs (g, d) = Some (g', d') \<longrightarrow>
    length cs \<le> n \<and> (g' = Stopped \<or> (\<exists>c. purgeOldVersions B T loc cancelled now c (g', d') \<noteq> None))"
proof -
  obtain n where n: "takes_at_most B T loc cancelled now n (g, d)"
    using mem_trees.takes_finitely [OF assms(1,3)] by metis
  have "length cs \<le> n \<and> (g' = Stopped \<or> (\<exists>c. purgeOldVersions B T loc cancelled now c (g', d') \<noteq> None))"
    if run: "purger_steps B T loc cancelled now cs (g, d) = Some (g', d')" for cs g' d'
  proof -
    have "cancelled \<or> closing d'" using steps_closing [OF run] assms(2) by simp
    from mem_trees.purger_not_stuck [OF assms(1) this, of g'] n run show ?thesis by (auto simp: takes_at_most_def)
  qed
  then show ?thesis by blast
qed

theorem purger_stops_witness:
  "\<exists>n. \<forall>cs g' d'. purger_steps lB lT utc True 0 cs (Waiting day, NewDatastore lB lT) = Some (g', d') \<longrightarrow>
     length cs \<le> n \<and> (g' = Stopped \<or> (\<exists>c. purgeOldVersions lB lT utc True 0 c (g', d') \<noteq> None))"
proof -
  have "0 < next_midnight utc 0" by (simp add: next_midnight_def utc_def day_def hour_def)
  from purger_stops [OF mem_list.mem_trees_axioms _ this, of True "NewDatastore lB lT" "Waiting day"] show ?thesis by simp
qed

text \<open>
  Undisturbed, the goroutine does what \<^verbatim>\<open>executePurge\<close> does: from the moment its timer has
  fired its steps lead back to the \<^verbatim>\<open>select\<close>, with the store purged and the deadline at the next
  midnight.
\<close>

lemma purge_by_steps:
  assumes "mem_trees B T items its pos fitems fits fpos" "t \<le> now"
  shows "\<exists>d' n. executePurge B T d = Some d' \<and>
    purger_steps B T loc cancelled now (replicate n Timer) (Waiting t, d) = Some (Waiting (next_midnight loc now), d')"
proof -
  obtain tree where tree: "purge_loop B (purge_version T d) (ds_values d) = Some tree"
    using mem_trees.purge_loop_returns [OF assms(1)] by blast
  then obtain n where "purger_steps B T loc cancelled now (replicate n Timer) (Scanning (purge_version T d), d) =
      Some (Waiting (next_midnight loc now), d\<lparr>ds_values := tree\<rparr>)"
    using mem_trees.scanning_steps [OF assms(1) tree] by blast
  with assms(2) have "purger_steps B T loc cancelled now (replicate (Suc (Suc n)) Timer) (Waiting t, d) =
      Some (Waiting (next_midnight loc now), d\<lparr>ds_values := tree\<rparr>)"
    by (simp add: purge_version_def)
  then show ?thesis using tree unfolding executePurge_def by (intro exI conjI) (auto simp only: option.map)
qed

text \<open>
  In a zone with a fixed offset the deadline lies ahead, by at most a day, and at a
  midnight of the wall clock.
\<close>

lemma purge_daily:
  assumes "\<And>t. z_offset (loc t) = off"
  shows "now < next_midnight loc now \<and> next_midnight loc now \<le> now + day \<and> (next_midnight loc now + off) mod day = 0"
  using day_split [of "now + off"] by (simp add: fixed_zone_midnight [OF assms])

text \<open>
  Where the clock is put forward at midnight the next midnight does not exist, and the standard
  library gives an instant one hour before it.  In the last hour of that day the deadline is
  already past, so that the purge is repeated without pause until the hour is over.
\<close>

definition forward_at_midnight :: location where
  "forward_at_midnight t =
     (if t < day + 3 * hour then \<lparr>z_offset = - 3 * hour, z_start = - day, z_end = day + 3 * hour\<rparr>
      else \<lparr>z_offset = - 2 * hour, z_start = day + 3 * hour, z_end = 200 * day\<rparr>)"

lemma deadline_in_the_past:
  assumes "day + 2 * hour \<le> now" "now < day + 3 * hour"
  shows "next_midnight forward_at_midnight now = day + 2 * hour"
proof -
  have "(now - 3 * hour) div day = 0" using assms by (intro div_pos_pos_trivial) (simp_all add: day_def hour_def)
  with assms show ?thesis by (simp add: next_midnight_def forward_at_midnight_def Let_def day_def hour_def)
qed

end
