(* ===== verification/Mem_Lifecycle.thy ===== *)
theory Mem_Lifecycle
  imports Mem_System Mem_IterProps
begin

text \<open>
  The end of a store and of a transaction: what stays as it was and what the methods answer
  from then on, whatever is called before them.
\<close>

subsection \<open>A closed store\<close>

text \<open>Calls at given times, one after the other.\<close>

fun timed_steps ::
  "('t, dsItem, 'i) btree_ops \<Rightarrow> ('u, dsTxn, 'j) btree_ops \<Rightarrow> (time \<times> sys_call) list \<Rightarrow> ('t, 'u) mem_system \<Rightarrow>
   ('t, 'u) mem_system option" where
  "timed_steps B T [] s = Some s"
| "timed_steps B T ((now, c) # cs) s = Option.bind (sys_step B T now c s) (timed_steps B T cs)"

text \<open>
  The store of \<open>s'\<close> is closed and has the rows and the version of the one of \<open>s\<close>; a transaction
  of \<open>s\<close> is as it was, or it is discarded and has no operations left.
\<close>

definition frozen :: "('t \<Rightarrow> dsItem list) \<Rightarrow> ('t, 'u) mem_system \<Rightarrow> ('t, 'u) mem_system \<Rightarrow> bool" where
  "frozen items s s' \<longleftrightarrow>
     closed (sys_store s') \<and> ds_values (sys_store s') = ds_values (sys_store s) \<and> ds_version (sys_store s') = ds_version (sys_store s) \<and>
     (\<forall>i t. sys_txns s i = Some t \<longrightarrow> (\<exists>t'. sys_txns s' i = Some t' \<and> (t' = t \<or> discarded t' \<and> items (ops t') = [])))"

lemma frozen_refl: "closed (sys_store s) \<Longrightarrow> frozen items s s"
  by (simp add: frozen_def)

lemma frozen_trans: "frozen items s s1 \<Longrightarrow> frozen items s1 s2 \<Longrightarrow> frozen items s s2"
  unfolding frozen_def by metis

lemma refuses:
  assumes "closed d"
  shows "txn_Get B t d k = (Inl ErrDBClosed, t)" "txn_Has B t d k = (Inl ErrDBClosed, t)"
    "txn_GetSize B t d k = (Inl ErrDBClosed, t)" "txn_Set B t d k v = (Some ErrDBClosed, t)"
    "txn_Delete B t d k = (Some ErrDBClosed, t)" "txn_Commit B T now t d = Some (Some ErrDBClosed, t, d)"
    "Datastore_Get B None d k = (Inl ErrDBClosed, None)" "Datastore_Has B None d k = (Inl ErrDBClosed, None)"
    "Datastore_Set B T t0 t1 None d k v = Some (Some ErrDBClosed, None, d)"
    "Datastore_Delete B T t0 t1 None d k = Some (Some ErrDBClosed, None, d)" "Close d = (None, d)"
  using assms
  by (simp_all add: txn_Get_def txn_Has_def txn_GetSize_def txn_Set_def txn_Delete_def txn_Commit_def
      Datastore_Get_def Datastore_Has_def Datastore_Set_def Datastore_Delete_def Close_def)

lemma refuses_iterators:
  assumes "closed d"
  shows "txn_Iterator B t d opts = Inl ErrDBClosed" "Datastore_Iterator B None d opts = Inl ErrDBClosed"
    "iter_Next B d iter = Some (Inl ErrDBClosed, iter)" "iter_Seek B d k iter = Some (Inl ErrDBClosed, iter)"
  using assms by (simp_all add: txn_Iterator_def Datastore_Iterator_def store_Iterator_def iter_Next_def iter_Seek_def)

context mem_trees
begin

lemma on_txn_frozen:
  assumes "closed (sys_store s)"
    and "\<And>t. sys_txns s i = Some t \<Longrightarrow> \<exists>t' u. f t = Some (t', (sys_store s)\<lparr>inFlightTxn := u\<rparr>) \<and>
      (t' = t \<or> discarded t' \<and> items (ops t') = [])"
  shows "\<exists>s'. on_txn i f s = Some s' \<and> frozen items s s'"
proof (cases "sys_txns s i")
  case None
  then show ?thesis using assms(1) by (simp add: on_txn_def frozen_refl)
next
  case (Some t)
  with assms show ?thesis by (fastforce simp: on_txn_def frozen_def)
qed

lemma closed_step:
  assumes "closed (sys_store s)"
  shows "\<exists>s'. sys_step B T now c s = Some s' \<and> frozen items s s'"
proof -
  have kept: "\<exists>s'. on_txn i (\<lambda>t. Some (t, sys_store s)) s = Some s' \<and> frozen items s s'" for i
    by (rule on_txn_frozen [OF assms]) (auto intro: exI [of _ "inFlightTxn (sys_store s)"])
  have gone: "\<exists>s'. on_txn i (\<lambda>t. txn_Discard B T now t (sys_store s)) s = Some s' \<and> frozen items s s'" for i
  proof (rule on_txn_frozen [OF assms])
    fix t
    show "\<exists>t' u. txn_Discard B T now t (sys_store s) = Some (t', (sys_store s)\<lparr>inFlightTxn := u\<rparr>) \<and>
      (t' = t \<or> discarded t' \<and> items (ops t') = [])"
    proof (cases "discarded t")
      case True
      then show ?thesis by (auto simp: txn_Discard_def intro: exI [of _ "inFlightTxn (sys_store s)"])
    next
      case False
      obtain u where "txn_Discard B T now t (sys_store s) =
          Some (t\<lparr>ops := bt_clear B (ops t), discarded := True\<rparr>, (sys_store s)\<lparr>inFlightTxn := u\<rparr>)"
        by (rule txn_Discard_returns [OF False])
      then show ?thesis by (auto simp: items_clear)
    qed
  qed
  show ?thesis
    using assms kept gone frozen_refl [OF assms, of items]
    by (cases c) (auto simp: refuses NewTxn_def newTransaction_def Let_def frozen_def)
qed

lemma closed_steps:
  "closed (sys_store s) \<Longrightarrow> \<exists>s'. timed_steps B T cs s = Some s' \<and> frozen items s s'"
proof (induction cs arbitrary: s)
  case Nil
  then show ?case by (simp add: frozen_refl)
next
  case (Cons c cs)
  obtain now c' where c: "c = (now, c')" by (cases c)
  from closed_step [OF Cons.prems, of now c'] obtain s1 where s1: "sys_step B T now c' s = Some s1" "frozen items s s1" by blast
  then have "closed (sys_store s1)" by (simp add: frozen_def)
  from Cons.IH [OF this] obtain s2 where "timed_steps B T cs s1 = Some s2" "frozen items s1 s2" by blast
  with s1 c show ?case by (auto intro: frozen_trans)
qed

end

text \<open>
  C22.  A closed store is closed for good.  Whatever sequence of the calls of the state machine
  follows (they all return), the store stays closed and keeps its rows and its version, and no
  transaction changes but by being discarded.  After it Get, Has, Set, Delete and Iterator of
  the store, and Get, Has, GetSize, Set, Delete, Commit and Iterator of any transaction, and
  Next and Seek of any iterator of the store opened before, return \<^verbatim>\<open>ErrDBClosed\<close> and leave
  transaction, iterator and store as they are, before any other check; Close returns nil
  and changes nothing.  \<^verbatim>\<open>DropAll\<close>, which does not look at the flag, is not among the calls.
\<close>

theorem closed_store_refuses:
  assumes "mem_trees B T items its pos fitems fits fpos" "closed (sys_store s)"
  shows "\<exists>s'. timed_steps B T cs s = Some s' \<and> frozen items s s' \<and>
    (let d = sys_store s' in
       txn_Get B t d k = (Inl ErrDBClosed, t) \<and> txn_Has B t d k = (Inl ErrDBClosed, t) \<and>
       txn_GetSize B t d k = (Inl ErrDBClosed, t) \<and> txn_Set B t d k v = (Some ErrDBClosed, t) \<and>
       txn_Delete B t d k = (Some ErrDBClosed, t) \<and> txn_Commit B T now t d = Some (Some ErrDBClosed, t, d) \<and>
       txn_Iterator B t d opts = Inl ErrDBClosed \<and>
       Datastore_Get B None d k = (Inl ErrDBClosed, None) \<and> Datastore_Has B None d k = (Inl ErrDBClosed, None) \<and>
       Datastore_Set B T t0 t1 None d k v = Some (Some ErrDBClosed, None, d) \<and>
       Datastore_Delete B T t0 t1 None d k = Some (Some ErrDBClosed, None, d) \<and>
       Datastore_Iterator B None d opts = Inl ErrDBClosed \<and>
       iter_Next B d iter = Some (Inl ErrDBClosed, iter) \<and> iter_Seek B d k iter = Some (Inl ErrDBClosed, iter) \<and>
       Close d = (None, d))"
proof -
  from mem_trees.closed_steps [OF assms] obtain s' where s': "timed_steps B T cs s = Some s'" "frozen items s s'" by blast
  then have "closed (sys_store s')" by (simp add: frozen_def)
  with s' show ?thesis by (simp add: refuses refuses_iterators Let_def)
qed

theorem closed_store_refuses_witness:
  "let s = \<lparr>sys_store = snd (Close sample_store), sys_txns = [0 \<mapsto> sample_txn [8]]\<rparr>
   in \<exists>s'. timed_steps lB lT [(0, SetIn 0 (Some [2]) None), (0, CommitOf 0), (5, DiscardOf 0), (6, Begin 1 False)] s = Some s' \<and>
     ds_values (sys_store s') = ds_values sample_store \<and> Datastore_Get lB None (sys_store s') (Some [1]) = (Inl ErrDBClosed, None)"
proof -
  let ?cs = "[(0, SetIn 0 (Some [2]) None), (0, CommitOf 0), (5, DiscardOf 0), (6, Begin 1 False)]"
  let ?s = "\<lparr>sys_store = snd (Close sample_store), sys_txns = [0 \<mapsto> sample_txn [8]]\<rparr>"
  have c: "closed (sys_store ?s)" "ds_values (snd (Close sample_store)) = ds_values sample_store"
    by (simp_all add: sample_defs run_defs)
  from closed_store_refuses [OF mem_list.mem_trees_axioms c(1), where cs = ?cs and k = "Some [1]"]
  obtain s' where s': "timed_steps lB lT ?cs ?s = Some s'" "frozen lI ?s s'"
    "Datastore_Get lB None (sys_store s') (Some [1]) = (Inl ErrDBClosed, None)" unfolding Let_def by blast
  moreover have "ds_values (sys_store s') = ds_values sample_store" using s'(2) c(2) by (simp add: frozen_def)
  ultimately show ?thesis unfolding Let_def by blast
qed

subsection \<open>A discarded transaction\<close>

text \<open>
  C23.  A discarded transaction is finished.  On an open store \<^verbatim>\<open>Discard\<close> of a running transaction
  returns, leaves rows and version of the store alone, forgets the operations and removes the
  transaction from the table of running ones.  From then on, whatever became of the store
  but that it is open, Get, Has, GetSize, Set, Delete and Commit return \<^verbatim>\<open>ErrDiscardedTxn\<close> and
  change nothing, and a second \<^verbatim>\<open>Discard\<close> does nothing.  \<^verbatim>\<open>Iterator\<close> is the exception: it has no
  such check and still returns an iterator, over the rows of the store the transaction saw.
\<close>

theorem discard_ends_transaction:
  assumes "mem_trees B T items its pos fitems fits fpos" "\<not> closed d" "\<not> discarded t"
  shows "\<exists>t' d'. txn_Discard B T now t d = Some (t', d') \<and>
    ds_values d' = ds_values d \<and> ds_version d' = ds_version d \<and> items (ops t') = [] \<and>
    (\<forall>x \<in> set (fitems (inFlightTxn d')). \<not> (ft_dsVersion x = dsVersion t \<and> ft_txnVersion x = dsVersion t + 1)) \<and>
    (\<forall>d2 k v now2 opts. \<not> closed d2 \<longrightarrow>
       txn_Get B t' d2 k = (Inl ErrDiscardedTxn, t') \<and> txn_Has B t' d2 k = (Inl ErrDiscardedTxn, t') \<and>
       txn_GetSize B t' d2 k = (Inl ErrDiscardedTxn, t') \<and>
       txn_Set B t' d2 k v = (Some ErrDiscardedTxn, t') \<and> txn_Delete B t' d2 k = (Some ErrDiscardedTxn, t') \<and>
       txn_Commit B T now2 t' d2 = Some (Some ErrDiscardedTxn, t', d2) \<and> txn_Discard B T now2 t' d2 = Some (t', d2) \<and>
       (\<exists>iter. txn_Iterator B t' d2 opts = Inr iter \<and> storeIter iter = options_iter B (ds_values d2) opts (dsVersion t)))"
proof -
  obtain u where u: "txn_Discard B T now t d =
      Some (t\<lparr>ops := bt_clear B (ops t), discarded := True\<rparr>, d\<lparr>inFlightTxn := u\<rparr>)"
    and "fitems u = filter (\<lambda>x. \<not> now > ft_expiresAt x \<and>
      \<not> (ft_dsVersion x = dsVersion t \<and> ft_txnVersion x = dsVersion t + 1)) (fitems (inFlightTxn d))"
    using mem_trees.txn_Discard_returns [OF assms(1,3), of now d] by blast
  with mem_trees.axioms(1) [OF assms(1)] show ?thesis
    by (simp add: txn_Get_def txn_Has_def txn_GetSize_def txn_Set_def txn_Delete_def txn_Commit_def txn_Discard_def
        txn_Iterator_def options_iter_def getDSVersion_def btree.items_clear [OF item_tree.axioms])
qed

theorem discard_ends_transaction_witness:
  "\<exists>t' d'. txn_Discard lB lT 0 (sample_txn [8]) sample_store = Some (t', d') \<and>
     ds_values d' = ds_values sample_store \<and> txn_Set lB t' sample_store (Some [1]) None = (Some ErrDiscardedTxn, t')"
  using discard_ends_transaction [OF mem_list.mem_trees_axioms sample_inv(4,5), where now = 0] sample_inv(4)
  by blast

end
