(* ===== verification/Badger.thy ===== *)
theory Badger
  imports Iface
begin

text \<open>
  The store over badger (\<^verbatim>\<open>badger/badger.go\<close>, \<^verbatim>\<open>badger/iter.go\<close>).  Badger itself is a foreign
  package: its databases, transactions and iterators are values of types \<open>'d\<close>, \<open>'t\<close> and \<open>'i\<close>, its
  functions the fields of \<open>badger_ops\<close>, an argument of every definition.  Reading through a
  transaction updates it (badger keeps the keys read for its conflict check); committing
  and discarding one updates the database.
\<close>

subsection \<open>The foreign package\<close>

text \<open>Badger's errors: those the code names, any other, and errors that wrap one.\<close>

datatype badger_error =
    badger_ErrEmptyKey
  | badger_ErrKeyNotFound
  | badger_ErrDiscardedTxn
  | badger_ErrDBClosed
  | badger_ErrConflict
  | badger_ErrReadOnlyTxn
  | badger_ErrInvalidEncryptionKey
  | badger_ErrValueLogSize
  | badger_Err string
  | badger_Wrapped string badger_error

fun badger_Is :: "badger_error \<Rightarrow> badger_error \<Rightarrow> bool" where
  "badger_Is (badger_Wrapped msg e) target = (badger_Wrapped msg e = target \<or> badger_Is e target)"
| "badger_Is e target = (e = target)"

text \<open>The options the code sets; the others keep badger's defaults.\<close>

record badger_options =
  opt_Dir :: string
  opt_ValueDir :: string
  opt_InMemory :: bool
  opt_EncryptionKey :: slice
  opt_IndexCacheSize :: int
  opt_ValueLogFileSize :: int

record badger_iter_options =
  opt_Prefix :: slice
  opt_Reverse :: bool
  opt_PrefetchValues :: bool

record ('d, 't, 'i) badger_ops =
  bg_Error :: "badger_error \<Rightarrow> string"
  bg_DefaultOptions :: "string \<Rightarrow> badger_options"
  bg_Open :: "badger_options \<Rightarrow> badger_error + 'd"
  bg_Close :: "'d \<Rightarrow> badger_error option \<times> 'd"
  bg_DropAll :: "'d \<Rightarrow> badger_error option \<times> 'd"
  bg_NewTransaction :: "'d \<Rightarrow> bool \<Rightarrow> 't \<times> 'd"
  bg_Get :: "'d \<Rightarrow> 't \<Rightarrow> slice \<Rightarrow> (badger_error + (badger_error + slice)) \<times> 't"
    \<comment> \<open>the item found is what its \<^verbatim>\<open>ValueCopy(nil)\<close> returns\<close>
  bg_Set :: "'d \<Rightarrow> 't \<Rightarrow> slice \<Rightarrow> slice \<Rightarrow> badger_error option \<times> 't"
  bg_Delete :: "'d \<Rightarrow> 't \<Rightarrow> slice \<Rightarrow> badger_error option \<times> 't"
  bg_Commit :: "'d \<Rightarrow> 't \<Rightarrow> badger_error option \<times> 't \<times> 'd"
  bg_Discard :: "'d \<Rightarrow> 't \<Rightarrow> 't \<times> 'd"
  bg_NewIterator :: "'d \<Rightarrow> 't \<Rightarrow> badger_iter_options \<Rightarrow> 'i"
  bgi_Valid :: "'i \<Rightarrow> bool"
  bgi_Next :: "'i \<Rightarrow> 'i"
  bgi_Seek :: "'i \<Rightarrow> slice \<Rightarrow> 'i"
  bgi_Key :: "'i \<Rightarrow> slice"
  bgi_ValueCopy :: "'i \<Rightarrow> badger_error + slice"
  bgi_Close :: "'i \<Rightarrow> 'i"

fun strings_Contains :: "string \<Rightarrow> string \<Rightarrow> bool" where
  "strings_Contains [] sub = (sub = [])"
| "strings_Contains (c # s) sub = (take (length sub) (c # s) = sub \<or> strings_Contains s sub)"

subsection \<open>Errors\<close>

definition badgerErrToKVErrMap :: "badger_error \<Rightarrow> err" where
  "badgerErrToKVErrMap e =
     map_of [(badger_ErrEmptyKey, ErrEmptyKey), (badger_ErrKeyNotFound, ErrNotFound),
             (badger_ErrDiscardedTxn, ErrDiscardedTxn), (badger_ErrDBClosed, ErrDBClosed),
             (badger_ErrConflict, ErrTxnConflict)] e"

text \<open>The mapping of an error that is not nil; errors it does not know are passed on.\<close>

definition badger_mapped :: "('d, 't, 'i) badger_ops \<Rightarrow> badger_error \<Rightarrow> kverror" where
  "badger_mapped B e =
     (case badgerErrToKVErrMap e of
        Some mappedErr \<Rightarrow> mappedErr
      | None \<Rightarrow>
          if badger_Is e badger_ErrEmptyKey then ErrEmptyKey
          else if badger_Is e badger_ErrKeyNotFound then ErrNotFound
          else if badger_Is e badger_ErrDBClosed then ErrDBClosed
          else if strings_Contains (bg_Error B e) (bg_Error B badger_ErrDBClosed) then ErrDBClosed
          else if strings_Contains (bg_Error B e) (bg_Error B badger_ErrConflict) then ErrTxnConflict
          else ErrForeign (bg_Error B e))"

definition badgerErrToKVErr :: "('d, 't, 'i) badger_ops \<Rightarrow> badger_error option \<Rightarrow> err" where
  "badgerErrToKVErr B err = (case err of None \<Rightarrow> None | Some e \<Rightarrow> Some (badger_mapped B e))"

lemma badger_mapped_simps [simp]:
  "badger_mapped B badger_ErrEmptyKey = ErrEmptyKey" "badger_mapped B badger_ErrKeyNotFound = ErrNotFound"
  "badger_mapped B badger_ErrDiscardedTxn = ErrDiscardedTxn" "badger_mapped B badger_ErrDBClosed = ErrDBClosed"
  "badger_mapped B badger_ErrConflict = ErrTxnConflict"
  by (simp_all add: badger_mapped_def badgerErrToKVErrMap_def)

subsection \<open>Transactions\<close>

record 'd badger_Datastore =
  bd_db :: 'd
  bd_closed :: bool

definition bt_Get ::
  "('d, 't, 'i) badger_ops \<Rightarrow> 't \<Rightarrow> 'd badger_Datastore \<Rightarrow> slice \<Rightarrow> slice res \<times> 't" where
  "bt_Get B txn d k =
     (case bg_Get B (bd_db d) txn k of
        (Inl e, txn) \<Rightarrow> (Inl (badger_mapped B e), txn)
      | (Inr item, txn) \<Rightarrow> (map_sum (\<lambda>e. ErrForeign (bg_Error B e)) id item, txn))"

definition bt_Has ::
  "('d, 't, 'i) badger_ops \<Rightarrow> 't \<Rightarrow> 'd badger_Datastore \<Rightarrow> slice \<Rightarrow> bool res \<times> 't" where
  "bt_Has B txn d k =
     (case bg_Get B (bd_db d) txn k of
        (Inl e, txn) \<Rightarrow> if badger_Is e badger_ErrKeyNotFound then (Inr False, txn) else (Inl (badger_mapped B e), txn)
      | (Inr item, txn) \<Rightarrow> (Inr True, txn))"

definition bt_Set ::
  "('d, 't, 'i) badger_ops \<Rightarrow> 't \<Rightarrow> 'd badger_Datastore \<Rightarrow> slice \<Rightarrow> slice \<Rightarrow> err \<times> 't" where
  "bt_Set B txn d k v = (let (e, txn) = bg_Set B (bd_db d) txn k v in (badgerErrToKVErr B e, txn))"

definition bt_Delete ::
  "('d, 't, 'i) badger_ops \<Rightarrow> 't \<Rightarrow> 'd badger_Datastore \<Rightarrow> slice \<Rightarrow> err \<times> 't" where
  "bt_Delete B txn d k = (let (e, txn) = bg_Delete B (bd_db d) txn k in (badgerErrToKVErr B e, txn))"

definition bt_Commit ::
  "('d, 't, 'i) badger_ops \<Rightarrow> 't \<Rightarrow> 'd badger_Datastore \<Rightarrow> err \<times> 't \<times> 'd badger_Datastore" where
  "bt_Commit B txn d =
     (let (e, txn, db) = bg_Commit B (bd_db d) txn in (badgerErrToKVErr B e, txn, d\<lparr>bd_db := db\<rparr>))"

definition bt_Discard ::
  "('d, 't, 'i) badger_ops \<Rightarrow> 't \<Rightarrow> 'd badger_Datastore \<Rightarrow> 't \<times> 'd badger_Datastore" where
  "bt_Discard B txn d = (let (txn, db) = bg_Discard B (bd_db d) txn in (txn, d\<lparr>bd_db := db\<rparr>))"

subsection \<open>Iterators\<close>

text \<open>
  The field \<open>bi_closer\<close> is the function \<^verbatim>\<open>withCloser\<close> sets: the implicit transaction it discards.
\<close>

record ('t, 'i) badger_iterator =
  bi_i :: 'i
  bi_start :: slice
  bi_end :: slice
  bi_reverse :: bool
  bi_keysOnly :: bool
  bi_reset :: bool
  bi_closer :: "'t option"

definition badger_newPrefixIterator ::
  "('d, 't, 'i) badger_ops \<Rightarrow> 't \<Rightarrow> 'd badger_Datastore \<Rightarrow> slice \<Rightarrow> bool \<Rightarrow> bool \<Rightarrow> ('t, 'i) badger_iterator" where
  "badger_newPrefixIterator B txn d prefix rvs keysOnly =
     (let opt = \<lparr>opt_Prefix = prefix, opt_Reverse = rvs, opt_PrefetchValues = \<not> keysOnly\<rparr>
      in \<lparr>bi_i = bg_NewIterator B (bd_db d) txn opt, bi_start = prefix, bi_end = bytesPrefixEnd prefix,
          bi_reverse = rvs, bi_keysOnly = keysOnly, bi_reset = True, bi_closer = None\<rparr>)"

definition badger_newRangeIterator ::
  "('d, 't, 'i) badger_ops \<Rightarrow> 't \<Rightarrow> 'd badger_Datastore \<Rightarrow> slice \<Rightarrow> slice \<Rightarrow> bool \<Rightarrow> bool \<Rightarrow> ('t, 'i) badger_iterator" where
  "badger_newRangeIterator B txn d start end' rvs keysOnly =
     (let opt = \<lparr>opt_Prefix = None, opt_Reverse = rvs, opt_PrefetchValues = \<not> keysOnly\<rparr>
      in \<lparr>bi_i = bg_NewIterator B (bd_db d) txn opt, bi_start = start, bi_end = end',
          bi_reverse = rvs, bi_keysOnly = keysOnly, bi_reset = True, bi_closer = None\<rparr>)"

definition bt_iterator ::
  "('d, 't, 'i) badger_ops \<Rightarrow> 't \<Rightarrow> 'd badger_Datastore \<Rightarrow> IterOptions \<Rightarrow> ('t, 'i) badger_iterator res" where
  "bt_iterator B txn d opts =
     (if bd_closed d then Inl ErrDBClosed
      else if Prefix opts \<noteq> None
      then Inr (badger_newPrefixIterator B txn d (Prefix opts) (Reverse opts) (KeysOnly opts))
      else Inr (badger_newRangeIterator B txn d (Start opts) (End opts) (Reverse opts) (KeysOnly opts)))"

definition bi_Reset :: "('t, 'i) badger_iterator \<Rightarrow> ('t, 'i) badger_iterator" where
  "bi_Reset it = it\<lparr>bi_reset := True\<rparr>"

definition bi_valid :: "('d, 't, 'i) badger_ops \<Rightarrow> ('t, 'i) badger_iterator \<Rightarrow> bool" where
  "bi_valid B it =
     (if \<not> bgi_Valid B (bi_i it) then False
      else if len (bi_start it) > 0 \<and> lt (bgi_Key B (bi_i it)) (bi_start it) then False
      else if len (bi_end it) > 0 \<and> gte (bgi_Key B (bi_i it)) (bi_end it) then False
      else True)"

text \<open>
  \<^verbatim>\<open>next\<close>, \<^verbatim>\<open>restart\<close> and \<^verbatim>\<open>seek\<close> call each other, but \<^verbatim>\<open>seek\<close> clears \<^verbatim>\<open>reset\<close> before it calls
  \<^verbatim>\<open>next\<close>, which then does not restart: \<open>bi_advance\<close> is \<^verbatim>\<open>next\<close> with \<^verbatim>\<open>reset\<close> cleared.
\<close>

definition bi_advance ::
  "('d, 't, 'i) badger_ops \<Rightarrow> ('t, 'i) badger_iterator \<Rightarrow> bool res \<times> ('t, 'i) badger_iterator" where
  "bi_advance B it =
     (if \<not> bgi_Valid B (bi_i it) then (Inr False, it)
      else let it = it\<lparr>bi_i := bgi_Next B (bi_i it)\<rparr> in (Inr (bi_valid B it), it))"

definition bi_seek ::
  "('d, 't, 'i) badger_ops \<Rightarrow> slice \<Rightarrow> ('t, 'i) badger_iterator \<Rightarrow> bool res \<times> ('t, 'i) badger_iterator" where
  "bi_seek B k it =
     (let it = it\<lparr>bi_reset := False\<rparr>;
          target = (if bi_reverse it
                    then if bi_end it \<noteq> None \<and> lt (bi_end it) k then bi_end it else k
                    else if bi_start it \<noteq> None \<and> lt k (bi_start it) then bi_start it else k);
          it = it\<lparr>bi_i := bgi_Seek B (bi_i it) target\<rparr>
      in if \<not> bi_valid B it then bi_advance B it else (Inr True, it))"

definition bi_restart ::
  "('d, 't, 'i) badger_ops \<Rightarrow> ('t, 'i) badger_iterator \<Rightarrow> bool res \<times> ('t, 'i) badger_iterator" where
  "bi_restart B it =
     (let it = it\<lparr>bi_reset := False\<rparr>
      in if bi_reverse it then bi_seek B (bi_end it) it else bi_seek B (bi_start it) it)"

definition bi_next ::
  "('d, 't, 'i) badger_ops \<Rightarrow> ('t, 'i) badger_iterator \<Rightarrow> bool res \<times> ('t, 'i) badger_iterator" where
  "bi_next B it = (if bi_reset it then bi_restart B it else bi_advance B it)"

definition badger_Next ::
  "('d, 't, 'i) badger_ops \<Rightarrow> 'd badger_Datastore \<Rightarrow> ('t, 'i) badger_iterator \<Rightarrow> bool res \<times> ('t, 'i) badger_iterator" where
  "badger_Next B d it = (if bd_closed d then (Inl ErrDBClosed, it) else bi_next B it)"

definition badger_Key :: "('d, 't, 'i) badger_ops \<Rightarrow> ('t, 'i) badger_iterator \<Rightarrow> slice" where
  "badger_Key B it = bgi_Key B (bi_i it)"

definition badger_Value :: "('d, 't, 'i) badger_ops \<Rightarrow> ('t, 'i) badger_iterator \<Rightarrow> slice res" where
  "badger_Value B it =
     (if bi_keysOnly it then Inr None
      else map_sum (\<lambda>e. ErrForeign (bg_Error B e)) id (bgi_ValueCopy B (bi_i it)))"

definition badger_Seek ::
  "('d, 't, 'i) badger_ops \<Rightarrow> 'd badger_Datastore \<Rightarrow> slice \<Rightarrow> ('t, 'i) badger_iterator \<Rightarrow> bool res \<times> ('t, 'i) badger_iterator" where
  "badger_Seek B d k it = (if bd_closed d then (Inl ErrDBClosed, it) else bi_seek B k it)"

text \<open>Closing an iterator of the store discards its implicit transaction.\<close>

definition badger_Close ::
  "('d, 't, 'i) badger_ops \<Rightarrow> ('t, 'i) badger_iterator \<Rightarrow> 'd badger_Datastore \<Rightarrow>
   err \<times> ('t, 'i) badger_iterator \<times> 'd badger_Datastore" where
  "badger_Close B it d =
     (let it = it\<lparr>bi_i := bgi_Close B (bi_i it)\<rparr>
      in case bi_closer it of
           Some txn \<Rightarrow> (let (txn, d) = bt_Discard B txn d in (None, it\<lparr>bi_closer := Some txn\<rparr>, d))
         | None \<Rightarrow> (None, it, d))"

subsection \<open>The store\<close>

definition badger_NewDatastoreFrom :: "'d \<Rightarrow> 'd badger_Datastore" where
  "badger_NewDatastoreFrom db = \<lparr>bd_db = db, bd_closed = False\<rparr>"

definition badger_NewDatastore ::
  "('d, 't, 'i) badger_ops \<Rightarrow> string \<Rightarrow> badger_options \<Rightarrow> badger_error + 'd badger_Datastore" where
  "badger_NewDatastore B path opts =
     (let opts = opts\<lparr>opt_Dir := path, opt_ValueDir := path\<rparr>
      in case bg_Open B opts of Inl e \<Rightarrow> Inl e | Inr store \<Rightarrow> Inr (badger_NewDatastoreFrom store))"

definition bd_newTxn ::
  "('d, 't, 'i) badger_ops \<Rightarrow> bool \<Rightarrow> 'd badger_Datastore \<Rightarrow> 't \<times> 'd badger_Datastore" where
  "bd_newTxn B readonly d = (let (t, db) = bg_NewTransaction B (bd_db d) (\<not> readonly) in (t, d\<lparr>bd_db := db\<rparr>))"

text \<open>The argument \<open>ctx\<close> is the transaction found in the context, if there is one.\<close>

definition bd_Get ::
  "('d, 't, 'i) badger_ops \<Rightarrow> 't option \<Rightarrow> 'd badger_Datastore \<Rightarrow> slice \<Rightarrow>
   slice res \<times> 't option \<times> 'd badger_Datastore" where
  "bd_Get B ctx d k =
     (case ctx of
        Some txn \<Rightarrow> let (r, txn) = bt_Get B txn d k in (r, Some txn, d)
      | None \<Rightarrow>
          let (txn, d) = bd_newTxn B True d;
              (r, txn) = bt_Get B txn d k;
              (_, d) = bt_Discard B txn d
          in (r, None, d))"

definition bd_Has ::
  "('d, 't, 'i) badger_ops \<Rightarrow> 't option \<Rightarrow> 'd badger_Datastore \<Rightarrow> slice \<Rightarrow>
   bool res \<times> 't option \<times> 'd badger_Datastore" where
  "bd_Has B ctx d k =
     (case ctx of
        Some txn \<Rightarrow> let (r, txn) = bt_Has B txn d k in (r, Some txn, d)
      | None \<Rightarrow>
          let (txn, d) = bd_newTxn B True d;
              (r, txn) = bt_Has B txn d k;
              (_, d) = bt_Discard B txn d
          in (r, None, d))"

definition bd_Set ::
  "('d, 't, 'i) badger_ops \<Rightarrow> 't option \<Rightarrow> 'd badger_Datastore \<Rightarrow> slice \<Rightarrow> slice \<Rightarrow>
   err \<times> 't option \<times> 'd badger_Datastore" where
  "bd_Set B ctx d k v =
     (case ctx of
        Some txn \<Rightarrow> let (e, txn) = bt_Set B txn d k v in (e, Some txn, d)
      | None \<Rightarrow>
          let (txn, d) = bd_newTxn B False d;
              (e, txn) = bt_Set B txn d k v
          in if e \<noteq> None then let (_, d) = bt_Discard B txn d in (e, None, d)
             else let (e, txn, d) = bt_Commit B txn d; (_, d) = bt_Discard B txn d in (e, None, d))"

definition bd_Delete ::
  "('d, 't, 'i) badger_ops \<Rightarrow> 't option \<Rightarrow> 'd badger_Datastore \<Rightarrow> slice \<Rightarrow>
   err \<times> 't option \<times> 'd badger_Datastore" where
  "bd_Delete B ctx d k =
     (case ctx of
        Some txn \<Rightarrow> let (e, txn) = bt_Delete B txn d k in (e, Some txn, d)
      | None \<Rightarrow>
          let (txn, d) = bd_newTxn B False d;
              (e, txn) = bt_Delete B txn d k
          in if e \<noteq> None then let (_, d) = bt_Discard B txn d in (e, None, d)
             else let (e, txn, d) = bt_Commit B txn d; (_, d) = bt_Discard B txn d in (e, None, d))"

text \<open>\<^verbatim>\<open>Close\<close> and \<^verbatim>\<open>DropAll\<close> return badger's error as it is.\<close>

definition bd_Close :: "('d, 't, 'i) badger_ops \<Rightarrow> 'd badger_Datastore \<Rightarrow> badger_error option \<times> 'd badger_Datastore" where
  "bd_Close B d = (let (e, db) = bg_Close B (bd_db d) in (e, \<lparr>bd_db = db, bd_closed = True\<rparr>))"

definition bd_DropAll :: "('d, 't, 'i) badger_ops \<Rightarrow> 'd badger_Datastore \<Rightarrow> badger_error option \<times> 'd badger_Datastore" where
  "bd_DropAll B d = (let (e, db) = bg_DropAll B (bd_db d) in (e, d\<lparr>bd_db := db\<rparr>))"

text \<open>
  The iterator of the store runs over an implicit read-only transaction.  On an error that
  transaction is not discarded.
\<close>

definition bd_Iterator ::
  "('d, 't, 'i) badger_ops \<Rightarrow> 't option \<Rightarrow> 'd badger_Datastore \<Rightarrow> IterOptions \<Rightarrow>
   ('t, 'i) badger_iterator res \<times> 'd badger_Datastore" where
  "bd_Iterator B ctx d opts =
     (case ctx of
        Some txn \<Rightarrow> (bt_iterator B txn d opts, d)
      | None \<Rightarrow>
          let (txn, d) = bd_newTxn B True d
          in case bt_iterator B txn d opts of
               Inl e \<Rightarrow> (Inl e, d)
             | Inr it \<Rightarrow> (Inr (it\<lparr>bi_closer := Some txn\<rparr>), d))"

text \<open>
  The iterator behind the interface.  There \<^verbatim>\<open>Close\<close> has no access to the store; its
  result does not depend on it.
\<close>

definition badger_Iterator :: "('d, 't, 'i) badger_ops \<Rightarrow> ('d badger_Datastore, ('t, 'i) badger_iterator) Iterator" where
  "badger_Iterator B =
     \<lparr>i_Next = (\<lambda>d it. Some (badger_Next B d it)), i_Key = (\<lambda>it. Inr (badger_Key B it)), i_Value = badger_Value B,
      i_Seek = (\<lambda>d k it. Some (badger_Seek B d k it)), i_Reset = bi_Reset,
      i_Close = (\<lambda>it. (None, it\<lparr>bi_i := bgi_Close B (bi_i it)\<rparr>))\<rparr>"

lemma badger_Close_nil: "fst (badger_Close B it d) = None"
  by (auto simp: badger_Close_def Let_def bt_Discard_def split: option.splits prod.splits)

lemmas badger_iter_defs [run_defs] =
  badger_newPrefixIterator_def badger_newRangeIterator_def bt_iterator_def bi_Reset_def bi_valid_def bi_advance_def
  bi_seek_def bi_restart_def bi_next_def badger_Next_def badger_Key_def badger_Value_def badger_Seek_def
  badger_Close_def badger_Iterator_def

lemmas badger_store_defs [run_defs] =
  badgerErrToKVErr_def bt_Get_def bt_Has_def bt_Set_def bt_Delete_def bt_Commit_def bt_Discard_def
  badger_NewDatastoreFrom_def bd_newTxn_def bd_Get_def bd_Has_def bd_Set_def bd_Delete_def bd_Close_def
  bd_DropAll_def bd_Iterator_def

end
