(* ===== verification/Ffi_Api.thy ===== *)
theory Ffi_Api
  imports Badger
begin

text \<open>
  The Go layer below the C interface (\<^verbatim>\<open>badger_ffi/ffi/api.go\<close>): databases, transactions and
  iterators of badger with nil-normalised values, and the status codes errors are turned
  into.  A transaction points to its \<^verbatim>\<open>DB\<close>, whose \<^verbatim>\<open>closed\<close> flag it shares with the other
  transactions; the methods take that \<^verbatim>\<open>DB\<close> as an argument, and the pointer is an address of
  the heap of the library (theory \<^verbatim>\<open>Ffi_Lib\<close>).
\<close>

record OpenOptions =
  oo_Dir :: string
  oo_ValueDir :: string
  oo_InMemory :: bool
  oo_EncryptionKey :: slice
  oo_IndexCacheSize :: int
  oo_ValueLogFileSize :: int

record 'd ffi_DB =
  fdb_db :: 'd
  fdb_closed :: bool

record 't ffi_Txn =
  ft_t :: 't
  ft_db :: nat

record IteratorOptions =
  io_Prefix :: slice
  io_Start :: slice
  io_End :: slice
  io_Reverse :: bool
  io_KeysOnly :: bool

record 'i ffi_Iterator =
  fi_db :: nat \<comment> \<open>the \<^verbatim>\<open>DB\<close> of its transaction\<close>
  fi_i :: 'i
  fi_start :: slice
  fi_end :: slice
  fi_reverse :: bool
  fi_keysOnly :: bool
  fi_reset :: bool

definition cloneBytes :: "slice \<Rightarrow> slice" where
  "cloneBytes src = (case src of None \<Rightarrow> None | Some b \<Rightarrow> Some b)"

definition normalizeValue :: "slice \<Rightarrow> slice" where
  "normalizeValue value = (if len value = 0 then None else value)"

definition ffi_bytesPrefixEnd :: "slice \<Rightarrow> slice" where
  "ffi_bytesPrefixEnd prefix =
     (case bytesPrefixEnd_loop (contents (cloneBytes prefix)) (len (cloneBytes prefix)) of
        Some e \<Rightarrow> Some e
      | None \<Rightarrow> cloneBytes prefix)"

subsection \<open>Databases and transactions\<close>

definition ffi_NewFrom :: "'d \<Rightarrow> 'd ffi_DB" where
  "ffi_NewFrom db = \<lparr>fdb_db = db, fdb_closed = False\<rparr>"

definition ffi_Open :: "('d, 't, 'i) badger_ops \<Rightarrow> OpenOptions \<Rightarrow> badger_error + 'd ffi_DB" where
  "ffi_Open B opts =
     (if len (oo_EncryptionKey opts) \<noteq> 0 \<and> len (oo_EncryptionKey opts) \<noteq> 32
      then Inl badger_ErrInvalidEncryptionKey
      else let dir = (if oo_InMemory opts then [] else oo_Dir opts);
               valueDir = (if oo_InMemory opts then [] else oo_ValueDir opts);
               o1 = (bg_DefaultOptions B dir)\<lparr>opt_ValueDir := valueDir, opt_InMemory := oo_InMemory opts,
                      opt_EncryptionKey := cloneBytes (oo_EncryptionKey opts)\<rparr>;
               o2 = (if oo_IndexCacheSize opts > 0 then o1\<lparr>opt_IndexCacheSize := oo_IndexCacheSize opts\<rparr> else o1);
               o3 = (if oo_ValueLogFileSize opts > 0 then o2\<lparr>opt_ValueLogFileSize := oo_ValueLogFileSize opts\<rparr> else o2)
           in case bg_Open B o3 of Inl e \<Rightarrow> Inl e | Inr db \<Rightarrow> Inr \<lparr>fdb_db = db, fdb_closed = False\<rparr>)"

definition fdb_Close :: "('d, 't, 'i) badger_ops \<Rightarrow> 'd ffi_DB \<Rightarrow> badger_error option \<times> 'd ffi_DB" where
  "fdb_Close B db = (let (e, d) = bg_Close B (fdb_db db) in (e, \<lparr>fdb_db = d, fdb_closed = True\<rparr>))"

definition fdb_DropAll :: "('d, 't, 'i) badger_ops \<Rightarrow> 'd ffi_DB \<Rightarrow> badger_error option \<times> 'd ffi_DB" where
  "fdb_DropAll B db = (let (e, d) = bg_DropAll B (fdb_db db) in (e, db\<lparr>fdb_db := d\<rparr>))"

definition fdb_NewTxn ::
  "('d, 't, 'i) badger_ops \<Rightarrow> bool \<Rightarrow> nat \<Rightarrow> 'd ffi_DB \<Rightarrow> 't ffi_Txn \<times> 'd ffi_DB" where
  "fdb_NewTxn B readOnly self db =
     (let (t, d) = bg_NewTransaction B (fdb_db db) (\<not> readOnly) in (\<lparr>ft_t = t, ft_db = self\<rparr>, db\<lparr>fdb_db := d\<rparr>))"

definition ft_Get ::
  "('d, 't, 'i) badger_ops \<Rightarrow> 't ffi_Txn \<Rightarrow> 'd ffi_DB \<Rightarrow> slice \<Rightarrow> (badger_error + slice) \<times> 't ffi_Txn" where
  "ft_Get B txn db k =
     (let (r, t) = bg_Get B (fdb_db db) (ft_t txn) k; txn = txn\<lparr>ft_t := t\<rparr>
      in case r of
           Inl e \<Rightarrow> (Inl e, txn)
         | Inr item \<Rightarrow> (case item of Inl e \<Rightarrow> (Inl e, txn) | Inr value \<Rightarrow> (Inr (normalizeValue value), txn)))"

definition ft_Has ::
  "('d, 't, 'i) badger_ops \<Rightarrow> 't ffi_Txn \<Rightarrow> 'd ffi_DB \<Rightarrow> slice \<Rightarrow> (badger_error + bool) \<times> 't ffi_Txn" where
  "ft_Has B txn db k =
     (let (r, t) = bg_Get B (fdb_db db) (ft_t txn) k; txn = txn\<lparr>ft_t := t\<rparr>
      in case r of
           Inl e \<Rightarrow> if badger_Is e badger_ErrKeyNotFound then (Inr False, txn) else (Inl e, txn)
         | Inr item \<Rightarrow> (Inr True, txn))"

definition ft_Set ::
  "('d, 't, 'i) badger_ops \<Rightarrow> 't ffi_Txn \<Rightarrow> 'd ffi_DB \<Rightarrow> slice \<Rightarrow> slice \<Rightarrow> badger_error option \<times> 't ffi_Txn" where
  "ft_Set B txn db k v = (let (e, t) = bg_Set B (fdb_db db) (ft_t txn) k v in (e, txn\<lparr>ft_t := t\<rparr>))"

definition ft_Delete ::
  "('d, 't, 'i) badger_ops \<Rightarrow> 't ffi_Txn \<Rightarrow> 'd ffi_DB \<Rightarrow> slice \<Rightarrow> badger_error option \<times> 't ffi_Txn" where
  "ft_Delete B txn db k = (let (e, t) = bg_Delete B (fdb_db db) (ft_t txn) k in (e, txn\<lparr>ft_t := t\<rparr>))"

definition ft_Commit ::
  "('d, 't, 'i) badger_ops \<Rightarrow> 't ffi_Txn \<Rightarrow> 'd ffi_DB \<Rightarrow> badger_error option \<times> 't ffi_Txn \<times> 'd ffi_DB" where
  "ft_Commit B txn db =
     (let (e, t, d) = bg_Commit B (fdb_db db) (ft_t txn) in (e, txn\<lparr>ft_t := t\<rparr>, db\<lparr>fdb_db := d\<rparr>))"

definition ft_Discard ::
  "('d, 't, 'i) badger_ops \<Rightarrow> 't ffi_Txn \<Rightarrow> 'd ffi_DB \<Rightarrow> 't ffi_Txn \<times> 'd ffi_DB" where
  "ft_Discard B txn db =
     (let (t, d) = bg_Discard B (fdb_db db) (ft_t txn) in (txn\<lparr>ft_t := t\<rparr>, db\<lparr>fdb_db := d\<rparr>))"

subsection \<open>Iterators\<close>

definition ffi_newPrefixIterator ::
  "('d, 't, 'i) badger_ops \<Rightarrow> 't ffi_Txn \<Rightarrow> 'd ffi_DB \<Rightarrow> slice \<Rightarrow> bool \<Rightarrow> bool \<Rightarrow> 'i ffi_Iterator" where
  "ffi_newPrefixIterator B txn db prefix rvs keysOnly =
     (let opt = \<lparr>opt_Prefix = cloneBytes prefix, opt_Reverse = rvs, opt_PrefetchValues = \<not> keysOnly\<rparr>
      in \<lparr>fi_db = ft_db txn, fi_i = bg_NewIterator B (fdb_db db) (ft_t txn) opt, fi_start = cloneBytes prefix,
          fi_end = ffi_bytesPrefixEnd prefix, fi_reverse = rvs, fi_keysOnly = keysOnly, fi_reset = True\<rparr>)"

definition ffi_newRangeIterator ::
  "('d, 't, 'i) badger_ops \<Rightarrow> 't ffi_Txn \<Rightarrow> 'd ffi_DB \<Rightarrow> slice \<Rightarrow> slice \<Rightarrow> bool \<Rightarrow> bool \<Rightarrow> 'i ffi_Iterator" where
  "ffi_newRangeIterator B txn db start end' rvs keysOnly =
     (let opt = \<lparr>opt_Prefix = None, opt_Reverse = rvs, opt_PrefetchValues = \<not> keysOnly\<rparr>
      in \<lparr>fi_db = ft_db txn, fi_i = bg_NewIterator B (fdb_db db) (ft_t txn) opt, fi_start = cloneBytes start,
          fi_end = cloneBytes end', fi_reverse = rvs, fi_keysOnly = keysOnly, fi_reset = True\<rparr>)"

definition ft_Iterator ::
  "('d, 't, 'i) badger_ops \<Rightarrow> 't ffi_Txn \<Rightarrow> 'd ffi_DB \<Rightarrow> IteratorOptions \<Rightarrow> badger_error + 'i ffi_Iterator" where
  "ft_Iterator B txn db opts =
     (if fdb_closed db then Inl badger_ErrDBClosed
      else if io_Prefix opts \<noteq> None
      then Inr (ffi_newPrefixIterator B txn db (io_Prefix opts) (io_Reverse opts) (io_KeysOnly opts))
      else Inr (ffi_newRangeIterator B txn db (io_Start opts) (io_End opts) (io_Reverse opts) (io_KeysOnly opts)))"

definition fi_Reset :: "'i ffi_Iterator \<Rightarrow> 'i ffi_Iterator" where
  "fi_Reset it = it\<lparr>fi_reset := True\<rparr>"

definition fi_valid :: "('d, 't, 'i) badger_ops \<Rightarrow> 'i ffi_Iterator \<Rightarrow> bool" where
  "fi_valid B it =
     (if \<not> bgi_Valid B (fi_i it) then False
      else let key = bgi_Key B (fi_i it)
           in if len (fi_start it) > 0 \<and> bytes_Compare (contents key) (contents (fi_start it)) < 0 then False
              else if len (fi_end it) > 0 \<and> bytes_Compare (contents key) (contents (fi_end it)) \<ge> 0 then False
              else True)"

text \<open>As in \<^verbatim>\<open>badger/iter.go\<close>, \<open>fi_advance\<close> is \<^verbatim>\<open>next\<close> with \<^verbatim>\<open>reset\<close> cleared.\<close>

definition fi_advance :: "('d, 't, 'i) badger_ops \<Rightarrow> 'i ffi_Iterator \<Rightarrow> bool \<times> 'i ffi_Iterator" where
  "fi_advance B it =
     (if \<not> bgi_Valid B (fi_i it) then (False, it)
      else let it = it\<lparr>fi_i := bgi_Next B (fi_i it)\<rparr> in (fi_valid B it, it))"

definition fi_seek :: "('d, 't, 'i) badger_ops \<Rightarrow> slice \<Rightarrow> 'i ffi_Iterator \<Rightarrow> bool \<times> 'i ffi_Iterator" where
  "fi_seek B k it =
     (let it = it\<lparr>fi_reset := False\<rparr>;
          target =
            (if fi_reverse it
             then if fi_end it \<noteq> None \<and> bytes_Compare (contents (fi_end it)) (contents k) < 0 then fi_end it else k
             else if fi_start it \<noteq> None \<and> bytes_Compare (contents k) (contents (fi_start it)) < 0 then fi_start it else k);
          it = it\<lparr>fi_i := bgi_Seek B (fi_i it) target\<rparr>
      in if \<not> fi_valid B it then fi_advance B it else (True, it))"

definition fi_restart :: "('d, 't, 'i) badger_ops \<Rightarrow> 'i ffi_Iterator \<Rightarrow> bool \<times> 'i ffi_Iterator" where
  "fi_restart B it =
     (let it = it\<lparr>fi_reset := False\<rparr>
      in if fi_reverse it then fi_seek B (fi_end it) it else fi_seek B (fi_start it) it)"

definition fi_next :: "('d, 't, 'i) badger_ops \<Rightarrow> 'i ffi_Iterator \<Rightarrow> bool \<times> 'i ffi_Iterator" where
  "fi_next B it = (if fi_reset it then fi_restart B it else fi_advance B it)"

definition fi_Next ::
  "('d, 't, 'i) badger_ops \<Rightarrow> 'd ffi_DB \<Rightarrow> 'i ffi_Iterator \<Rightarrow> (badger_error + bool) \<times> 'i ffi_Iterator" where
  "fi_Next B db it =
     (if fdb_closed db then (Inl badger_ErrDBClosed, it) else let (has, it) = fi_next B it in (Inr has, it))"

definition fi_Key :: "('d, 't, 'i) badger_ops \<Rightarrow> 'i ffi_Iterator \<Rightarrow> slice" where
  "fi_Key B it = bgi_Key B (fi_i it)"

definition fi_Value :: "('d, 't, 'i) badger_ops \<Rightarrow> 'i ffi_Iterator \<Rightarrow> badger_error + slice" where
  "fi_Value B it =
     (if fi_keysOnly it then Inr None
      else case bgi_ValueCopy B (fi_i it) of Inl e \<Rightarrow> Inl e | Inr value \<Rightarrow> Inr (normalizeValue value))"

definition fi_Seek ::
  "('d, 't, 'i) badger_ops \<Rightarrow> 'd ffi_DB \<Rightarrow> slice \<Rightarrow> 'i ffi_Iterator \<Rightarrow> (badger_error + bool) \<times> 'i ffi_Iterator" where
  "fi_Seek B db k it =
     (if fdb_closed db then (Inl badger_ErrDBClosed, it) else let (has, it) = fi_seek B k it in (Inr has, it))"

definition fi_Close :: "('d, 't, 'i) badger_ops \<Rightarrow> 'i ffi_Iterator \<Rightarrow> badger_error option \<times> 'i ffi_Iterator" where
  "fi_Close B it = (None, it\<lparr>fi_i := bgi_Close B (fi_i it)\<rparr>)"

subsection \<open>Status codes\<close>

datatype Status =
    StatusOK
  | StatusInvalidArgument
  | StatusInvalidHandle
  | StatusNotFound
  | StatusEmptyKey
  | StatusDiscardedTxn
  | StatusDBClosed
  | StatusTxnConflict
  | StatusReadOnlyTxn
  | StatusInvalidEncryptionKey
  | StatusInvalidValueLogSize
  | StatusUnknown

text \<open>The numbers \<^verbatim>\<open>iota\<close> gives them, which cross the C interface.\<close>

fun status_code :: "Status \<Rightarrow> int" where
  "status_code StatusOK = 0"
| "status_code StatusInvalidArgument = 1"
| "status_code StatusInvalidHandle = 2"
| "status_code StatusNotFound = 3"
| "status_code StatusEmptyKey = 4"
| "status_code StatusDiscardedTxn = 5"
| "status_code StatusDBClosed = 6"
| "status_code StatusTxnConflict = 7"
| "status_code StatusReadOnlyTxn = 8"
| "status_code StatusInvalidEncryptionKey = 9"
| "status_code StatusInvalidValueLogSize = 10"
| "status_code StatusUnknown = 11"

definition StatusFromError :: "('d, 't, 'i) badger_ops \<Rightarrow> badger_error option \<Rightarrow> Status" where
  "StatusFromError B err =
     (case err of
        None \<Rightarrow> StatusOK
      | Some e \<Rightarrow>
          if badger_Is e badger_ErrKeyNotFound then StatusNotFound
          else if badger_Is e badger_ErrEmptyKey then StatusEmptyKey
          else if badger_Is e badger_ErrDiscardedTxn then StatusDiscardedTxn
          else if badger_Is e badger_ErrDBClosed then StatusDBClosed
          else if badger_Is e badger_ErrConflict then StatusTxnConflict
          else if badger_Is e badger_ErrReadOnlyTxn then StatusReadOnlyTxn
          else if badger_Is e badger_ErrInvalidEncryptionKey then StatusInvalidEncryptionKey
          else if badger_Is e badger_ErrValueLogSize then StatusInvalidValueLogSize
          else if strings_Contains (bg_Error B e) (bg_Error B badger_ErrDBClosed) then StatusDBClosed
          else if strings_Contains (bg_Error B e) (bg_Error B badger_ErrConflict) then StatusTxnConflict
          else StatusUnknown)"

lemmas ffi_api_defs [run_defs] =
  cloneBytes_def normalizeValue_def ffi_bytesPrefixEnd_def ffi_NewFrom_def ffi_Open_def fdb_Close_def fdb_DropAll_def
  fdb_NewTxn_def ft_Get_def ft_Has_def ft_Set_def ft_Delete_def ft_Commit_def ft_Discard_def ffi_newPrefixIterator_def
  ffi_newRangeIterator_def ft_Iterator_def fi_Reset_def fi_valid_def fi_advance_def fi_seek_def fi_restart_def
  fi_next_def fi_Next_def fi_Key_def fi_Value_def fi_Seek_def fi_Close_def StatusFromError_def

subsection \<open>The same iterator as the one of \<^verbatim>\<open>badger/iter.go\<close>\<close>

definition badger_of :: "'t option \<Rightarrow> 'i ffi_Iterator \<Rightarrow> ('t, 'i) badger_iterator" where
  "badger_of c it =
     \<lparr>bi_i = fi_i it, bi_start = fi_start it, bi_end = fi_end it, bi_reverse = fi_reverse it,
      bi_keysOnly = fi_keysOnly it, bi_reset = fi_reset it, bi_closer = c\<rparr>"

lemma badger_of_upd [simp]:
  "badger_of c (it\<lparr>fi_reset := b\<rparr>) = (badger_of c it)\<lparr>bi_reset := b\<rparr>" "badger_of c (it\<lparr>fi_i := i\<rparr>) = (badger_of c it)\<lparr>bi_i := i\<rparr>"
  "bi_i (badger_of c it) = fi_i it" "bi_start (badger_of c it) = fi_start it" "bi_end (badger_of c it) = fi_end it"
  "bi_reverse (badger_of c it) = fi_reverse it" "bi_keysOnly (badger_of c it) = fi_keysOnly it" "bi_reset (badger_of c it) = fi_reset it" "bi_closer (badger_of c it) = c"
  by (simp_all add: badger_of_def)

lemma compare_less: "bytes_Compare a b < 0 \<longleftrightarrow> bytes_Compare a b = - 1"
  using bytes_Compare_cases [of a b] by auto

lemma fi_valid_badger: "fi_valid B it = bi_valid B (badger_of c it)"
  by (auto simp: fi_valid_def bi_valid_def Let_def lt_def gte_def compare_less)

lemma fi_advance_badger: "bi_advance B (badger_of c it) = (case fi_advance B it of (has, it') \<Rightarrow> (Inr has, badger_of c it'))"
  by (simp add: fi_advance_def bi_advance_def Let_def fi_valid_badger [of B _ c])

lemma fi_seek_badger: "bi_seek B k (badger_of c it) = (case fi_seek B k it of (has, it') \<Rightarrow> (Inr has, badger_of c it'))"
proof -
  define t where "t = (if fi_reverse it then if fi_end it \<noteq> None \<and> bytes_Compare (contents (fi_end it)) (contents k) < 0 then fi_end it else k
    else if fi_start it \<noteq> None \<and> bytes_Compare (contents k) (contents (fi_start it)) < 0 then fi_start it else k)"
  define it' where "it' = it\<lparr>fi_reset := False, fi_i := bgi_Seek B (fi_i it) t\<rparr>"
  have "fi_seek B k it = (if \<not> fi_valid B it' then fi_advance B it' else (True, it'))"
    by (simp add: fi_seek_def Let_def it'_def t_def)
  moreover have "bi_seek B k (badger_of c it) = (if \<not> bi_valid B (badger_of c it') then bi_advance B (badger_of c it') else (Inr True, badger_of c it'))"
    by (simp add: bi_seek_def Let_def it'_def t_def lt_def compare_less)
  ultimately show ?thesis using fi_advance_badger [of B c it'] by (simp add: fi_valid_badger [of B _ c])
qed

lemma fi_next_badger: "bi_next B (badger_of c it) = (case fi_next B it of (has, it') \<Rightarrow> (Inr has, badger_of c it'))"
  using fi_seek_badger [of B _ c "it\<lparr>fi_reset := False\<rparr>"] fi_advance_badger [of B c it]
  by (auto simp: fi_next_def bi_next_def fi_restart_def bi_restart_def Let_def)

lemma cloneBytes_id [simp]: "cloneBytes b = b"
  by (cases b) (simp_all add: cloneBytes_def)

lemma ffi_bytesPrefixEnd_eq: "ffi_bytesPrefixEnd p = bytesPrefixEnd p"
  by (simp add: ffi_bytesPrefixEnd_def bytesPrefixEnd_def split: option.split)

end
