(* ===== verification/Ffi_Lib.thy ===== *)
theory Ffi_Lib
  imports Ffi_Api
begin

text \<open>
  The shared library (\<^verbatim>\<open>badger_ffi/ffi/cshared/main.go\<close>): tables of handles over the objects of
  \<^verbatim>\<open>api.go\<close>, and the functions exported to C.

  The state of the library is a heap of \<^verbatim>\<open>DB\<close> objects (transactions and iterators point to
  theirs, also after its handle is gone), the three handle tables, and the C heap, from which
  error messages and byte results are allocated and which the caller frees; \<open>bad_frees\<close> counts
  the calls of free on an address that is not allocated, a double free for one.
  A pointer into the C heap is an address, \<open>None\<close> is NULL.  A byte buffer argument is a
  pointer, given by the bytes behind it, and a length; an out-parameter is given by
  whether its pointer is NULL, and what is written through it is part of the result.
\<close>

subsection \<open>Handle tables\<close>

record 'a handleTable =
  ht_next :: u64
  ht_items :: "u64 \<Rightarrow> 'a option"

definition newHandleTable :: "'a handleTable" where
  "newHandleTable = \<lparr>ht_next = 1, ht_items = (\<lambda>_. None)\<rparr>"

definition ht_add :: "'a \<Rightarrow> 'a handleTable \<Rightarrow> u64 \<times> 'a handleTable" where
  "ht_add value t =
     (let handle = ht_next t
      in (handle, t\<lparr>ht_next := ht_next t + 1, ht_items := (ht_items t)(handle := Some value)\<rparr>))"

definition ht_get :: "u64 \<Rightarrow> 'a handleTable \<Rightarrow> 'a option" where
  "ht_get handle t = ht_items t handle"

definition ht_delete :: "u64 \<Rightarrow> 'a handleTable \<Rightarrow> 'a handleTable" where
  "ht_delete handle t = t\<lparr>ht_items := (ht_items t)(handle := None)\<rparr>"

text \<open>The tables hold pointers: a method that changes the object behind a handle changes the entry.\<close>

definition ht_put :: "u64 \<Rightarrow> 'a \<Rightarrow> 'a handleTable \<Rightarrow> 'a handleTable" where
  "ht_put handle value t = t\<lparr>ht_items := (ht_items t)(handle := Some value)\<rparr>"

subsection \<open>State of the library\<close>

datatype cblock = CBytes bytes | CString string

type_synonym cptr = "nat option"
type_synonym size_t = "64 word"
type_synonym cbuf = "bytes option \<times> size_t"

record ('d, 't, 'i) ffi_lib =
  objs :: "nat \<Rightarrow> 'd ffi_DB"
  objs_next :: nat
  dbHandles :: "nat handleTable"
  txnHandles :: "'t ffi_Txn handleTable"
  iterHandles :: "'i ffi_Iterator handleTable"
  cheap :: "nat \<Rightarrow> cblock option"
  cheap_next :: nat
  bad_frees :: nat

definition malloc :: "cblock \<Rightarrow> ('d, 't, 'i) ffi_lib \<Rightarrow> nat \<times> ('d, 't, 'i) ffi_lib" where
  "malloc b l = (cheap_next l, l\<lparr>cheap_next := Suc (cheap_next l), cheap := (cheap l)(cheap_next l := Some b)\<rparr>)"

text \<open>\<^verbatim>\<open>badger_ffi_free\<close>.\<close>

definition badger_ffi_free :: "cptr \<Rightarrow> ('d, 't, 'i) ffi_lib \<Rightarrow> ('d, 't, 'i) ffi_lib" where
  "badger_ffi_free ptr l = (case ptr of None \<Rightarrow> l 
    | Some p \<Rightarrow> if cheap l p = None then l\<lparr>bad_frees := Suc (bad_frees l)\<rparr> else l\<lparr>cheap := (cheap l)(p := None)\<rparr>)"

text \<open>
  \<^verbatim>\<open>C.GoBytes(ptr, C.int(n))\<close>: the length is cut to 32 bits and read as a signed number; a
  negative one panics.
\<close>

definition C_int :: "size_t \<Rightarrow> int" where
  "C_int n = sint (ucast n :: 32 word)"

definition GoBytes :: "bytes \<Rightarrow> int \<Rightarrow> slice res" where
  "GoBytes b n = (if n < 0 then Inl (Panic ''gobytes: length out of range'') else Inr (Some (take (nat n) b)))"

definition cBytes :: "cbuf \<Rightarrow> slice res" where
  "cBytes buf =
     (case buf of (ptr, n) \<Rightarrow>
        (case ptr of
           None \<Rightarrow> Inr None
         | Some b \<Rightarrow> if n = 0 then Inr None else GoBytes b (C_int n)))"

definition GoString :: "string \<Rightarrow> string" where
  "GoString s = takeWhile (\<lambda>c. c \<noteq> CHR 0x00) s"

definition cString :: "string option \<Rightarrow> string" where
  "cString value = (case value of None \<Rightarrow> [] | Some s \<Rightarrow> GoString s)"

definition setOutBytes :: "slice \<Rightarrow> ('d, 't, 'i) ffi_lib \<Rightarrow> (cptr \<times> size_t) \<times> ('d, 't, 'i) ffi_lib" where
  "setOutBytes data l =
     (if len data = 0 then ((None, 0), l)
      else let (ptr, l) = malloc (CBytes (contents data)) l in ((Some ptr, word_of_nat (len data)), l))"

subsection \<open>Results\<close>

text \<open>
  What a call gives: the status, what was written through the out-parameter, and what
  \<^verbatim>\<open>*errOut\<close> holds.  \<open>Inl\<close> is a panic.
\<close>

type_synonym 'o cresult = "kverror + (int \<times> 'o option \<times> cptr)"

definition setError :: "bool \<Rightarrow> string option \<Rightarrow> ('d, 't, 'i) ffi_lib \<Rightarrow> cptr \<times> ('d, 't, 'i) ffi_lib" where
  "setError errOut err l =
     (if \<not> errOut then (None, l)
      else case err of
             None \<Rightarrow> (None, l)
           | Some msg \<Rightarrow> (let (p, l) = malloc (CString msg) l in (Some p, l)))"

definition clearError :: "bool \<Rightarrow> cptr" where
  "clearError errOut = None"

definition failStatus :: "Status \<Rightarrow> string \<Rightarrow> bool \<Rightarrow> ('d, 't, 'i) ffi_lib \<Rightarrow> 'o cresult \<times> ('d, 't, 'i) ffi_lib" where
  "failStatus status msg errOut l =
     (let (p, l) = setError errOut (Some msg) l in (Inr (status_code status, None, p), l))"

definition fail ::
  "('d, 't, 'i) badger_ops \<Rightarrow> badger_error \<Rightarrow> bool \<Rightarrow> ('d, 't, 'i) ffi_lib \<Rightarrow> 'o cresult \<times> ('d, 't, 'i) ffi_lib" where
  "fail B e errOut l = failStatus (StatusFromError B (Some e)) (bg_Error B e) errOut l"

definition succeed :: "'o \<Rightarrow> bool \<Rightarrow> ('d, 't, 'i) ffi_lib \<Rightarrow> 'o cresult \<times> ('d, 't, 'i) ffi_lib" where
  "succeed out errOut l = (Inr (status_code StatusOK, Some out, clearError errOut), l)"

definition invalidHandle :: "bool \<Rightarrow> ('d, 't, 'i) ffi_lib \<Rightarrow> 'o cresult \<times> ('d, 't, 'i) ffi_lib" where
  "invalidHandle errOut l = failStatus StatusInvalidHandle ''invalid handle'' errOut l"

definition with_cBytes ::
  "cbuf \<Rightarrow> ('d, 't, 'i) ffi_lib \<Rightarrow> (slice \<Rightarrow> 'o cresult \<times> ('d, 't, 'i) ffi_lib) \<Rightarrow> 'o cresult \<times> ('d, 't, 'i) ffi_lib" where
  "with_cBytes buf l f = (case cBytes buf of Inl e \<Rightarrow> (Inl e, l) | Inr b \<Rightarrow> f b)"

subsection \<open>Exported functions: databases\<close>

definition badger_ffi_db_open ::
  "('d, 't, 'i) badger_ops \<Rightarrow> string option \<Rightarrow> string option \<Rightarrow> byte \<Rightarrow> cbuf \<Rightarrow> int \<Rightarrow> int \<Rightarrow> bool \<Rightarrow> bool \<Rightarrow>
   ('d, 't, 'i) ffi_lib \<Rightarrow> u64 cresult \<times> ('d, 't, 'i) ffi_lib" where
  "badger_ffi_db_open B dir valueDir inMemory encryptionKey indexCacheSize valueLogFileSize outHandle errOut l =
     (if \<not> outHandle then failStatus StatusInvalidArgument ''outHandle is nil'' errOut l
      else with_cBytes encryptionKey l (\<lambda>key.
        case ffi_Open B \<lparr>oo_Dir = cString dir, oo_ValueDir = cString valueDir, oo_InMemory = (inMemory \<noteq> 0),
               oo_EncryptionKey = key, oo_IndexCacheSize = indexCacheSize, oo_ValueLogFileSize = valueLogFileSize\<rparr> of
          Inl e \<Rightarrow> fail B e errOut l
        | Inr db \<Rightarrow>
            let a = objs_next l; (h, t) = ht_add a (dbHandles l)
            in succeed h errOut (l\<lparr>objs := (objs l)(a := db), objs_next := Suc a, dbHandles := t\<rparr>)))"

definition badger_ffi_db_close ::
  "('d, 't, 'i) badger_ops \<Rightarrow> u64 \<Rightarrow> bool \<Rightarrow> ('d, 't, 'i) ffi_lib \<Rightarrow> unit cresult \<times> ('d, 't, 'i) ffi_lib" where
  "badger_ffi_db_close B handle errOut l =
     (case ht_get handle (dbHandles l) of
        None \<Rightarrow> invalidHandle errOut l
      | Some a \<Rightarrow>
          let (err, db) = fdb_Close B (objs l a);
              l = l\<lparr>objs := (objs l)(a := db)\<rparr>;
              l = (if err = None then l\<lparr>dbHandles := ht_delete handle (dbHandles l)\<rparr> else l)
          in case err of Some e \<Rightarrow> fail B e errOut l | None \<Rightarrow> succeed () errOut l)"

definition badger_ffi_db_drop_all ::
  "('d, 't, 'i) badger_ops \<Rightarrow> u64 \<Rightarrow> bool \<Rightarrow> ('d, 't, 'i) ffi_lib \<Rightarrow> unit cresult \<times> ('d, 't, 'i) ffi_lib" where
  "badger_ffi_db_drop_all B handle errOut l =
     (case ht_get handle (dbHandles l) of
        None \<Rightarrow> invalidHandle errOut l
      | Some a \<Rightarrow>
          let (err, db) = fdb_DropAll B (objs l a); l = l\<lparr>objs := (objs l)(a := db)\<rparr>
          in case err of Some e \<Rightarrow> fail B e errOut l | None \<Rightarrow> succeed () errOut l)"

definition badger_ffi_db_new_txn ::
  "('d, 't, 'i) badger_ops \<Rightarrow> u64 \<Rightarrow> byte \<Rightarrow> bool \<Rightarrow> bool \<Rightarrow> ('d, 't, 'i) ffi_lib \<Rightarrow>
   u64 cresult \<times> ('d, 't, 'i) ffi_lib" where
  "badger_ffi_db_new_txn B handle readOnly outHandle errOut l =
     (if \<not> outHandle then failStatus StatusInvalidArgument ''outHandle is nil'' errOut l
      else case ht_get handle (dbHandles l) of
             None \<Rightarrow> invalidHandle errOut l
           | Some a \<Rightarrow>
               let (txn, db) = fdb_NewTxn B (readOnly \<noteq> 0) a (objs l a);
                   (h, t) = ht_add txn (txnHandles l)
               in succeed h errOut (l\<lparr>objs := (objs l)(a := db), txnHandles := t\<rparr>))"

subsection \<open>Exported functions: transactions\<close>

definition badger_ffi_txn_get ::
  "('d, 't, 'i) badger_ops \<Rightarrow> u64 \<Rightarrow> cbuf \<Rightarrow> bool \<Rightarrow> bool \<Rightarrow> bool \<Rightarrow> ('d, 't, 'i) ffi_lib \<Rightarrow>
   (cptr \<times> size_t) cresult \<times> ('d, 't, 'i) ffi_lib" where
  "badger_ffi_txn_get B handle key outValue outValueLen errOut l =
     (case ht_get handle (txnHandles l) of
        None \<Rightarrow> invalidHandle errOut l
      | Some txn \<Rightarrow>
          if \<not> outValue \<or> \<not> outValueLen
          then failStatus StatusInvalidArgument ''outValue or outValueLen is nil'' errOut l
          else with_cBytes key l (\<lambda>key.
            let (r, txn') = ft_Get B txn (objs l (ft_db txn)) key;
                l = l\<lparr>txnHandles := ht_put handle txn' (txnHandles l)\<rparr>
            in case r of
                 Inl e \<Rightarrow> fail B e errOut l
               | Inr value \<Rightarrow> (let (out, l) = setOutBytes value l in succeed out errOut l)))"

definition badger_ffi_txn_has ::
  "('d, 't, 'i) badger_ops \<Rightarrow> u64 \<Rightarrow> cbuf \<Rightarrow> bool \<Rightarrow> bool \<Rightarrow> ('d, 't, 'i) ffi_lib \<Rightarrow>
   byte cresult \<times> ('d, 't, 'i) ffi_lib" where
  "badger_ffi_txn_has B handle key outHas errOut l =
     (case ht_get handle (txnHandles l) of
        None \<Rightarrow> invalidHandle errOut l
      | Some txn \<Rightarrow>
          if \<not> outHas then failStatus StatusInvalidArgument ''outHas is nil'' errOut l
          else with_cBytes key l (\<lambda>key.
            let (r, txn') = ft_Has B txn (objs l (ft_db txn)) key;
                l = l\<lparr>txnHandles := ht_put handle txn' (txnHandles l)\<rparr>
            in case r of
                 Inl e \<Rightarrow> fail B e errOut l
               | Inr has \<Rightarrow> succeed (if has then 1 else 0) errOut l))"

definition badger_ffi_txn_set ::
  "('d, 't, 'i) badger_ops \<Rightarrow> u64 \<Rightarrow> cbuf \<Rightarrow> cbuf \<Rightarrow> bool \<Rightarrow> ('d, 't, 'i) ffi_lib \<Rightarrow>
   unit cresult \<times> ('d, 't, 'i) ffi_lib" where
  "badger_ffi_txn_set B handle key value errOut l =
     (case ht_get handle (txnHandles l) of
        None \<Rightarrow> invalidHandle errOut l
      | Some txn \<Rightarrow>
          with_cBytes key l (\<lambda>key. with_cBytes value l (\<lambda>value.
            let (err, txn') = ft_Set B txn (objs l (ft_db txn)) key value;
                l = l\<lparr>txnHandles := ht_put handle txn' (txnHandles l)\<rparr>
            in case err of Some e \<Rightarrow> fail B e errOut l | None \<Rightarrow> succeed () errOut l)))"

definition badger_ffi_txn_delete ::
  "('d, 't, 'i) badger_ops \<Rightarrow> u64 \<Rightarrow> cbuf \<Rightarrow> bool \<Rightarrow> ('d, 't, 'i) ffi_lib \<Rightarrow>
   unit cresult \<times> ('d, 't, 'i) ffi_lib" where
  "badger_ffi_txn_delete B handle key errOut l =
     (case ht_get handle (txnHandles l) of
        None \<Rightarrow> invalidHandle errOut l
      | Some txn \<Rightarrow>
          with_cBytes key l (\<lambda>key.
            let (err, txn') = ft_Delete B txn (objs l (ft_db txn)) key;
                l = l\<lparr>txnHandles := ht_put handle txn' (txnHandles l)\<rparr>
            in case err of Some e \<Rightarrow> fail B e errOut l | None \<Rightarrow> succeed () errOut l))"

definition badger_ffi_txn_commit ::
  "('d, 't, 'i) badger_ops \<Rightarrow> u64 \<Rightarrow> bool \<Rightarrow> ('d, 't, 'i) ffi_lib \<Rightarrow> unit cresult \<times> ('d, 't, 'i) ffi_lib" where
  "badger_ffi_txn_commit B handle errOut l =
     (case ht_get handle (txnHandles l) of
        None \<Rightarrow> invalidHandle errOut l
      | Some txn \<Rightarrow>
          let (err, txn', db) = ft_Commit B txn (objs l (ft_db txn));
              l = l\<lparr>txnHandles := ht_put handle txn' (txnHandles l), objs := (objs l)(ft_db txn := db)\<rparr>
          in case err of Some e \<Rightarrow> fail B e errOut l | None \<Rightarrow> succeed () errOut l)"

definition badger_ffi_txn_discard ::
  "('d, 't, 'i) badger_ops \<Rightarrow> u64 \<Rightarrow> ('d, 't, 'i) ffi_lib \<Rightarrow> ('d, 't, 'i) ffi_lib" where
  "badger_ffi_txn_discard B handle l =
     (case ht_get handle (txnHandles l) of
        None \<Rightarrow> l
      | Some txn \<Rightarrow>
          let (txn', db) = ft_Discard B txn (objs l (ft_db txn))
          in l\<lparr>objs := (objs l)(ft_db txn := db), txnHandles := ht_delete handle (txnHandles l)\<rparr>)"

definition badger_ffi_txn_iterator ::
  "('d, 't, 'i) badger_ops \<Rightarrow> u64 \<Rightarrow> cbuf \<Rightarrow> cbuf \<Rightarrow> cbuf \<Rightarrow> byte \<Rightarrow> byte \<Rightarrow> bool \<Rightarrow> bool \<Rightarrow>
   ('d, 't, 'i) ffi_lib \<Rightarrow> u64 cresult \<times> ('d, 't, 'i) ffi_lib" where
  "badger_ffi_txn_iterator B handle prefix start end' rvs keysOnly outHandle errOut l =
     (if \<not> outHandle then failStatus StatusInvalidArgument ''outHandle is nil'' errOut l
      else case ht_get handle (txnHandles l) of
             None \<Rightarrow> invalidHandle errOut l
           | Some txn \<Rightarrow>
               with_cBytes prefix l (\<lambda>prefix. with_cBytes start l (\<lambda>start. with_cBytes end' l (\<lambda>end'.
                 case ft_Iterator B txn (objs l (ft_db txn))
                        \<lparr>io_Prefix = prefix, io_Start = start, io_End = end', io_Reverse = (rvs \<noteq> 0),
                         io_KeysOnly = (keysOnly \<noteq> 0)\<rparr> of
                   Inl e \<Rightarrow> fail B e errOut l
                 | Inr iter \<Rightarrow>
                     (let (h, t) = ht_add iter (iterHandles l) in succeed h errOut (l\<lparr>iterHandles := t\<rparr>))))))"

subsection \<open>Exported functions: iterators\<close>

definition badger_ffi_iter_next ::
  "('d, 't, 'i) badger_ops \<Rightarrow> u64 \<Rightarrow> bool \<Rightarrow> bool \<Rightarrow> ('d, 't, 'i) ffi_lib \<Rightarrow>
   byte cresult \<times> ('d, 't, 'i) ffi_lib" where
  "badger_ffi_iter_next B handle outHas errOut l =
     (case ht_get handle (iterHandles l) of
        None \<Rightarrow> invalidHandle errOut l
      | Some iter \<Rightarrow>
          if \<not> outHas then failStatus StatusInvalidArgument ''outHas is nil'' errOut l
          else let (r, iter') = fi_Next B (objs l (fi_db iter)) iter;
                   l = l\<lparr>iterHandles := ht_put handle iter' (iterHandles l)\<rparr>
               in case r of
                    Inl e \<Rightarrow> fail B e errOut l
                  | Inr has \<Rightarrow> succeed (if has then 1 else 0) errOut l)"

definition badger_ffi_iter_key ::
  "('d, 't, 'i) badger_ops \<Rightarrow> u64 \<Rightarrow> bool \<Rightarrow> bool \<Rightarrow> bool \<Rightarrow> ('d, 't, 'i) ffi_lib \<Rightarrow>
   (cptr \<times> size_t) cresult \<times> ('d, 't, 'i) ffi_lib" where
  "badger_ffi_iter_key B handle outKey outKeyLen errOut l =
     (case ht_get handle (iterHandles l) of
        None \<Rightarrow> invalidHandle errOut l
      | Some iter \<Rightarrow>
          if \<not> outKey \<or> \<not> outKeyLen
          then failStatus StatusInvalidArgument ''outKey or outKeyLen is nil'' errOut l
          else let (out, l) = setOutBytes (fi_Key B iter) l in succeed out errOut l)"

definition badger_ffi_iter_value ::
  "('d, 't, 'i) badger_ops \<Rightarrow> u64 \<Rightarrow> bool \<Rightarrow> bool \<Rightarrow> bool \<Rightarrow> ('d, 't, 'i) ffi_lib \<Rightarrow>
   (cptr \<times> size_t) cresult \<times> ('d, 't, 'i) ffi_lib" where
  "badger_ffi_iter_value B handle outValue outValueLen errOut l =
     (case ht_get handle (iterHandles l) of
        None \<Rightarrow> invalidHandle errOut l
      | Some iter \<Rightarrow>
          if \<not> outValue \<or> \<not> outValueLen
          then failStatus StatusInvalidArgument ''outValue or outValueLen is nil'' errOut l
          else case fi_Value B iter of
                 Inl e \<Rightarrow> fail B e errOut l
               | Inr value \<Rightarrow> (let (out, l) = setOutBytes value l in succeed out errOut l))"

definition badger_ffi_iter_seek ::
  "('d, 't, 'i) badger_ops \<Rightarrow> u64 \<Rightarrow> cbuf \<Rightarrow> bool \<Rightarrow> bool \<Rightarrow> ('d, 't, 'i) ffi_lib \<Rightarrow>
   byte cresult \<times> ('d, 't, 'i) ffi_lib" where
  "badger_ffi_iter_seek B handle key outHas errOut l =
     (case ht_get handle (iterHandles l) of
        None \<Rightarrow> invalidHandle errOut l
      | Some iter \<Rightarrow>
          if \<not> outHas then failStatus StatusInvalidArgument ''outHas is nil'' errOut l
          else with_cBytes key l (\<lambda>key.
            let (r, iter') = fi_Seek B (objs l (fi_db iter)) key iter;
                l = l\<lparr>iterHandles := ht_put handle iter' (iterHandles l)\<rparr>
            in case r of
                 Inl e \<Rightarrow> fail B e errOut l
               | Inr has \<Rightarrow> succeed (if has then 1 else 0) errOut l))"

definition badger_ffi_iter_reset ::
  "('d, 't, 'i) badger_ops \<Rightarrow> u64 \<Rightarrow> bool \<Rightarrow> ('d, 't, 'i) ffi_lib \<Rightarrow> unit cresult \<times> ('d, 't, 'i) ffi_lib" where
  "badger_ffi_iter_reset B handle errOut l =
     (case ht_get handle (iterHandles l) of
        None \<Rightarrow> invalidHandle errOut l
      | Some iter \<Rightarrow> succeed () errOut (l\<lparr>iterHandles := ht_put handle (fi_Reset iter) (iterHandles l)\<rparr>))"

definition badger_ffi_iter_close ::
  "('d, 't, 'i) badger_ops \<Rightarrow> u64 \<Rightarrow> bool \<Rightarrow> ('d, 't, 'i) ffi_lib \<Rightarrow> unit cresult \<times> ('d, 't, 'i) ffi_lib" where
  "badger_ffi_iter_close B handle errOut l =
     (case ht_get handle (iterHandles l) of
        None \<Rightarrow> invalidHandle errOut l
      | Some iter \<Rightarrow>
          let (err, iter') = fi_Close B iter;
              l = l\<lparr>iterHandles := ht_put handle iter' (iterHandles l)\<rparr>;
              l = (if err = None then l\<lparr>iterHandles := ht_delete handle (iterHandles l)\<rparr> else l)
          in case err of Some e \<Rightarrow> fail B e errOut l | None \<Rightarrow> succeed () errOut l)"

lemmas ffi_lib_defs [run_defs] =
  newHandleTable_def ht_add_def ht_get_def ht_delete_def ht_put_def malloc_def badger_ffi_free_def C_int_def GoBytes_def
  cBytes_def GoString_def cString_def setOutBytes_def setError_def clearError_def failStatus_def fail_def succeed_def
  invalidHandle_def with_cBytes_def badger_ffi_db_open_def badger_ffi_db_close_def badger_ffi_db_drop_all_def
  badger_ffi_db_new_txn_def badger_ffi_txn_get_def badger_ffi_txn_has_def badger_ffi_txn_set_def
  badger_ffi_txn_delete_def badger_ffi_txn_commit_def badger_ffi_txn_discard_def badger_ffi_txn_iterator_def
  badger_ffi_iter_next_def badger_ffi_iter_key_def badger_ffi_iter_value_def badger_ffi_iter_seek_def
  badger_ffi_iter_reset_def badger_ffi_iter_close_def

end
