(* ===== verification/Ffi_Bridge.thy ===== *)
theory Ffi_Bridge
  imports Ffi_Lib
begin

text \<open>
  The Go side of the C interface (\<^verbatim>\<open>badger_ffi/ffi_bridge.go\<close>): every function of the library with
  its arguments marshalled, its out-parameters read, its memory freed and its status turned
  into an error.
\<close>

record ffiOpenOptions =
  fo_InMemory :: bool
  fo_EncryptionKey :: slice
  fo_IndexCacheSize :: int
  fo_ValueLogFileSize :: int

datatype ffiStatus =
    ffiStatusOK
  | ffiStatusInvalidArgument
  | ffiStatusInvalidHandle
  | ffiStatusNotFound
  | ffiStatusEmptyKey
  | ffiStatusDiscardedTxn
  | ffiStatusDBClosed
  | ffiStatusTxnConflict
  | ffiStatusReadOnlyTxn
  | ffiStatusInvalidEncryptionKey
  | ffiStatusInvalidValueLogSize
  | ffiStatusUnknown

fun ffi_code :: "ffiStatus \<Rightarrow> int" where
  "ffi_code ffiStatusOK = 0"
| "ffi_code ffiStatusInvalidArgument = 1"
| "ffi_code ffiStatusInvalidHandle = 2"
| "ffi_code ffiStatusNotFound = 3"
| "ffi_code ffiStatusEmptyKey = 4"
| "ffi_code ffiStatusDiscardedTxn = 5"
| "ffi_code ffiStatusDBClosed = 6"
| "ffi_code ffiStatusTxnConflict = 7"
| "ffi_code ffiStatusReadOnlyTxn = 8"
| "ffi_code ffiStatusInvalidEncryptionKey = 9"
| "ffi_code ffiStatusInvalidValueLogSize = 10"
| "ffi_code ffiStatusUnknown = 11"

subsection \<open>Marshalling\<close>

definition ffiCString :: "cptr \<Rightarrow> ('d, 't, 'i) ffi_lib \<Rightarrow> string \<times> ('d, 't, 'i) ffi_lib" where
  "ffiCString ptr l =
     (case ptr of
        None \<Rightarrow> ([], l)
      | Some p \<Rightarrow>
          ((case cheap l p of Some (CString s) \<Rightarrow> GoString s | _ \<Rightarrow> []), badger_ffi_free (Some p) l))"

definition ffiBytesArg :: "slice \<Rightarrow> cbuf" where
  "ffiBytesArg data = (if len data = 0 then (None, 0) else (Some (contents data), word_of_nat (len data)))"

definition ffiBytesResult :: "cptr \<times> size_t \<Rightarrow> ('d, 't, 'i) ffi_lib \<Rightarrow> slice res \<times> ('d, 't, 'i) ffi_lib" where
  "ffiBytesResult r l =
     (case r of (ptr, n) \<Rightarrow>
        (case ptr of
           None \<Rightarrow> (Inr None, l)
         | Some p \<Rightarrow>
             if n = 0 then (Inr None, l)
             else (GoBytes (case cheap l p of Some (CBytes b) \<Rightarrow> b | _ \<Rightarrow> []) (C_int n), badger_ffi_free (Some p) l)))"

definition ffiBool :: "bool \<Rightarrow> byte" where
  "ffiBool value = (if value then 1 else 0)"

definition ffiStatusErr :: "int \<Rightarrow> cptr \<Rightarrow> ('d, 't, 'i) ffi_lib \<Rightarrow> err \<times> ('d, 't, 'i) ffi_lib" where
  "ffiStatusErr status errPtr l =
     (let (message, l) = ffiCString errPtr l
      in if status = ffi_code ffiStatusOK then (None, l)
         else (Some (if status = ffi_code ffiStatusNotFound then ErrNotFound
                else if status = ffi_code ffiStatusEmptyKey then ErrEmptyKey
                else if status = ffi_code ffiStatusDiscardedTxn then ErrDiscardedTxn
                else if status = ffi_code ffiStatusDBClosed then ErrDBClosed
                else if status = ffi_code ffiStatusTxnConflict then ErrTxnConflict
                else if status = ffi_code ffiStatusReadOnlyTxn then ErrReadOnlyTxn
                else if status \<in> {ffi_code ffiStatusInvalidEncryptionKey, ffi_code ffiStatusInvalidValueLogSize,
                          ffi_code ffiStatusInvalidArgument, ffi_code ffiStatusInvalidHandle, ffi_code ffiStatusUnknown}
                then ErrForeign (if message = [] then ''badger ffi error'' else message)
                else ErrForeign (if message = [] then ''unknown badger ffi status'' else message)), l))"

text \<open>
  The shape of a call: run the library, free and read the error, then read the
  out-parameter, which holds its zero value when nothing was written.
\<close>

definition ffi_call ::
  "'o \<Rightarrow> 'o cresult \<times> ('d, 't, 'i) ffi_lib \<Rightarrow> ('o \<Rightarrow> ('d, 't, 'i) ffi_lib \<Rightarrow> 'r res \<times> ('d, 't, 'i) ffi_lib) \<Rightarrow>
   'r res \<times> ('d, 't, 'i) ffi_lib" where
  "ffi_call zero r read =
     (case r of
        (Inl panic, l) \<Rightarrow> (Inl panic, l)
      | (Inr (status, out, errPtr), l) \<Rightarrow>
          (case ffiStatusErr status errPtr l of
             (Some e, l) \<Rightarrow> (Inl e, l)
           | (None, l) \<Rightarrow> read (case out of None \<Rightarrow> zero | Some out \<Rightarrow> out) l))"

definition ffi_value :: "'r \<Rightarrow> ('d, 't, 'i) ffi_lib \<Rightarrow> 'r res \<times> ('d, 't, 'i) ffi_lib" where
  "ffi_value out l = (Inr out, l)"

definition err_of :: "unit res \<times> ('d, 't, 'i) ffi_lib \<Rightarrow> err \<times> ('d, 't, 'i) ffi_lib" where
  "err_of r = (case r of (Inl e, l) \<Rightarrow> (Some e, l) | (Inr _, l) \<Rightarrow> (None, l))"

subsection \<open>Calls\<close>

text \<open>The C string of the path is allocated, passed twice and freed.\<close>

definition ffiOpen ::
  "('d, 't, 'i) badger_ops \<Rightarrow> string \<Rightarrow> ffiOpenOptions \<Rightarrow> ('d, 't, 'i) ffi_lib \<Rightarrow> u64 res \<times> ('d, 't, 'i) ffi_lib" where
  "ffiOpen B path opts l =
     (let (cPath, l) = malloc (CString path) l;
          (r, l) = ffi_call 0
            (badger_ffi_db_open B (Some path) (Some path) (ffiBool (fo_InMemory opts)) (ffiBytesArg (fo_EncryptionKey opts))
               (fo_IndexCacheSize opts) (fo_ValueLogFileSize opts) True True l) ffi_value
      in (r, badger_ffi_free (Some cPath) l))"

definition compatOptions :: "badger_options \<Rightarrow> ffiOpenOptions" where
  "compatOptions opts =
     \<lparr>fo_InMemory = opt_InMemory opts, fo_EncryptionKey = opt_EncryptionKey opts,
      fo_IndexCacheSize = opt_IndexCacheSize opts, fo_ValueLogFileSize = opt_ValueLogFileSize opts\<rparr>"

definition ffiDBClose ::
  "('d, 't, 'i) badger_ops \<Rightarrow> u64 \<Rightarrow> ('d, 't, 'i) ffi_lib \<Rightarrow> err \<times> ('d, 't, 'i) ffi_lib" where
  "ffiDBClose B handle l = err_of (ffi_call () (badger_ffi_db_close B handle True l) ffi_value)"

definition ffiDBDropAll ::
  "('d, 't, 'i) badger_ops \<Rightarrow> u64 \<Rightarrow> ('d, 't, 'i) ffi_lib \<Rightarrow> err \<times> ('d, 't, 'i) ffi_lib" where
  "ffiDBDropAll B handle l = err_of (ffi_call () (badger_ffi_db_drop_all B handle True l) ffi_value)"

definition ffiDBNewTxn ::
  "('d, 't, 'i) badger_ops \<Rightarrow> u64 \<Rightarrow> bool \<Rightarrow> ('d, 't, 'i) ffi_lib \<Rightarrow> u64 res \<times> ('d, 't, 'i) ffi_lib" where
  "ffiDBNewTxn B handle readOnly l =
     ffi_call 0 (badger_ffi_db_new_txn B handle (ffiBool readOnly) True True l) ffi_value"

definition ffiTxnGet ::
  "('d, 't, 'i) badger_ops \<Rightarrow> u64 \<Rightarrow> slice \<Rightarrow> ('d, 't, 'i) ffi_lib \<Rightarrow> slice res \<times> ('d, 't, 'i) ffi_lib" where
  "ffiTxnGet B handle key l =
     ffi_call (None, 0) (badger_ffi_txn_get B handle (ffiBytesArg key) True True True l) ffiBytesResult"

definition ffiTxnHas ::
  "('d, 't, 'i) badger_ops \<Rightarrow> u64 \<Rightarrow> slice \<Rightarrow> ('d, 't, 'i) ffi_lib \<Rightarrow> bool res \<times> ('d, 't, 'i) ffi_lib" where
  "ffiTxnHas B handle key l =
     ffi_call 0 (badger_ffi_txn_has B handle (ffiBytesArg key) True True l) (\<lambda>has. ffi_value (has \<noteq> 0))"

definition ffiTxnSet ::
  "('d, 't, 'i) badger_ops \<Rightarrow> u64 \<Rightarrow> slice \<Rightarrow> slice \<Rightarrow> ('d, 't, 'i) ffi_lib \<Rightarrow> err \<times> ('d, 't, 'i) ffi_lib" where
  "ffiTxnSet B handle key value l =
     err_of (ffi_call () (badger_ffi_txn_set B handle (ffiBytesArg key) (ffiBytesArg value) True l) ffi_value)"

definition ffiTxnDelete ::
  "('d, 't, 'i) badger_ops \<Rightarrow> u64 \<Rightarrow> slice \<Rightarrow> ('d, 't, 'i) ffi_lib \<Rightarrow> err \<times> ('d, 't, 'i) ffi_lib" where
  "ffiTxnDelete B handle key l =
     err_of (ffi_call () (badger_ffi_txn_delete B handle (ffiBytesArg key) True l) ffi_value)"

definition ffiTxnCommit ::
  "('d, 't, 'i) badger_ops \<Rightarrow> u64 \<Rightarrow> ('d, 't, 'i) ffi_lib \<Rightarrow> err \<times> ('d, 't, 'i) ffi_lib" where
  "ffiTxnCommit B handle l = err_of (ffi_call () (badger_ffi_txn_commit B handle True l) ffi_value)"

definition ffiTxnDiscard ::
  "('d, 't, 'i) badger_ops \<Rightarrow> u64 \<Rightarrow> ('d, 't, 'i) ffi_lib \<Rightarrow> ('d, 't, 'i) ffi_lib" where
  "ffiTxnDiscard B handle l = (if handle = 0 then l else badger_ffi_txn_discard B handle l)"

definition ffiTxnIterator ::
  "('d, 't, 'i) badger_ops \<Rightarrow> u64 \<Rightarrow> IterOptions \<Rightarrow> ('d, 't, 'i) ffi_lib \<Rightarrow> u64 res \<times> ('d, 't, 'i) ffi_lib" where
  "ffiTxnIterator B handle opts l =
     ffi_call 0
       (badger_ffi_txn_iterator B handle (ffiBytesArg (Prefix opts)) (ffiBytesArg (Start opts)) (ffiBytesArg (End opts))
          (ffiBool (Reverse opts)) (ffiBool (KeysOnly opts)) True True l) ffi_value"

definition ffiIterNext ::
  "('d, 't, 'i) badger_ops \<Rightarrow> u64 \<Rightarrow> ('d, 't, 'i) ffi_lib \<Rightarrow> bool res \<times> ('d, 't, 'i) ffi_lib" where
  "ffiIterNext B handle l =
     ffi_call 0 (badger_ffi_iter_next B handle True True l) (\<lambda>has. ffi_value (has \<noteq> 0))"

definition ffiIterKey ::
  "('d, 't, 'i) badger_ops \<Rightarrow> u64 \<Rightarrow> ('d, 't, 'i) ffi_lib \<Rightarrow> slice res \<times> ('d, 't, 'i) ffi_lib" where
  "ffiIterKey B handle l = ffi_call (None, 0) (badger_ffi_iter_key B handle True True True l) ffiBytesResult"

definition ffiIterValue ::
  "('d, 't, 'i) badger_ops \<Rightarrow> u64 \<Rightarrow> ('d, 't, 'i) ffi_lib \<Rightarrow> slice res \<times> ('d, 't, 'i) ffi_lib" where
  "ffiIterValue B handle l = ffi_call (None, 0) (badger_ffi_iter_value B handle True True True l) ffiBytesResult"

definition ffiIterSeek ::
  "('d, 't, 'i) badger_ops \<Rightarrow> u64 \<Rightarrow> slice \<Rightarrow> ('d, 't, 'i) ffi_lib \<Rightarrow> bool res \<times> ('d, 't, 'i) ffi_lib" where
  "ffiIterSeek B handle key l =
     ffi_call 0 (badger_ffi_iter_seek B handle (ffiBytesArg key) True True l) (\<lambda>has. ffi_value (has \<noteq> 0))"

definition ffiIterReset ::
  "('d, 't, 'i) badger_ops \<Rightarrow> u64 \<Rightarrow> ('d, 't, 'i) ffi_lib \<Rightarrow> err \<times> ('d, 't, 'i) ffi_lib" where
  "ffiIterReset B handle l = err_of (ffi_call () (badger_ffi_iter_reset B handle True l) ffi_value)"

text \<open>Closing an iterator whose handle the library no longer knows is no error.\<close>

definition ffiIterClose ::
  "('d, 't, 'i) badger_ops \<Rightarrow> u64 \<Rightarrow> ('d, 't, 'i) ffi_lib \<Rightarrow> err \<times> ('d, 't, 'i) ffi_lib" where
  "ffiIterClose B handle l =
     (if handle = 0 then (None, l)
      else case badger_ffi_iter_close B handle True l of
             (Inl panic, l) \<Rightarrow> (Some panic, l)
           | (Inr (status, out, errPtr), l) \<Rightarrow>
               if status = ffi_code ffiStatusInvalidHandle
               then let (_, l) = ffiCString errPtr l in (None, l)
               else ffiStatusErr status errPtr l)"

lemmas ffi_bridge_defs [run_defs] =
  ffiCString_def ffiBytesArg_def ffiBytesResult_def ffiBool_def ffiStatusErr_def ffi_call_def ffi_value_def err_of_def
  ffiOpen_def compatOptions_def ffiDBClose_def ffiDBDropAll_def ffiDBNewTxn_def ffiTxnGet_def ffiTxnHas_def
  ffiTxnSet_def ffiTxnDelete_def ffiTxnCommit_def ffiTxnDiscard_def ffiTxnIterator_def ffiIterNext_def ffiIterKey_def
  ffiIterValue_def ffiIterSeek_def ffiIterReset_def ffiIterClose_def

end
