(* ===== verification/Ffi_Store.thy ===== *)
theory Ffi_Store
  imports Ffi_Bridge
begin

text \<open>
  The store over the shared library (\<^verbatim>\<open>badger_ffi/badger.go\<close>, \<^verbatim>\<open>badger_ffi/iter.go\<close>).  Every method
  takes and returns the state of the library.  The argument \<open>ctx\<close> is the transaction found
  in the context, if there is one.
\<close>

record ffi_Datastore =
  fs_handle :: u64
  fs_closed :: bool

record ffi_bTxn =
  fx_handle :: u64
  fx_initErr :: err

record ffi_iterator =
  fo_handle :: u64
  fo_closer :: "ffi_bTxn option"

definition errWritesBlocked :: kverror where
  "errWritesBlocked = ErrForeign ''Writes are blocked, possibly due to DropAll or Close''"

definition closedTxnErr :: "bool \<Rightarrow> kverror" where
  "closedTxnErr readonly = (if readonly then ErrDBClosed else errWritesBlocked)"

definition ffi_NewDatastore ::
  "('d, 't, 'i) badger_ops \<Rightarrow> string \<Rightarrow> badger_options \<Rightarrow> ('d, 't, 'i) ffi_lib \<Rightarrow>
   ffi_Datastore res \<times> ('d, 't, 'i) ffi_lib" where
  "ffi_NewDatastore B path opts l =
     (let (r, l) = ffiOpen B path (compatOptions opts) l
      in case r of Inl e \<Rightarrow> (Inl e, l) | Inr handle \<Rightarrow> (Inr \<lparr>fs_handle = handle, fs_closed = False\<rparr>, l))"

subsection \<open>Transactions\<close>

definition fx_Get ::
  "('d, 't, 'i) badger_ops \<Rightarrow> ffi_bTxn \<Rightarrow> slice \<Rightarrow> ('d, 't, 'i) ffi_lib \<Rightarrow> slice res \<times> ('d, 't, 'i) ffi_lib" where
  "fx_Get B txn key l =
     (case fx_initErr txn of Some e \<Rightarrow> (Inl e, l) | None \<Rightarrow> ffiTxnGet B (fx_handle txn) key l)"

definition fx_Has ::
  "('d, 't, 'i) badger_ops \<Rightarrow> ffi_bTxn \<Rightarrow> slice \<Rightarrow> ('d, 't, 'i) ffi_lib \<Rightarrow> bool res \<times> ('d, 't, 'i) ffi_lib" where
  "fx_Has B txn key l =
     (case fx_initErr txn of Some e \<Rightarrow> (Inl e, l) | None \<Rightarrow> ffiTxnHas B (fx_handle txn) key l)"

definition fx_iterator ::
  "('d, 't, 'i) badger_ops \<Rightarrow> ffi_bTxn \<Rightarrow> IterOptions \<Rightarrow> ('d, 't, 'i) ffi_lib \<Rightarrow>
   ffi_iterator res \<times> ('d, 't, 'i) ffi_lib" where
  "fx_iterator B txn opts l =
     (case fx_initErr txn of
        Some e \<Rightarrow> (Inl e, l)
      | None \<Rightarrow>
          let (r, l) = ffiTxnIterator B (fx_handle txn) opts l
          in case r of Inl e \<Rightarrow> (Inl e, l) | Inr handle \<Rightarrow> (Inr \<lparr>fo_handle = handle, fo_closer = None\<rparr>, l))"

definition fx_Set ::
  "('d, 't, 'i) badger_ops \<Rightarrow> ffi_bTxn \<Rightarrow> slice \<Rightarrow> slice \<Rightarrow> ('d, 't, 'i) ffi_lib \<Rightarrow> err \<times> ('d, 't, 'i) ffi_lib" where
  "fx_Set B txn key value l =
     (case fx_initErr txn of Some e \<Rightarrow> (Some e, l) | None \<Rightarrow> ffiTxnSet B (fx_handle txn) key value l)"

definition fx_Delete ::
  "('d, 't, 'i) badger_ops \<Rightarrow> ffi_bTxn \<Rightarrow> slice \<Rightarrow> ('d, 't, 'i) ffi_lib \<Rightarrow> err \<times> ('d, 't, 'i) ffi_lib" where
  "fx_Delete B txn key l =
     (case fx_initErr txn of Some e \<Rightarrow> (Some e, l) | None \<Rightarrow> ffiTxnDelete B (fx_handle txn) key l)"

definition fx_Commit ::
  "('d, 't, 'i) badger_ops \<Rightarrow> ffi_bTxn \<Rightarrow> ('d, 't, 'i) ffi_lib \<Rightarrow> err \<times> ('d, 't, 'i) ffi_lib" where
  "fx_Commit B txn l =
     (case fx_initErr txn of Some e \<Rightarrow> (Some e, l) | None \<Rightarrow> ffiTxnCommit B (fx_handle txn) l)"

definition fx_Discard ::
  "('d, 't, 'i) badger_ops \<Rightarrow> ffi_bTxn \<Rightarrow> ('d, 't, 'i) ffi_lib \<Rightarrow> ffi_bTxn \<times> ('d, 't, 'i) ffi_lib" where
  "fx_Discard B txn l = (let l = ffiTxnDiscard B (fx_handle txn) l in (txn\<lparr>fx_handle := 0\<rparr>, l))"

subsection \<open>Methods of the store\<close>

definition fs_newTxn ::
  "('d, 't, 'i) badger_ops \<Rightarrow> bool \<Rightarrow> ffi_Datastore \<Rightarrow> ('d, 't, 'i) ffi_lib \<Rightarrow> ffi_bTxn \<times> ('d, 't, 'i) ffi_lib" where
  "fs_newTxn B readonly d l =
     (if fs_closed d then (\<lparr>fx_handle = 0, fx_initErr = Some (closedTxnErr readonly)\<rparr>, l)
      else case ffiDBNewTxn B (fs_handle d) readonly l of
             (Inl e, l) \<Rightarrow> (\<lparr>fx_handle = 0, fx_initErr = Some e\<rparr>, l)
           | (Inr handle, l) \<Rightarrow> (\<lparr>fx_handle = handle, fx_initErr = None\<rparr>, l))"

definition fs_Get ::
  "('d, 't, 'i) badger_ops \<Rightarrow> ffi_bTxn option \<Rightarrow> ffi_Datastore \<Rightarrow> slice \<Rightarrow> ('d, 't, 'i) ffi_lib \<Rightarrow>
   slice res \<times> ('d, 't, 'i) ffi_lib" where
  "fs_Get B ctx d key l =
     (case ctx of
        Some txn \<Rightarrow> fx_Get B txn key l
      | None \<Rightarrow>
          let (txn, l) = fs_newTxn B True d l; (r, l) = fx_Get B txn key l; (_, l) = fx_Discard B txn l in (r, l))"

definition fs_Has ::
  "('d, 't, 'i) badger_ops \<Rightarrow> ffi_bTxn option \<Rightarrow> ffi_Datastore \<Rightarrow> slice \<Rightarrow> ('d, 't, 'i) ffi_lib \<Rightarrow>
   bool res \<times> ('d, 't, 'i) ffi_lib" where
  "fs_Has B ctx d key l =
     (case ctx of
        Some txn \<Rightarrow> fx_Has B txn key l
      | None \<Rightarrow>
          let (txn, l) = fs_newTxn B True d l; (r, l) = fx_Has B txn key l; (_, l) = fx_Discard B txn l in (r, l))"

definition fs_Set ::
  "('d, 't, 'i) badger_ops \<Rightarrow> ffi_bTxn option \<Rightarrow> ffi_Datastore \<Rightarrow> slice \<Rightarrow> slice \<Rightarrow> ('d, 't, 'i) ffi_lib \<Rightarrow>
   err \<times> ('d, 't, 'i) ffi_lib" where
  "fs_Set B ctx d key value l =
     (case ctx of
        Some txn \<Rightarrow> fx_Set B txn key value l
      | None \<Rightarrow>
          let (txn, l) = fs_newTxn B False d l; (e, l) = fx_Set B txn key value l
          in if e \<noteq> None then let (_, l) = fx_Discard B txn l in (e, l)
             else let (e, l) = fx_Commit B txn l; (_, l) = fx_Discard B txn l in (e, l))"

definition fs_Delete ::
  "('d, 't, 'i) badger_ops \<Rightarrow> ffi_bTxn option \<Rightarrow> ffi_Datastore \<Rightarrow> slice \<Rightarrow> ('d, 't, 'i) ffi_lib \<Rightarrow>
   err \<times> ('d, 't, 'i) ffi_lib" where
  "fs_Delete B ctx d key l =
     (case ctx of
        Some txn \<Rightarrow> fx_Delete B txn key l
      | None \<Rightarrow>
          let (txn, l) = fs_newTxn B False d l; (e, l) = fx_Delete B txn key l
          in if e \<noteq> None then let (_, l) = fx_Discard B txn l in (e, l)
             else let (e, l) = fx_Commit B txn l; (_, l) = fx_Discard B txn l in (e, l))"

definition fs_Close ::
  "('d, 't, 'i) badger_ops \<Rightarrow> ffi_Datastore \<Rightarrow> ('d, 't, 'i) ffi_lib \<Rightarrow> err \<times> ffi_Datastore \<times> ('d, 't, 'i) ffi_lib" where
  "fs_Close B d l =
     (if fs_closed d then (None, d, l)
      else let (e, l) = ffiDBClose B (fs_handle d) l
           in (e, if e = None then d\<lparr>fs_closed := True\<rparr> else d, l))"

definition fs_Iterator ::
  "('d, 't, 'i) badger_ops \<Rightarrow> ffi_bTxn option \<Rightarrow> ffi_Datastore \<Rightarrow> IterOptions \<Rightarrow> ('d, 't, 'i) ffi_lib \<Rightarrow>
   ffi_iterator res \<times> ('d, 't, 'i) ffi_lib" where
  "fs_Iterator B ctx d opts l =
     (case ctx of
        Some txn \<Rightarrow> fx_iterator B txn opts l
      | None \<Rightarrow>
          let (txn, l) = fs_newTxn B True d l; (r, l) = fx_iterator B txn opts l
          in case r of Inl e \<Rightarrow> (Inl e, l) | Inr it \<Rightarrow> (Inr (it\<lparr>fo_closer := Some txn\<rparr>), l))"

definition fs_DropAll ::
  "('d, 't, 'i) badger_ops \<Rightarrow> ffi_Datastore \<Rightarrow> ('d, 't, 'i) ffi_lib \<Rightarrow> err \<times> ('d, 't, 'i) ffi_lib" where
  "fs_DropAll B d l = ffiDBDropAll B (fs_handle d) l"

subsection \<open>Iterators\<close>

text \<open>\<^verbatim>\<open>Reset\<close> and \<^verbatim>\<open>Key\<close> have no error to return: they panic with it.\<close>

definition fo_Reset ::
  "('d, 't, 'i) badger_ops \<Rightarrow> ffi_iterator \<Rightarrow> ('d, 't, 'i) ffi_lib \<Rightarrow> unit res \<times> ('d, 't, 'i) ffi_lib" where
  "fo_Reset B it l =
     (let (e, l) = ffiIterReset B (fo_handle it) l
      in case e of Some e \<Rightarrow> (Inl (Panic (Error e)), l) | None \<Rightarrow> (Inr (), l))"

definition fo_Next ::
  "('d, 't, 'i) badger_ops \<Rightarrow> ffi_iterator \<Rightarrow> ('d, 't, 'i) ffi_lib \<Rightarrow> bool res \<times> ('d, 't, 'i) ffi_lib" where
  "fo_Next B it l = ffiIterNext B (fo_handle it) l"

definition fo_Key ::
  "('d, 't, 'i) badger_ops \<Rightarrow> ffi_iterator \<Rightarrow> ('d, 't, 'i) ffi_lib \<Rightarrow> slice res \<times> ('d, 't, 'i) ffi_lib" where
  "fo_Key B it l =
     (let (r, l) = ffiIterKey B (fo_handle it) l
      in case r of Inl e \<Rightarrow> (Inl (Panic (Error e)), l) | Inr key \<Rightarrow> (Inr key, l))"

definition fo_Value ::
  "('d, 't, 'i) badger_ops \<Rightarrow> ffi_iterator \<Rightarrow> ('d, 't, 'i) ffi_lib \<Rightarrow> slice res \<times> ('d, 't, 'i) ffi_lib" where
  "fo_Value B it l = ffiIterValue B (fo_handle it) l"

definition fo_Seek ::
  "('d, 't, 'i) badger_ops \<Rightarrow> ffi_iterator \<Rightarrow> slice \<Rightarrow> ('d, 't, 'i) ffi_lib \<Rightarrow> bool res \<times> ('d, 't, 'i) ffi_lib" where
  "fo_Seek B it key l = ffiIterSeek B (fo_handle it) key l"

definition fo_Close ::
  "('d, 't, 'i) badger_ops \<Rightarrow> ffi_iterator \<Rightarrow> ('d, 't, 'i) ffi_lib \<Rightarrow> err \<times> ffi_iterator \<times> ('d, 't, 'i) ffi_lib" where
  "fo_Close B it l =
     (let (e, l) = ffiIterClose B (fo_handle it) l;
          it = (if e = None then it\<lparr>fo_handle := 0\<rparr> else it)
      in case fo_closer it of
           Some txn \<Rightarrow>
             let (txn, l) = fx_Discard B txn l
             in (if e \<noteq> None then e else None, it\<lparr>fo_closer := Some txn\<rparr>, l)
         | None \<Rightarrow> (e, it, l))"

lemmas ffi_store_defs [run_defs] =
  closedTxnErr_def ffi_NewDatastore_def fx_Get_def fx_Has_def fx_iterator_def fx_Set_def fx_Delete_def fx_Commit_def
  fx_Discard_def fs_newTxn_def fs_Get_def fs_Has_def fs_Set_def fs_Delete_def fs_Close_def fs_Iterator_def
  fs_DropAll_def fo_Reset_def fo_Next_def fo_Key_def fo_Value_def fo_Seek_def fo_Close_def

end
