(* ===== verification/Ffi_Calls.thy ===== *)
theory Ffi_Calls
  imports Ffi_Store
begin

text \<open>
  What a call through the C interface amounts to: the method of \<^verbatim>\<open>api.go\<close> on the object behind
  the handle, with the error mapped, and the C heap as it was.
\<close>

subsection \<open>Errors across the interface\<close>

text \<open>
  The error \<^verbatim>\<open>ffiStatusErr\<close> makes of a status with a message, and of an error of badger that the
  library reports.
\<close>

definition message_lib :: "string \<Rightarrow> (unit, unit, unit) ffi_lib" where
  "message_lib msg =
     \<lparr>objs = (\<lambda>_. \<lparr>fdb_db = (), fdb_closed = False\<rparr>), objs_next = 0, dbHandles = newHandleTable, txnHandles = newHandleTable,
      iterHandles = newHandleTable, cheap = [0 \<mapsto> CString msg], cheap_next = 1, bad_frees = 0\<rparr>"

definition status_error :: "Status \<Rightarrow> string \<Rightarrow> kverror" where
  "status_error s msg = the (fst (ffiStatusErr (status_code s) (Some 0) (message_lib msg)))"

definition ffi_mapped :: "('d, 't, 'i) badger_ops \<Rightarrow> badger_error \<Rightarrow> kverror" where
  "ffi_mapped B e = status_error (StatusFromError B (Some e)) (bg_Error B e)"

lemma ffiCString_message: "ffiCString (Some 0) (message_lib msg) = (GoString msg, badger_ffi_free (Some 0) (message_lib msg))"
  by (simp add: ffiCString_def message_lib_def)

lemma status_error_simps [simp]:
  "status_error StatusNotFound msg = ErrNotFound" "status_error StatusEmptyKey msg = ErrEmptyKey"
  "status_error StatusDiscardedTxn msg = ErrDiscardedTxn" "status_error StatusDBClosed msg = ErrDBClosed"
  "status_error StatusTxnConflict msg = ErrTxnConflict" "status_error StatusReadOnlyTxn msg = ErrReadOnlyTxn"
  "s \<in> {StatusInvalidEncryptionKey, StatusInvalidValueLogSize, StatusInvalidArgument, StatusInvalidHandle, StatusUnknown} \<Longrightarrow>
     status_error s msg = ErrForeign (if GoString msg = [] then ''badger ffi error'' else GoString msg)"
  by (auto simp: status_error_def ffiStatusErr_def ffiCString_message)

text \<open>The C heap is in use only below the next address.\<close>

definition fresh :: "('d, 't, 'i) ffi_lib \<Rightarrow> bool" where
  "fresh l \<longleftrightarrow> (\<forall>p \<ge> cheap_next l. cheap l p = None)"

lemma fresh_upd [simp]:
  "fresh (l\<lparr>objs := x1\<rparr>) = fresh l" "fresh (l\<lparr>objs_next := x2\<rparr>) = fresh l" "fresh (l\<lparr>dbHandles := x3\<rparr>) = fresh l"
  "fresh (l\<lparr>txnHandles := x4\<rparr>) = fresh l" "fresh (l\<lparr>iterHandles := x5\<rparr>) = fresh l"
  by (simp_all add: fresh_def)

lemma fresh_more: "fresh l \<Longrightarrow> cheap_next l \<le> n \<Longrightarrow> fresh (l\<lparr>cheap_next := n\<rparr>)"
  by (simp add: fresh_def)

text \<open>A block that is allocated and freed again leaves nothing but a spent address.\<close>

lemma malloc_free:
  assumes "fresh l"
  shows "badger_ffi_free (Some (fst (malloc b l))) (snd (malloc b l)) = l\<lparr>cheap_next := Suc (cheap_next l)\<rparr>"
  using assms by (auto simp: fresh_def badger_ffi_free_def malloc_def fun_upd_idem)

lemma failStatus_report:
  "failStatus s msg True l = (Inr (status_code s, None, Some (fst (malloc (CString msg) l))), snd (malloc (CString msg) l))"
  by (simp add: failStatus_def setError_def Let_def split_def)

text \<open>What the Go side reads from a reported status; the message is freed.\<close>

lemma ffiStatusErr_report:
  assumes "fresh l" "s \<noteq> StatusOK"
  shows "ffiStatusErr (status_code s) (Some (fst (malloc (CString msg) l))) (snd (malloc (CString msg) l)) =
    (Some (status_error s msg), l\<lparr>cheap_next := Suc (cheap_next l)\<rparr>)"
proof -
  have "ffiCString (Some (fst (malloc (CString msg) l))) (snd (malloc (CString msg) l)) =
      (GoString msg, l\<lparr>cheap_next := Suc (cheap_next l)\<rparr>)"
    using malloc_free [OF assms(1), of "CString msg"] by (simp add: ffiCString_def) (simp add: malloc_def)
  then show ?thesis
    using assms(2) by (cases s) (simp_all add: ffiStatusErr_def)
qed

lemma call_failStatus:
  assumes "fresh l" "s \<noteq> StatusOK"
  shows "ffi_call zero (failStatus s msg True l) read = (Inl (status_error s msg), l\<lparr>cheap_next := Suc (cheap_next l)\<rparr>)"
  using ffiStatusErr_report [OF assms] by (simp add: ffi_call_def failStatus_report)

lemma StatusFromError_not_OK: "StatusFromError B (Some e) \<noteq> StatusOK"
  by (simp add: StatusFromError_def)

lemma call_fail: "fresh l \<Longrightarrow> ffi_call zero (fail B e True l) read = (Inl (ffi_mapped B e), l\<lparr>cheap_next := Suc (cheap_next l)\<rparr>)"
  by (simp add: fail_def call_failStatus StatusFromError_not_OK ffi_mapped_def)

lemma call_invalid:
  "fresh l \<Longrightarrow> ffi_call zero (invalidHandle True l) read = (Inl (ErrForeign ''invalid handle''), l\<lparr>cheap_next := Suc (cheap_next l)\<rparr>)"
  by (simp add: invalidHandle_def call_failStatus GoString_def)

lemma call_succeed: "ffi_call zero (succeed out True l) read = read out l"
  by (simp add: ffi_call_def succeed_def clearError_def ffiStatusErr_def ffiCString_def)

lemma call_panic: "ffi_call zero (Inl e, l) read = (Inl e, l)"
  by (simp add: ffi_call_def)

lemmas call_simps = call_fail call_invalid call_succeed call_panic

subsection \<open>Byte strings across the interface\<close>

lemma ucast_of_nat: "(ucast (word_of_nat k :: 64 word) :: 32 word) = word_of_nat k"
  by (rule bit_word_eqI) (simp add: bit_simps)

lemma C_int_of_nat: "C_int (word_of_nat k) = signed_take_bit 31 (int k)"
  unfolding C_int_def ucast_of_nat by (simp add: signed_of_nat)

lemma C_int_small: "k < 2 ^ 31 \<Longrightarrow> C_int (word_of_nat k) = int k"
  unfolding C_int_of_nat by (rule signed_take_bit_int_eq_self) simp_all

lemma C_int_negative:
  assumes "2 ^ 31 \<le> k" "k < 2 ^ 32"
  shows "C_int (word_of_nat k) < 0"
proof -
  from assms have "int k div 2 ^ 31 = 1" by simp
  then show ?thesis unfolding C_int_of_nat by (simp add: bit_iff_odd)
qed

lemma mod_shift: "(2 ^ 32 + (k::int) + c) mod 2 ^ 32 = (k + c) mod 2 ^ 32"
  by (simp only: add.assoc mod_add_self1)

lemma C_int_wraps: "C_int (word_of_nat (2 ^ 32 + k)) = C_int (word_of_nat k)"
proof -
  have "signed_take_bit 31 (2 ^ 32 + int k) = signed_take_bit 31 (int k)"
    unfolding signed_take_bit_eq_take_bit_shift take_bit_eq_mod using mod_shift [of "int k" "2 ^ 31"] by simp
  then show ?thesis unfolding C_int_of_nat by simp
qed

lemma word_of_nat_0_iff: "k < 2 ^ 64 \<Longrightarrow> (word_of_nat k :: 64 word) = 0 \<longleftrightarrow> k = 0"
  by (auto simp: word_of_nat_eq_0_iff dest: dvd_imp_le)

lemma arg_small:
  assumes "len data < 2 ^ 31"
  shows "cBytes (ffiBytesArg data) = Inr (normalizeValue data)"
proof (cases "len data = 0")
  case False
  then have "(word_of_nat (len data) :: 64 word) \<noteq> 0" using assms word_of_nat_0_iff [of "len data"] by simp
  with False assms C_int_small [OF assms] show ?thesis
    by (cases data) (auto simp: cBytes_def ffiBytesArg_def GoBytes_def normalizeValue_def len_def)
qed (simp add: cBytes_def ffiBytesArg_def normalizeValue_def)

text \<open>A result: copied out and freed; whole when it is shorter than \<open>2 ^ 31\<close> bytes.\<close>

lemma result_freed:
  assumes "fresh l" "len v < 2 ^ 64"
  shows "\<exists>r n. ffiBytesResult (fst (setOutBytes v l)) (snd (setOutBytes v l)) = (r, l\<lparr>cheap_next := n\<rparr>) \<and>
    cheap_next l \<le> n \<and> (len v < 2 ^ 31 \<longrightarrow> r = Inr (normalizeValue v))"
proof (cases "len v = 0")
  case True
  then show ?thesis by (intro exI [of _ "Inr None"] exI [of _ "cheap_next l"]) (simp add: setOutBytes_def ffiBytesResult_def normalizeValue_def)
next
  case False
  then have n: "(word_of_nat (len v) :: 64 word) \<noteq> 0" using assms(2) word_of_nat_0_iff by simp
  have "ffiBytesResult (fst (setOutBytes v l)) (snd (setOutBytes v l)) =
      (GoBytes (contents v) (C_int (word_of_nat (len v))), l\<lparr>cheap_next := Suc (cheap_next l)\<rparr>)"
    using False n malloc_free [OF assms(1), of "CBytes (contents v)"]
    by (simp add: setOutBytes_def Let_def split_def ffiBytesResult_def) (simp add: malloc_def)
  moreover have "GoBytes (contents v) (C_int (word_of_nat (len v))) = Inr (normalizeValue v)" if "len v < 2 ^ 31"
    using False C_int_small [OF that] by (cases v) (auto simp: GoBytes_def normalizeValue_def len_def)
  ultimately show ?thesis by (intro exI [of _ "GoBytes (contents v) (C_int (word_of_nat (len v)))"] exI [of _ "Suc (cheap_next l)"]) simp
qed

subsection \<open>Calls keep the C heap\<close>

definition tidy :: "('d, 't, 'i) ffi_lib \<Rightarrow> ('d, 't, 'i) ffi_lib \<Rightarrow> bool" where
  "tidy l l' \<longleftrightarrow> cheap l' = cheap l \<and> bad_frees l' = bad_frees l \<and> cheap_next l \<le> cheap_next l'"

lemma tidy_trans: "tidy l l' \<Longrightarrow> tidy l' l'' \<Longrightarrow> tidy l l''"
  by (simp add: tidy_def)

lemma tidy_fresh: "fresh l \<Longrightarrow> tidy l l' \<Longrightarrow> fresh l'"
  by (simp add: fresh_def tidy_def)

lemma result_tidy:
  assumes "fresh l" "len v < 2 ^ 64"
  shows "tidy l (snd (ffiBytesResult (fst (setOutBytes v l)) (snd (setOutBytes v l))))"
proof -
  from result_freed [OF assms] obtain r n where
    "ffiBytesResult (fst (setOutBytes v l)) (snd (setOutBytes v l)) = (r, l\<lparr>cheap_next := n\<rparr>)" "cheap_next l \<le> n" by blast
  then show ?thesis by (simp add: tidy_def)
qed

text \<open>Go slices are shorter than \<open>2 ^ 63\<close> bytes; what is used of it for the values badger returns.\<close>

definition go_lengths :: "('d, 't, 'i) badger_ops \<Rightarrow> bool" where
  "go_lengths B \<longleftrightarrow>
     (\<forall>d t k v t'. bg_Get B d t k = (Inr (Inr v), t') \<longrightarrow> len v < 2 ^ 63) \<and>
     (\<forall>i. len (bgi_Key B i) < 2 ^ 63) \<and> (\<forall>i v. bgi_ValueCopy B i = Inr v \<longrightarrow> len v < 2 ^ 63)"

lemma normalize_len [simp]: "len (normalizeValue v) = len v"
  by (simp add: normalizeValue_def)

lemma err_of_simp: "snd (err_of r) = snd r"
  by (cases r) (auto simp: err_of_def split: sum.splits)

lemmas tidy_simps = tidy_def err_of_simp ffi_value_def call_simps with_cBytes_def Let_def

lemma discard_tidy: "tidy l (ffiTxnDiscard B h l)"
  by (auto simp: tidy_def ffiTxnDiscard_def badger_ffi_txn_discard_def split: option.splits prod.splits)

lemma db_calls_tidy:
  assumes "fresh l"
  shows "tidy l (snd (ffiDBClose B h l))" "tidy l (snd (ffiDBDropAll B h l))" "tidy l (snd (ffiDBNewTxn B h ro l))"
  using assms
  by (auto simp: ffiDBClose_def ffiDBDropAll_def ffiDBNewTxn_def badger_ffi_db_close_def badger_ffi_db_drop_all_def
      badger_ffi_db_new_txn_def tidy_simps split: option.splits prod.splits)

lemma db_open_tidy:
  assumes "fresh l"
  shows "tidy l (snd (ffi_call 0 (badger_ffi_db_open B dir vdir mem key ics vls True True l) ffi_value))"
  using assms by (auto simp: badger_ffi_db_open_def tidy_simps split: option.splits prod.splits sum.splits)

lemma fresh_malloc: "fresh l \<Longrightarrow> fresh (snd (malloc b l))"
  by (simp add: fresh_def malloc_def)

lemma open_tidy:
  assumes "fresh l"
  shows "tidy l (snd (ffiOpen B path opts l))"
proof -
  let ?l1 = "snd (malloc (CString path) l)"
  define l2 where "l2 = snd (ffi_call 0
      (badger_ffi_db_open B (Some path) (Some path) (ffiBool (fo_InMemory opts)) (ffiBytesArg (fo_EncryptionKey opts))
         (fo_IndexCacheSize opts) (fo_ValueLogFileSize opts) True True ?l1) ffi_value)"
  have "tidy ?l1 l2" unfolding l2_def by (rule db_open_tidy [OF fresh_malloc [OF assms]])
  moreover have "snd (ffiOpen B path opts l) = badger_ffi_free (Some (cheap_next l)) l2"
    by (simp add: ffiOpen_def split_def Let_def l2_def) (simp add: malloc_def)
  ultimately show ?thesis using assms by (simp add: tidy_def badger_ffi_free_def fresh_def malloc_def fun_upd_idem)
qed

lemma txn_calls_tidy:
  assumes "fresh l"
  shows "tidy l (snd (ffiTxnHas B h k l))" "tidy l (snd (ffiTxnSet B h k v l))" "tidy l (snd (ffiTxnDelete B h k l))"
    "tidy l (snd (ffiTxnCommit B h l))" "tidy l (snd (ffiTxnIterator B h opts l))"
  using assms
  by (auto simp: ffiTxnHas_def ffiTxnSet_def ffiTxnDelete_def ffiTxnCommit_def ffiTxnIterator_def badger_ffi_txn_has_def
      badger_ffi_txn_set_def badger_ffi_txn_delete_def badger_ffi_txn_commit_def badger_ffi_txn_iterator_def
      tidy_simps split: option.splits prod.splits sum.splits)

lemma iter_calls_tidy:
  assumes "fresh l"
  shows "tidy l (snd (ffiIterNext B h l))" "tidy l (snd (ffiIterSeek B h k l))" "tidy l (snd (ffiIterReset B h l))"
  using assms
  by (auto simp: ffiIterNext_def ffiIterSeek_def ffiIterReset_def badger_ffi_iter_next_def badger_ffi_iter_seek_def
      badger_ffi_iter_reset_def tidy_simps split: option.splits prod.splits sum.splits)

lemma call_bytes_tidy:
  assumes "fresh l" "len v < 2 ^ 63"
  shows "tidy l (snd (ffi_call (None, 0) (case setOutBytes v l of (out, l) \<Rightarrow> succeed out True l) ffiBytesResult))"
  using result_tidy [OF assms(1), of v] assms(2) by (simp add: split_def call_simps)

lemma get_tidy:
  assumes "fresh l" "go_lengths B"
  shows "tidy l (snd (ffiTxnGet B h k l))"
proof -
  have "tidy l (snd (ffi_call (None, 0) (case setOutBytes v (l\<lparr>txnHandles := t\<rparr>) of (out, l) \<Rightarrow> succeed out True l) ffiBytesResult))"
    if "len v < 2 ^ 63" for v t
    using call_bytes_tidy [of "l\<lparr>txnHandles := t\<rparr>" v] that assms(1) by (simp add: tidy_def)
  moreover have "len v < 2 ^ 63" if "ft_Get B txn db k = (Inr v, t)" for txn db k v t
    using that assms(2) by (auto simp: ft_Get_def go_lengths_def Let_def split: prod.splits sum.splits) blast
  ultimately show ?thesis
    using assms(1) by (auto simp: ffiTxnGet_def badger_ffi_txn_get_def with_cBytes_def call_fail call_invalid call_panic Let_def
        tidy_def split: option.split prod.split sum.split)
qed

lemma key_value_tidy:
  assumes "fresh l" "go_lengths B"
  shows "tidy l (snd (ffiIterKey B h l))" "tidy l (snd (ffiIterValue B h l))"
proof -
  note bytes = call_bytes_tidy [OF assms(1)]
  have "len (fi_Key B it) < 2 ^ 63" for it using assms(2) by (simp add: go_lengths_def fi_Key_def)
  then show "tidy l (snd (ffiIterKey B h l))"
    using assms(1) bytes by (auto simp: ffiIterKey_def badger_ffi_iter_key_def call_invalid tidy_def split: option.split)
  have "len v < 2 ^ 63" if "fi_Value B it = Inr v" for it v
    using that assms(2) by (auto simp: fi_Value_def go_lengths_def split: if_splits sum.splits)
  then show "tidy l (snd (ffiIterValue B h l))"
    using assms(1) bytes by (auto simp: ffiIterValue_def badger_ffi_iter_value_def call_invalid call_fail tidy_def split: option.split sum.split)
qed

lemma iter_close_tidy:
  assumes "fresh l"
  shows "tidy l (snd (ffiIterClose B h l))"
proof -
  have "snd (ffiCString (Some (fst (malloc b l))) (snd (malloc b l))) = l\<lparr>cheap_next := Suc (cheap_next l)\<rparr>" for b
    using malloc_free [OF assms, of b] by (simp add: ffiCString_def)
  then show ?thesis
    by (auto simp: ffiIterClose_def badger_ffi_iter_close_def fi_Close_def invalidHandle_def failStatus_def setError_def
        succeed_def clearError_def ffiStatusErr_def ffiCString_def split_def Let_def tidy_def split: option.split)
qed

end
