(* ===== verification/Ffi_Refine.thy ===== *)
theory Ffi_Refine
  imports Ffi_Calls
begin

text \<open>
  The store over the shared library answers as the store of \<^verbatim>\<open>badger/badger.go\<close> on the same
  badger: the simulation relation and its step for each method, with an implicit
  transaction.
\<close>

subsection \<open>The relation\<close>

text \<open>
  \<open>store_at s a db c M T l\<close>: the handle of \<open>s\<close> leads to the \<^verbatim>\<open>DB\<close> object at \<open>a\<close>, which holds \<open>db\<close> and the
  flag \<open>c\<close>; \<open>M\<close> is the next transaction handle and \<open>T\<close> the table of iterators.
\<close>

definition store_at ::
  "ffi_Datastore \<Rightarrow> nat \<Rightarrow> 'd \<Rightarrow> bool \<Rightarrow> u64 \<Rightarrow> 'i ffi_Iterator handleTable \<Rightarrow> ('d, 't, 'i) ffi_lib \<Rightarrow> bool" where
  "store_at s a db c M T l \<longleftrightarrow>
     \<not> fs_closed s \<and> fresh l \<and> ht_get (fs_handle s) (dbHandles l) = Some a \<and>
     objs l a = \<lparr>fdb_db = db, fdb_closed = c\<rparr> \<and> ht_next (txnHandles l) = M \<and> iterHandles l = T"

definition txn_at :: "u64 \<Rightarrow> 't \<Rightarrow> nat \<Rightarrow> ('d, 't, 'i) ffi_lib \<Rightarrow> bool" where
  "txn_at h t a l \<longleftrightarrow> ht_get h (txnHandles l) = Some \<lparr>ft_t = t, ft_db = a\<rparr>"

definition linked ::
  "nat \<Rightarrow> nat \<Rightarrow> 'i ffi_Iterator handleTable \<Rightarrow> ffi_Datastore \<Rightarrow> ('d, 't, 'i) ffi_lib \<Rightarrow> 'd badger_Datastore \<Rightarrow> bool" where
  "linked n a T s l d \<longleftrightarrow>
     (\<exists>M. store_at s a (bd_db d) (bd_closed d) M T l \<and> 0 < unat M \<and> unat M + n < 2 ^ 64)"

text \<open>An error of badger, as the two stores show it.\<close>

definition same_error :: "('d, 't, 'i) badger_ops \<Rightarrow> kverror \<Rightarrow> kverror \<Rightarrow> bool" where
  "same_error B x y \<longleftrightarrow> (\<exists>e. x = ffi_mapped B e \<and> (y = badger_mapped B e \<or> y = ErrForeign (bg_Error B e)))"

text \<open>
  What is used of badger: it does not tell an empty slice from nil, and its values are
  shorter than \<open>2 ^ 31\<close> bytes (a value log file holds less than 2GB).
\<close>

definition nil_as_empty :: "('d, 't, 'i) badger_ops \<Rightarrow> bool" where
  "nil_as_empty B \<longleftrightarrow>
     (\<forall>d t k. bg_Get B d t (normalizeValue k) = bg_Get B d t k) \<and>
     (\<forall>d t k v. bg_Set B d t (normalizeValue k) (normalizeValue v) = bg_Set B d t k v) \<and>
     (\<forall>d t k. bg_Delete B d t (normalizeValue k) = bg_Delete B d t k)"

definition short_values :: "('d, 't, 'i) badger_ops \<Rightarrow> bool" where
  "short_values B \<longleftrightarrow> (\<forall>d t k v t'. bg_Get B d t k = (Inr (Inr v), t') \<longrightarrow> len v < 2 ^ 31)"

subsection \<open>Calls on a transaction\<close>

lemma ht_put_simps [simp]: "ht_get h (ht_put h x t) = Some x" "ht_next (ht_put h x t) = ht_next t"
  "ht_next (ht_delete h t) = ht_next t"
  by (simp_all add: ht_get_def ht_put_def ht_delete_def)

lemma normalize_idem [simp]: "normalizeValue (normalizeValue v) = normalizeValue v"
  by (simp add: normalizeValue_def)

lemma store_at_more: "store_at s a db c M T l \<Longrightarrow> cheap_next l \<le> n \<Longrightarrow> store_at s a db c M T (l\<lparr>cheap_next := n\<rparr>)"
  by (simp add: store_at_def fresh_more)

lemma txn_at_upd [simp]:
  "txn_at h t a (l\<lparr>cheap_next := n\<rparr>) = txn_at h t a l" "txn_at h t a (l\<lparr>objs := x\<rparr>) = txn_at h t a l"
  "txn_at h t a (l\<lparr>txnHandles := ht_put h \<lparr>ft_t = t, ft_db = a\<rparr> X\<rparr>)"
  by (simp_all add: txn_at_def)

lemma store_at_txn [simp]:
  "store_at s a db c M T l \<Longrightarrow> ht_next X = M \<Longrightarrow> store_at s a db c M T (l\<lparr>txnHandles := X\<rparr>)"
  by (simp add: store_at_def)

lemma store_at_fresh: "store_at s a db c M T l \<Longrightarrow> fresh l"
  by (simp add: store_at_def)

lemma newTxn_step:
  assumes "store_at s a db c M T l" "bg_NewTransaction B db (\<not> ro) = (t, db')"
  shows "\<exists>l'. fs_newTxn B ro s l = (\<lparr>fx_handle = M, fx_initErr = None\<rparr>, l') \<and> store_at s a db' c (M + 1) T l' \<and> txn_at M t a l'"
  using assms
  by (cases ro) (simp_all add: fs_newTxn_def ffiDBNewTxn_def badger_ffi_db_new_txn_def fdb_NewTxn_def ht_add_def store_at_def
      ffiBool_def call_succeed ffi_value_def txn_at_def ht_get_def Let_def)

lemma discard_step:
  assumes "store_at s a db c M T l" "txn_at h t a l" "h \<noteq> 0" "bg_Discard B db t = (t', db')"
  shows "store_at s a db' c M T (snd (fx_Discard B \<lparr>fx_handle = h, fx_initErr = e\<rparr> l))"
  using assms
  by (simp add: fx_Discard_def ffiTxnDiscard_def badger_ffi_txn_discard_def ft_Discard_def store_at_def txn_at_def Let_def)

lemma has_step:
  assumes "store_at s a db c M T l" "txn_at h t a l" "len k < 2 ^ 31" "nil_as_empty B" "bg_Get B db t k = (r, t')"
  shows "\<exists>l'. ffiTxnHas B h k l =
      (case r of Inl e \<Rightarrow> if badger_Is e badger_ErrKeyNotFound then Inr False else Inl (ffi_mapped B e) | Inr _ \<Rightarrow> Inr True, l') \<and>
    store_at s a db c M T l' \<and> txn_at h t' a l'"
proof -
  let ?l = "l\<lparr>txnHandles := ht_put h \<lparr>ft_t = t', ft_db = a\<rparr> (txnHandles l)\<rparr>"
  from assms(1) have l: "store_at s a db c M T ?l" by (simp add: store_at_def)
  have "bg_Get B db t (normalizeValue k) = (r, t')" using assms(4,5) by (simp add: nil_as_empty_def)
  with assms(1-3) l show ?thesis
    by (auto simp: ffiTxnHas_def badger_ffi_txn_has_def txn_at_def store_at_def with_cBytes_def arg_small ft_Has_def Let_def
        call_succeed ffi_value_def call_fail fresh_more split: sum.split)
qed

lemma write_steps:
  assumes "store_at s a db c M T l" "txn_at h t a l" "len k < 2 ^ 31" "nil_as_empty B"
  shows "len v < 2 ^ 31 \<Longrightarrow> bg_Set B db t k v = (e, t') \<Longrightarrow>
      \<exists>l'. ffiTxnSet B h k v l = (map_option (ffi_mapped B) e, l') \<and> store_at s a db c M T l' \<and> txn_at h t' a l'"
    and "bg_Delete B db t k = (e, t') \<Longrightarrow>
      \<exists>l'. ffiTxnDelete B h k l = (map_option (ffi_mapped B) e, l') \<and> store_at s a db c M T l' \<and> txn_at h t' a l'"
proof -
  assume v: "len v < 2 ^ 31" and "bg_Set B db t k v = (e, t')"
  then have "bg_Set B db t (normalizeValue k) (normalizeValue v) = (e, t')" using assms(4) by (simp add: nil_as_empty_def)
  with assms(1-3) v show "\<exists>l'. ffiTxnSet B h k v l = (map_option (ffi_mapped B) e, l') \<and> store_at s a db c M T l' \<and> txn_at h t' a l'"
    by (cases e) (auto simp: ffiTxnSet_def badger_ffi_txn_set_def txn_at_def store_at_def with_cBytes_def arg_small ft_Set_def Let_def
        call_succeed ffi_value_def call_fail fresh_more err_of_def)
next
  assume "bg_Delete B db t k = (e, t')"
  then have "bg_Delete B db t (normalizeValue k) = (e, t')" using assms(4) by (simp add: nil_as_empty_def)
  with assms(1-3) show "\<exists>l'. ffiTxnDelete B h k l = (map_option (ffi_mapped B) e, l') \<and> store_at s a db c M T l' \<and> txn_at h t' a l'"
    by (cases e) (auto simp: ffiTxnDelete_def badger_ffi_txn_delete_def txn_at_def store_at_def with_cBytes_def arg_small ft_Delete_def Let_def
        call_succeed ffi_value_def call_fail fresh_more err_of_def)
qed

lemma commit_step:
  assumes "store_at s a db c M T l" "txn_at h t a l" "bg_Commit B db t = (e, t', db')"
  shows "\<exists>l'. ffiTxnCommit B h l = (map_option (ffi_mapped B) e, l') \<and> store_at s a db' c M T l' \<and> txn_at h t' a l'"
  using assms
  by (cases e) (auto simp: ffiTxnCommit_def badger_ffi_txn_commit_def txn_at_def store_at_def ft_Commit_def Let_def
        call_succeed ffi_value_def call_fail fresh_more err_of_def)

lemma get_step:
  assumes "store_at s a db c M T l" "txn_at h t a l" "len k < 2 ^ 31" "nil_as_empty B" "short_values B"
    and "bg_Get B db t k = (r, t')"
  shows "\<exists>l'. ffiTxnGet B h k l =
      (case r of Inl e \<Rightarrow> Inl (ffi_mapped B e) | Inr (Inl e) \<Rightarrow> Inl (ffi_mapped B e) | Inr (Inr v) \<Rightarrow> Inr (normalizeValue v), l') \<and>
    store_at s a db c M T l' \<and> txn_at h t' a l'"
proof -
  let ?l = "l\<lparr>txnHandles := ht_put h \<lparr>ft_t = t', ft_db = a\<rparr> (txnHandles l)\<rparr>"
  have n: "bg_Get B db t (normalizeValue k) = (r, t')" using assms(4,6) by (simp add: nil_as_empty_def)
  have l: "store_at s a db c M T ?l" "fresh ?l" using assms(1) by (simp_all add: store_at_def)
  note unfold = ffiTxnGet_def badger_ffi_txn_get_def with_cBytes_def arg_small ft_Get_def
  have get: "ffiTxnGet B h k l = ffi_call (None, 0)
      (case r of Inl e \<Rightarrow> fail B e True ?l | Inr (Inl e) \<Rightarrow> fail B e True ?l
       | Inr (Inr v) \<Rightarrow> case setOutBytes (normalizeValue v) ?l of (out, l) \<Rightarrow> succeed out True l) ffiBytesResult"
    using assms(1-3) n by (simp add: unfold Let_def txn_at_def store_at_def split: sum.split)
  show ?thesis
  proof (cases r)
    case (Inr item)
    show ?thesis
    proof (cases item)
      case (Inr v)
      then have "len v < 2 ^ 31" using assms(5,6) \<open>r = Inr item\<close> unfolding short_values_def by blast
      then obtain m where "ffiBytesResult (fst (setOutBytes (normalizeValue v) ?l)) (snd (setOutBytes (normalizeValue v) ?l)) =
          (Inr (normalizeValue v), ?l\<lparr>cheap_next := m\<rparr>)" "cheap_next ?l \<le> m"
        using result_freed [OF l(2), of "normalizeValue v"] by auto
      with get l Inr \<open>r = Inr item\<close> store_at_more [OF l(1), of m] show ?thesis by (simp add: split_def call_succeed)
    qed (use get l \<open>r = Inr item\<close> store_at_more [OF l(1)] in \<open>simp add: call_fail\<close>)
  qed (use get l store_at_more [OF l(1)] in \<open>simp add: call_fail\<close>)
qed

subsection \<open>Methods of the store\<close>

lemma linked_cases:
  assumes "linked (Suc n) a T s l d" "bg_NewTransaction B (bd_db d) (\<not> ro) = (t, db')"
  obtains M l' where "fs_newTxn B ro s l = (\<lparr>fx_handle = M, fx_initErr = None\<rparr>, l')"
    "store_at s a db' (bd_closed d) (M + 1) T l'" "txn_at M t a l'" "M \<noteq> 0" "0 < unat (M + 1)" "unat (M + 1) + n < 2 ^ 64"
proof -
  from assms(1) obtain M where l: "store_at s a (bd_db d) (bd_closed d) M T l" "0 < unat M" "unat M + Suc n < 2 ^ 64"
    by (auto simp: linked_def)
  then have "unat (M + 1) = unat M + 1" by (simp add: unat_word_ariths)
  moreover obtain l' where "fs_newTxn B ro s l = (\<lparr>fx_handle = M, fx_initErr = None\<rparr>, l')"
      "store_at s a db' (bd_closed d) (M + 1) T l'" "txn_at M t a l'"
    using newTxn_step [OF l(1) assms(2)] by blast
  ultimately show thesis using l(2,3) by (intro that [of M l']) auto
qed

lemma linkedI:
  "store_at s a db (bd_closed d) M T l \<Longrightarrow> 0 < unat M \<Longrightarrow> unat M + n < 2 ^ 64 \<Longrightarrow> linked n a T s l (d\<lparr>bd_db := db\<rparr>)"
  by (auto simp: linked_def)

lemma get_linked:
  assumes "linked (Suc n) a T s l d" "len k < 2 ^ 31" "nil_as_empty B" "short_values B"
  shows "\<exists>r l' r' d'. fs_Get B None s k l = (r, l') \<and> bd_Get B None d k = (r', None, d') \<and> linked n a T s l' d' \<and>
    rel_sum (same_error B) (\<lambda>v v'. v = normalizeValue v') r r'"
proof -
  obtain t db where t: "bg_NewTransaction B (bd_db d) (\<not> True) = (t, db)" by fastforce
  obtain q t' where q: "bg_Get B db t k = (q, t')" by fastforce
  obtain t2 db2 where x: "bg_Discard B db t' = (t2, db2)" by fastforce
  from linked_cases [OF assms(1) t] obtain M l1 where l1: "fs_newTxn B True s l = (\<lparr>fx_handle = M, fx_initErr = None\<rparr>, l1)"
    "store_at s a db (bd_closed d) (M + 1) T l1" "txn_at M t a l1" "M \<noteq> 0" "0 < unat (M + 1)" "unat (M + 1) + n < 2 ^ 64" .
  from get_step [OF l1(2,3) assms(2-4) q] obtain l2 where l2: "ffiTxnGet B M k l1 =
      (case q of Inl e \<Rightarrow> Inl (ffi_mapped B e) | Inr (Inl e) \<Rightarrow> Inl (ffi_mapped B e) | Inr (Inr v) \<Rightarrow> Inr (normalizeValue v), l2)"
    "store_at s a db (bd_closed d) (M + 1) T l2" "txn_at M t' a l2" by blast
  note l3 = linkedI [OF discard_step [OF l2(2,3) l1(4) x] l1(5,6)]
  from l1 l2 l3 t q x show ?thesis
    by (auto simp: fs_Get_def fx_Get_def bd_Get_def bd_newTxn_def bt_Get_def bt_Discard_def split_def same_error_def
        split: sum.splits)
qed

lemma has_linked:
  assumes "linked (Suc n) a T s l d" "len k < 2 ^ 31" "nil_as_empty B"
  shows "\<exists>r l' r' d'. fs_Has B None s k l = (r, l') \<and> bd_Has B None d k = (r', None, d') \<and> linked n a T s l' d' \<and>
    rel_sum (same_error B) (=) r r'"
proof -
  obtain t db where t: "bg_NewTransaction B (bd_db d) (\<not> True) = (t, db)" by fastforce
  obtain q t' where q: "bg_Get B db t k = (q, t')" by fastforce
  obtain t2 db2 where x: "bg_Discard B db t' = (t2, db2)" by fastforce
  from linked_cases [OF assms(1) t] obtain M l1 where l1: "fs_newTxn B True s l = (\<lparr>fx_handle = M, fx_initErr = None\<rparr>, l1)"
    "store_at s a db (bd_closed d) (M + 1) T l1" "txn_at M t a l1" "M \<noteq> 0" "0 < unat (M + 1)" "unat (M + 1) + n < 2 ^ 64" .
  from has_step [OF l1(2,3) assms(2,3) q] obtain l2 where l2: "ffiTxnHas B M k l1 =
      (case q of Inl e \<Rightarrow> if badger_Is e badger_ErrKeyNotFound then Inr False else Inl (ffi_mapped B e) | Inr _ \<Rightarrow> Inr True, l2)"
    "store_at s a db (bd_closed d) (M + 1) T l2" "txn_at M t' a l2" by blast
  note l3 = linkedI [OF discard_step [OF l2(2,3) l1(4) x] l1(5,6)]
  from l1 l2 l3 t q x show ?thesis
    by (auto simp: fs_Has_def fx_Has_def bd_Has_def bd_newTxn_def bt_Has_def bt_Discard_def split_def same_error_def
        split: sum.splits)
qed

text \<open>
  \<^verbatim>\<open>Set\<close> and \<^verbatim>\<open>Delete\<close> have the same shape: a write on a new transaction, then the commit, and the
  discard in any case.
\<close>

lemma write_linked:
  assumes "linked (Suc n) a T s l d"
    and step: "\<And>a db c M t l e t'. store_at s a db c (M + 1) T l \<Longrightarrow> txn_at M t a l \<Longrightarrow> w db t = (e, t') \<Longrightarrow>
      \<exists>l'. put M l = (map_option (ffi_mapped B) e, l') \<and> store_at s a db c (M + 1) T l' \<and> txn_at M t' a l'"
  shows "\<exists>e l' e' d'.
    (let (txn, l) = fs_newTxn B False s l;
         (e, l) = (case fx_initErr txn of Some e \<Rightarrow> (Some e, l) | None \<Rightarrow> put (fx_handle txn) l)
     in if e \<noteq> None then let (_, l) = fx_Discard B txn l in (e, l)
        else let (e, l) = fx_Commit B txn l; (_, l) = fx_Discard B txn l in (e, l)) = (e, l') \<and>
    (let (txn, d) = bd_newTxn B False d;
         (e, txn) = (let (e, txn) = w (bd_db d) txn in (badgerErrToKVErr B e, txn))
     in if e \<noteq> None then let (_, d) = bt_Discard B txn d in (e, None, d)
        else let (e, txn, d) = bt_Commit B txn d; (_, d) = bt_Discard B txn d in (e, None, d)) = (e', None :: 't option, d') \<and>
    linked n a T s l' d' \<and> rel_option (same_error B) e e'"
proof -
  obtain t db where t: "bg_NewTransaction B (bd_db d) (\<not> False) = (t, db)" by fastforce
  obtain q t' where q: "w db t = (q, t')" by fastforce
  from linked_cases [OF assms(1) t] obtain M l1 where l1: "fs_newTxn B False s l = (\<lparr>fx_handle = M, fx_initErr = None\<rparr>, l1)"
    "store_at s a db (bd_closed d) (M + 1) T l1" "txn_at M t a l1" "M \<noteq> 0" "0 < unat (M + 1)" "unat (M + 1) + n < 2 ^ 64" .
  from step [OF l1(2,3) q] obtain l2 where l2: "put M l1 = (map_option (ffi_mapped B) q, l2)"
    "store_at s a db (bd_closed d) (M + 1) T l2" "txn_at M t' a l2" by blast
  show ?thesis
  proof (cases q)
    case (Some e)
    obtain t2 db2 where x: "bg_Discard B db t' = (t2, db2)" by fastforce
    from Some l1 l2 t q x linkedI [OF discard_step [OF l2(2,3) l1(4) x] l1(5,6)] show ?thesis
      by (auto simp: bd_newTxn_def bt_Discard_def badgerErrToKVErr_def split_def same_error_def)
  next
    case None
    obtain q2 t2 db2 where c: "bg_Commit B db t' = (q2, t2, db2)" by (metis surj_pair)
    obtain t3 db3 where x: "bg_Discard B db2 t2 = (t3, db3)" by fastforce
    from commit_step [OF l2(2,3) c] obtain l3 where l3: "ffiTxnCommit B M l2 = (map_option (ffi_mapped B) q2, l3)"
      "store_at s a db2 (bd_closed d) (M + 1) T l3" "txn_at M t2 a l3" by blast
    from None l1 l2 l3 t q c x linkedI [OF discard_step [OF l3(2,3) l1(4) x] l1(5,6)] show ?thesis
      by (cases q2) (auto simp: bd_newTxn_def bt_Discard_def bt_Commit_def fx_Commit_def badgerErrToKVErr_def split_def same_error_def)
  qed
qed

lemma set_linked:
  assumes "linked (Suc n) a T s l d" "len k < 2 ^ 31" "len v < 2 ^ 31" "nil_as_empty B"
  shows "\<exists>e l' e' d'. fs_Set B None s k v l = (e, l') \<and> bd_Set B None d k v = (e', None, d') \<and> linked n a T s l' d' \<and>
    rel_option (same_error B) e e'"
  unfolding fs_Set_def bd_Set_def fx_Set_def bt_Set_def option.case
  by (rule write_linked [OF assms(1)]) (rule write_steps(1) [OF _ _ assms(2,4,3)])

lemma delete_linked:
  assumes "linked (Suc n) a T s l d" "len k < 2 ^ 31" "nil_as_empty B"
  shows "\<exists>e l' e' d'. fs_Delete B None s k l = (e, l') \<and> bd_Delete B None d k = (e', None, d') \<and> linked n a T s l' d' \<and>
    rel_option (same_error B) e e'"
  unfolding fs_Delete_def bd_Delete_def fx_Delete_def bt_Delete_def option.case
  by (rule write_linked [OF assms(1)]) (rule write_steps(2) [OF _ _ assms(2,3)])

end
