(* ===== verification/Ffi_Session.thy ===== *)
theory Ffi_Session
  imports Ffi_Refine
begin

text \<open>
  Sessions: sequences of calls on a store and on the iterator it last returned, run through
  the shared library and on the store of \<^verbatim>\<open>badger/badger.go\<close>.
\<close>

subsection \<open>Iterators\<close>

definition plain_bounds :: "IterOptions \<Rightarrow> bool" where
  "plain_bounds opts \<longleftrightarrow>
     (normalizeValue (Prefix opts), normalizeValue (Start opts), normalizeValue (End opts)) = (Prefix opts, Start opts, End opts) \<and>
     len (Prefix opts) < 2 ^ 31 \<and> len (Start opts) < 2 ^ 31 \<and> len (End opts) < 2 ^ 31"

definition nil_as_empty_seek :: "('d, 't, 'i) badger_ops \<Rightarrow> bool" where
  "nil_as_empty_seek B \<longleftrightarrow> (\<forall>i k. bgi_Seek B i (normalizeValue k) = bgi_Seek B i k)"

definition short_entries :: "('d, 't, 'i) badger_ops \<Rightarrow> bool" where
  "short_entries B \<longleftrightarrow> (\<forall>i. len (bgi_Key B i) < 2 ^ 31) \<and> (\<forall>i v. bgi_ValueCopy B i = Inr v \<longrightarrow> len v < 2 ^ 31)"

text \<open>The iterator behind a handle and the iterator of \<^verbatim>\<open>badger/iter.go\<close> it stands for.\<close>

definition iter_at :: "nat \<Rightarrow> 'i ffi_Iterator handleTable \<Rightarrow> ffi_iterator \<Rightarrow> ('t, 'i) badger_iterator \<Rightarrow> bool" where
  "iter_at a T o' b \<longleftrightarrow>
     (\<exists>it c. ht_get (fo_handle o') T = Some it \<and> fi_db it = a \<and> b = badger_of c it)"

lemma iter_at_put: "fi_db it = a \<Longrightarrow> iter_at a (ht_put (fo_handle o') it T) o' (badger_of c it)"
  by (auto simp: iter_at_def)

lemma fi_db_kept [simp]:
  "fi_db (snd (fi_advance B it)) = fi_db it" "fi_db (snd (fi_seek B k it)) = fi_db it" "fi_db (snd (fi_next B it)) = fi_db it"
proof -
  show advance: "fi_db (snd (fi_advance B it)) = fi_db it" for it by (simp add: fi_advance_def Let_def)
  show seek: "fi_db (snd (fi_seek B k it)) = fi_db it" for k it by (simp add: fi_seek_def Let_def advance)
  show "fi_db (snd (fi_next B it)) = fi_db it" by (simp add: fi_next_def fi_restart_def Let_def advance seek)
qed

lemma new_iterators:
  "badger_newPrefixIterator B t d p r k =
   badger_of None (ffi_newPrefixIterator B \<lparr>ft_t = t, ft_db = a\<rparr> \<lparr>fdb_db = bd_db d, fdb_closed = c\<rparr> p r k)"
  "badger_newRangeIterator B t d s e r k =
   badger_of None (ffi_newRangeIterator B \<lparr>ft_t = t, ft_db = a\<rparr> \<lparr>fdb_db = bd_db d, fdb_closed = c\<rparr> s e r k)"
  by (simp_all add: badger_newPrefixIterator_def badger_newRangeIterator_def ffi_newPrefixIterator_def
      ffi_newRangeIterator_def badger_of_def ffi_bytesPrefixEnd_eq)

lemma new_iterator_db [simp]: "fi_db (ffi_newPrefixIterator B t d p r k) = ft_db t" "fi_db (ffi_newRangeIterator B t d s e r k) = ft_db t"
  by (simp_all add: ffi_newPrefixIterator_def ffi_newRangeIterator_def)

lemma ffi_mapped_closed [simp]: "ffi_mapped B badger_ErrDBClosed = ErrDBClosed"
  by (simp add: ffi_mapped_def StatusFromError_def)

lemma txnIterator_step:
  assumes "store_at s a (bd_db d) (bd_closed d) M T l" "txn_at h t a l" "plain_bounds opts"
  shows "\<exists>l' T' r. ffiTxnIterator B h opts l = (r, l') \<and> store_at s a (bd_db d) (bd_closed d) M T' l' \<and>
    (case (r, bt_iterator B t d opts) of
       (Inl e, Inl e') \<Rightarrow> same_error B e e'
     | (Inr h', Inr b) \<Rightarrow> iter_at a T' \<lparr>fo_handle = h', fo_closer = c\<rparr> (b\<lparr>bi_closer := c'\<rparr>)
     | _ \<Rightarrow> False)"
proof -
  let ?txn = "\<lparr>ft_t = t, ft_db = a\<rparr>" and ?db = "\<lparr>fdb_db = bd_db d, fdb_closed = bd_closed d\<rparr>"
  let ?o = "\<lparr>io_Prefix = Prefix opts, io_Start = Start opts, io_End = End opts, io_Reverse = Reverse opts, io_KeysOnly = KeysOnly opts\<rparr>"
  have call: "ffiTxnIterator B h opts l = ffi_call 0 (case ft_Iterator B ?txn ?db ?o of
        Inl e \<Rightarrow> fail B e True l
      | Inr iter \<Rightarrow> (let (h, t) = ht_add iter (iterHandles l) in succeed h True (l\<lparr>iterHandles := t\<rparr>))) ffi_value"
    using assms by (simp add: ffiTxnIterator_def badger_ffi_txn_iterator_def txn_at_def store_at_def plain_bounds_def
        with_cBytes_def arg_small ffiBool_def)
  show ?thesis
  proof (cases "bd_closed d")
    case True
    have "same_error B ErrDBClosed ErrDBClosed" unfolding same_error_def by (intro exI [of _ badger_ErrDBClosed]) simp
    with True call store_at_more [OF assms(1), of "Suc (cheap_next l)"] show ?thesis
      by (auto simp: ft_Iterator_def bt_iterator_def call_fail [OF store_at_fresh [OF assms(1)]])
  next
    case False
    obtain it b where it: "ft_Iterator B ?txn ?db ?o = Inr it" "bt_iterator B t d opts = Inr b" "b = badger_of None it" "fi_db it = a"
      using False new_iterators [where B = B and t = t and d = d and a = a and c = "bd_closed d"]
      by (cases "Prefix opts") (auto simp: ft_Iterator_def bt_iterator_def)
    obtain h' T' where T': "ht_add it (iterHandles l) = (h', T')" "ht_get h' T' = Some it"
      by (simp add: ht_add_def ht_get_def Let_def)
    have "store_at s a (bd_db d) (bd_closed d) M T' (l\<lparr>iterHandles := T'\<rparr>)" using assms(1) by (simp add: store_at_def)
    moreover have "iter_at a T' \<lparr>fo_handle = h', fo_closer = c\<rparr> (b\<lparr>bi_closer := c'\<rparr>)"
      using it(3,4) T'(2) by (simp add: iter_at_def badger_of_def)
    ultimately show ?thesis using call it T' by (auto simp: call_succeed ffi_value_def)
  qed
qed

lemma iterator_linked:
  assumes "linked (Suc n) a T s l d" "plain_bounds opts"
  shows "\<exists>r l' r' d' T'. fs_Iterator B None s opts l = (r, l') \<and> bd_Iterator B None d opts = (r', d') \<and> linked n a T' s l' d' \<and>
    (case (r, r') of
       (Inl e, Inl e') \<Rightarrow> same_error B e e'
     | (Inr o', Inr b) \<Rightarrow> iter_at a T' o' b
     | _ \<Rightarrow> False)"
proof -
  obtain t db where t: "bg_NewTransaction B (bd_db d) (\<not> True) = (t, db)" by fastforce
  from linked_cases [OF assms(1) t] obtain M l1 where l1: "fs_newTxn B True s l = (\<lparr>fx_handle = M, fx_initErr = None\<rparr>, l1)"
    "store_at s a db (bd_closed d) (M + 1) T l1" "txn_at M t a l1" "M \<noteq> 0" "0 < unat (M + 1)" "unat (M + 1) + n < 2 ^ 64" .
  let ?d = "d\<lparr>bd_db := db\<rparr>" and ?txn = "\<lparr>fx_handle = M, fx_initErr = None\<rparr>"
  from txnIterator_step [of s a ?d "M + 1" T l1 M t opts B "Some ?txn" "Some t"] l1(2,3) assms(2) obtain l2 T' r where
    r: "ffiTxnIterator B M opts l1 = (r, l2)" "store_at s a db (bd_closed d) (M + 1) T' l2"
    "case (r, bt_iterator B t ?d opts) of (Inl e, Inl e') \<Rightarrow> same_error B e e'
       | (Inr h', Inr b) \<Rightarrow> iter_at a T' \<lparr>fo_handle = h', fo_closer = Some ?txn\<rparr> (b\<lparr>bi_closer := Some t\<rparr>) | _ \<Rightarrow> False"
    by auto
  from l1(1) r(1,3) t linkedI [OF r(2) l1(5,6)] show ?thesis
    by (auto simp: fs_Iterator_def fx_iterator_def bd_Iterator_def bd_newTxn_def split: sum.splits)
qed

lemma linked_more: "linked n a T s l d \<Longrightarrow> cheap_next l \<le> m \<Longrightarrow> linked n a T s (l\<lparr>cheap_next := m\<rparr>) d"
  by (auto simp: linked_def store_at_def fresh_more)

lemma linked_iters: "linked n a T s l d \<Longrightarrow> linked n a T' s (l\<lparr>iterHandles := T'\<rparr>) d"
  by (simp add: linked_def store_at_def)

lemma linked_parts:
  assumes "linked n a T s l d"
  shows "fresh l" "objs l a = \<lparr>fdb_db = bd_db d, fdb_closed = bd_closed d\<rparr>" "iterHandles l = T"
  using assms by (auto simp: linked_def store_at_def)

text \<open>
  \<open>moved\<close>: \<^verbatim>\<open>Next\<close> and \<^verbatim>\<open>Seek\<close> on the two sides, told apart by the move they make.
\<close>

lemma move_linked:
  assumes "linked n a T s l d" "ht_get h T = Some it" "fi_db it = a"
    and step: "f it = (has, it')" "fi_db it' = a"
  shows "\<exists>l' T'.
    ffi_call 0
      (let (r, iter') = (if fdb_closed (objs l (fi_db it)) then (Inl badger_ErrDBClosed, it) else let (has, it) = f it in (Inr has, it));
           l = l\<lparr>iterHandles := ht_put h iter' (iterHandles l)\<rparr>
       in case r of Inl e \<Rightarrow> fail B e True l | Inr has \<Rightarrow> succeed (if has then 1 else 0 :: byte) True l)
      (\<lambda>has. ffi_value (has \<noteq> 0)) = (if bd_closed d then Inl ErrDBClosed else Inr has, l') \<and>
    linked n a T' s l' d \<and> ht_get h T' = Some (if bd_closed d then it else it')"
proof (cases "bd_closed d")
  case True
  let ?T = "ht_put h it T"
  have "linked n a ?T s (l\<lparr>iterHandles := ?T, cheap_next := Suc (cheap_next l)\<rparr>) d"
    using linked_more [OF linked_iters [OF assms(1)]] by simp
  with True assms(3) linked_parts [OF assms(1)] show ?thesis
    by (auto simp: call_fail)
next
  case False
  with linked_iters [OF assms(1), of "ht_put h it' T"] assms(3) step linked_parts [OF assms(1)] show ?thesis
    by (auto simp: call_succeed ffi_value_def)
qed

lemma next_linked:
  assumes "linked n a T s l d" "iter_at a T o' b"
  shows "\<exists>l' T'. fo_Next B o' l = (fst (badger_Next B d b), l') \<and> linked n a T' s l' d \<and> iter_at a T' o' (snd (badger_Next B d b))"
proof -
  from assms(2) obtain it c where it: "ht_get (fo_handle o') T = Some it" "fi_db it = a" "b = badger_of c it"
    by (auto simp: iter_at_def)
  obtain has it' where m: "fi_next B it = (has, it')" by fastforce
  then have db: "fi_db it' = a" using fi_db_kept(3) [of B it] it(2) by simp
  have b: "bi_next B b = (Inr has, badger_of c it')" using fi_next_badger [of B c it] it(3) m by simp
  from move_linked [where f = "fi_next B", OF assms(1) it(1,2) m db, of B] obtain l' T' where
    "fo_Next B o' l = (if bd_closed d then Inl ErrDBClosed else Inr has, l')" "linked n a T' s l' d"
      "ht_get (fo_handle o') T' = Some (if bd_closed d then it else it')"
    using it(1) linked_parts(3) [OF assms(1)]
    by (auto simp: fo_Next_def ffiIterNext_def badger_ffi_iter_next_def fi_Next_def)
  moreover from this it db b have "iter_at a T' o' (snd (badger_Next B d b))" by (auto simp: badger_Next_def iter_at_def)
  ultimately show ?thesis using b by (intro exI [of _ l'] exI [of _ T']) (simp add: badger_Next_def)
qed

lemma seek_normalized:
  assumes "nil_as_empty_seek B"
  shows "fi_Seek B db (normalizeValue k) it = fi_Seek B db k it"
proof -
  have "contents (normalizeValue k) = contents k" by (cases k) (auto simp: normalizeValue_def len_def)
  with assms have "fi_seek B (normalizeValue k) it = fi_seek B k it" by (simp add: fi_seek_def Let_def nil_as_empty_seek_def)
  then show ?thesis by (simp add: fi_Seek_def)
qed

lemma seek_linked:
  assumes "linked n a T s l d" "iter_at a T o' b" "len k < 2 ^ 31" "nil_as_empty_seek B"
  shows "\<exists>l' T'. fo_Seek B o' k l = (fst (badger_Seek B d k b), l') \<and> linked n a T' s l' d \<and> iter_at a T' o' (snd (badger_Seek B d k b))"
proof -
  from assms(2) obtain it c where it: "ht_get (fo_handle o') T = Some it" "fi_db it = a" "b = badger_of c it"
    by (auto simp: iter_at_def)
  obtain has it' where m: "fi_seek B k it = (has, it')" by fastforce
  then have db: "fi_db it' = a" using fi_db_kept(2) [of B k it] it(2) by simp
  have b: "bi_seek B k b = (Inr has, badger_of c it')" using fi_seek_badger [of B k c it] it(3) m by simp
  from move_linked [where f = "fi_seek B k", OF assms(1) it(1,2) m db, of B] obtain l' T' where
    l': "fo_Seek B o' k l = (if bd_closed d then Inl ErrDBClosed else Inr has, l')" "linked n a T' s l' d"
      "ht_get (fo_handle o') T' = Some (if bd_closed d then it else it')"
    using it(1) linked_parts(3) [OF assms(1)]
    by (simp add: fo_Seek_def ffiIterSeek_def badger_ffi_iter_seek_def with_cBytes_def arg_small [OF assms(3)]
        seek_normalized [OF assms(4)]) (auto simp: fi_Seek_def)
  moreover from this it db b have "iter_at a T' o' (snd (badger_Seek B d k b))" by (auto simp: badger_Seek_def iter_at_def)
  ultimately show ?thesis using b by (intro exI [of _ l'] exI [of _ T']) (simp add: badger_Seek_def)
qed

lemma reset_linked:
  assumes "linked n a T s l d" "iter_at a T o' b"
  shows "\<exists>l' T'. fo_Reset B o' l = (Inr (), l') \<and> linked n a T' s l' d \<and> iter_at a T' o' (bi_Reset b)"
proof -
  from assms(2) obtain it c where it: "ht_get (fo_handle o') T = Some it" "fi_db it = a" "b = badger_of c it"
    by (auto simp: iter_at_def)
  let ?T = "ht_put (fo_handle o') (fi_Reset it) T"
  have "iter_at a ?T o' (bi_Reset b)"
    using it(2,3) by (auto simp: iter_at_def fi_Reset_def bi_Reset_def)
  with it(1) linked_iters [OF assms(1), of ?T] linked_parts [OF assms(1)] show ?thesis
    by (auto simp: fo_Reset_def ffiIterReset_def badger_ffi_iter_reset_def call_succeed ffi_value_def err_of_def)
qed

lemma key_linked:
  assumes "linked n a T s l d" "iter_at a T o' b" "short_entries B"
  shows "\<exists>l'. fo_Key B o' l = (Inr (normalizeValue (badger_Key B b)), l') \<and> linked n a T s l' d \<and> iter_at a T o' b"
proof -
  from assms(2) obtain it c where it: "ht_get (fo_handle o') T = Some it" "b = badger_of c it"
    by (auto simp: iter_at_def)
  have key: "badger_Key B b = fi_Key B it" "len (fi_Key B it) < 2 ^ 31"
    using assms(3) it(2) by (simp_all add: badger_Key_def fi_Key_def short_entries_def)
  from result_freed [OF linked_parts(1) [OF assms(1)], of "fi_Key B it"] key(2) obtain m where
    "ffiBytesResult (fst (setOutBytes (fi_Key B it) l)) (snd (setOutBytes (fi_Key B it) l)) = (Inr (normalizeValue (fi_Key B it)), l\<lparr>cheap_next := m\<rparr>)"
    "cheap_next l \<le> m" by auto
  with assms(2) it(1) key(1) linked_more [OF assms(1), of m] linked_parts [OF assms(1)] show ?thesis
    by (simp add: fo_Key_def ffiIterKey_def badger_ffi_iter_key_def split_def Let_def call_succeed)
qed

lemma value_linked:
  assumes "linked n a T s l d" "iter_at a T o' b" "short_entries B"
  shows "\<exists>r l'. fo_Value B o' l = (r, l') \<and> linked n a T s l' d \<and> iter_at a T o' b \<and>
    rel_sum (same_error B) (\<lambda>v v'. v = normalizeValue v') r (badger_Value B b)"
proof -
  from assms(2) obtain it c where it: "ht_get (fo_handle o') T = Some it" "b = badger_of c it"
    by (auto simp: iter_at_def)
  note parts = linked_parts [OF assms(1)]
  show ?thesis
  proof (cases "fi_Value B it")
    case (Inl e)
    then have "badger_Value B b = Inl (ErrForeign (bg_Error B e))"
      using it(2) by (auto simp: fi_Value_def badger_Value_def split: if_splits sum.splits)
    with assms(2) Inl it(1) linked_more [OF assms(1)] parts show ?thesis
      by (auto simp: fo_Value_def ffiIterValue_def badger_ffi_iter_value_def call_fail same_error_def)
  next
    case (Inr v)
    then obtain v' where v': "badger_Value B b = Inr v'" "v = normalizeValue v'" "len v' < 2 ^ 31"
      using assms(3) it(2) by (auto simp: fi_Value_def badger_Value_def short_entries_def normalizeValue_def split: if_splits sum.splits)
    from result_freed [OF parts(1), of v] v'(2,3) obtain m where
      "ffiBytesResult (fst (setOutBytes v l)) (snd (setOutBytes v l)) = (Inr v, l\<lparr>cheap_next := m\<rparr>)" "cheap_next l \<le> m" by auto
    with assms(2) Inr it(1) v' linked_more [OF assms(1), of m] parts show ?thesis
      by (simp add: fo_Value_def ffiIterValue_def badger_ffi_iter_value_def split_def Let_def call_succeed)
  qed
qed

subsection \<open>Sessions\<close>

datatype session_call =
    CallGet slice
  | CallHas slice
  | CallSet slice slice
  | CallDelete slice
  | CallDropAll
  | CallIterator IterOptions
  | CallNext
  | CallKey
  | CallValue
  | CallSeek slice
  | CallReset

text \<open>
  The answers.  The error of \<^verbatim>\<open>DropAll\<close> is the one error the store of \<^verbatim>\<open>badger/badger.go\<close> passes on as
  it is.  Without an iterator there is nothing to call a method of.
\<close>

datatype answer = Value "slice res" | Bool "bool res" | Unit "unit res" | Nothing

definition of_err :: "err \<Rightarrow> unit res" where
  "of_err e = (case e of None \<Rightarrow> Inr () | Some e \<Rightarrow> Inl e)"

fun ffi_run ::
  "('d, 't, 'i) badger_ops \<Rightarrow> session_call \<Rightarrow> ffi_Datastore \<Rightarrow> ffi_iterator option \<times> ('d, 't, 'i) ffi_lib \<Rightarrow>
   answer \<times> ffi_iterator option \<times> ('d, 't, 'i) ffi_lib" where
  "ffi_run B (CallGet k) s (it, l) = (case fs_Get B None s k l of (r, l) \<Rightarrow> (Value r, it, l))"
| "ffi_run B (CallHas k) s (it, l) = (case fs_Has B None s k l of (r, l) \<Rightarrow> (Bool r, it, l))"
| "ffi_run B (CallSet k v) s (it, l) = (case fs_Set B None s k v l of (e, l) \<Rightarrow> (Unit (of_err e), it, l))"
| "ffi_run B (CallDelete k) s (it, l) = (case fs_Delete B None s k l of (e, l) \<Rightarrow> (Unit (of_err e), it, l))"
| "ffi_run B CallDropAll s (it, l) = (case fs_DropAll B s l of (e, l) \<Rightarrow> (Unit (of_err e), it, l))"
| "ffi_run B (CallIterator opts) s (it, l) =
     (case fs_Iterator B None s opts l of (Inl e, l) \<Rightarrow> (Unit (Inl e), None, l) | (Inr it, l) \<Rightarrow> (Unit (Inr ()), Some it, l))"
| "ffi_run B CallNext s (Some it, l) = (case fo_Next B it l of (r, l) \<Rightarrow> (Bool r, Some it, l))"
| "ffi_run B CallKey s (Some it, l) = (case fo_Key B it l of (r, l) \<Rightarrow> (Value r, Some it, l))"
| "ffi_run B CallValue s (Some it, l) = (case fo_Value B it l of (r, l) \<Rightarrow> (Value r, Some it, l))"
| "ffi_run B (CallSeek k) s (Some it, l) = (case fo_Seek B it k l of (r, l) \<Rightarrow> (Bool r, Some it, l))"
| "ffi_run B CallReset s (Some it, l) = (case fo_Reset B it l of (r, l) \<Rightarrow> (Unit r, Some it, l))"
| "ffi_run B _ s (None, l) = (Nothing, None, l)"

fun badger_run ::
  "('d, 't, 'i) badger_ops \<Rightarrow> session_call \<Rightarrow> ('t, 'i) badger_iterator option \<times> 'd badger_Datastore \<Rightarrow>
   answer \<times> ('t, 'i) badger_iterator option \<times> 'd badger_Datastore" where
  "badger_run B (CallGet k) (it, d) = (case bd_Get B None d k of (r, _, d) \<Rightarrow> (Value r, it, d))"
| "badger_run B (CallHas k) (it, d) = (case bd_Has B None d k of (r, _, d) \<Rightarrow> (Bool r, it, d))"
| "badger_run B (CallSet k v) (it, d) = (case bd_Set B None d k v of (e, _, d) \<Rightarrow> (Unit (of_err e), it, d))"
| "badger_run B (CallDelete k) (it, d) = (case bd_Delete B None d k of (e, _, d) \<Rightarrow> (Unit (of_err e), it, d))"
| "badger_run B CallDropAll (it, d) =
     (case bd_DropAll B d of (e, d) \<Rightarrow> (Unit (of_err (map_option (\<lambda>e. ErrForeign (bg_Error B e)) e)), it, d))"
| "badger_run B (CallIterator opts) (it, d) =
     (case bd_Iterator B None d opts of (Inl e, d) \<Rightarrow> (Unit (Inl e), None, d) | (Inr it, d) \<Rightarrow> (Unit (Inr ()), Some it, d))"
| "badger_run B CallNext (Some it, d) = (case badger_Next B d it of (r, it) \<Rightarrow> (Bool r, Some it, d))"
| "badger_run B CallKey (Some it, d) = (Value (Inr (badger_Key B it)), Some it, d)"
| "badger_run B CallValue (Some it, d) = (Value (badger_Value B it), Some it, d)"
| "badger_run B (CallSeek k) (Some it, d) = (case badger_Seek B d k it of (r, it) \<Rightarrow> (Bool r, Some it, d))"
| "badger_run B CallReset (Some it, d) = (Unit (Inr ()), Some (bi_Reset it), d)"
| "badger_run B _ (None, d) = (Nothing, None, d)"

fun ffi_session ::
  "('d, 't, 'i) badger_ops \<Rightarrow> session_call list \<Rightarrow> ffi_Datastore \<Rightarrow> ffi_iterator option \<times> ('d, 't, 'i) ffi_lib \<Rightarrow> answer list" where
  "ffi_session B [] s st = []"
| "ffi_session B (c # cs) s st = (case ffi_run B c s st of (x, st) \<Rightarrow> x # ffi_session B cs s st)"

fun badger_session ::
  "('d, 't, 'i) badger_ops \<Rightarrow> session_call list \<Rightarrow> ('t, 'i) badger_iterator option \<times> 'd badger_Datastore \<Rightarrow> answer list" where
  "badger_session B [] st = []"
| "badger_session B (c # cs) st = (case badger_run B c st of (x, st) \<Rightarrow> x # badger_session B cs st)"

text \<open>
  The same answer: the same result, an empty byte string being nil across the interface, or
  an error that stands for the same error of badger.
\<close>

fun same_answer :: "('d, 't, 'i) badger_ops \<Rightarrow> answer \<Rightarrow> answer \<Rightarrow> bool" where
  "same_answer B (Value r) (Value r') = rel_sum (same_error B) (\<lambda>v v'. v = normalizeValue v') r r'"
| "same_answer B (Bool r) (Bool r') = rel_sum (same_error B) (=) r r'"
| "same_answer B (Unit r) (Unit r') = rel_sum (same_error B) (=) r r'"
| "same_answer B Nothing Nothing = True"
| "same_answer B _ _ = False"

fun small_call :: "session_call \<Rightarrow> bool" where
  "small_call (CallGet k) = (len k < 2 ^ 31)"
| "small_call (CallHas k) = (len k < 2 ^ 31)"
| "small_call (CallSet k v) = (len k < 2 ^ 31 \<and> len v < 2 ^ 31)"
| "small_call (CallDelete k) = (len k < 2 ^ 31)"
| "small_call (CallIterator opts) = plain_bounds opts"
| "small_call (CallSeek k) = (len k < 2 ^ 31)"
| "small_call _ = True"

definition agree :: "nat \<Rightarrow> ffi_Datastore \<Rightarrow> ffi_iterator option \<times> ('d, 't, 'i) ffi_lib \<Rightarrow>
    ('t, 'i) badger_iterator option \<times> 'd badger_Datastore \<Rightarrow> bool" where
  "agree n s x y \<longleftrightarrow> (\<exists>a T. linked n a T s (snd x) (snd y) \<and> rel_option (iter_at a T) (fst x) (fst y))"

text \<open>What is used of badger: nil and empty slices are alike to it, and keys and values stay below \<open>2 ^ 31\<close> bytes.\<close>

definition plain_badger :: "('d, 't, 'i) badger_ops \<Rightarrow> bool" where
  "plain_badger B \<longleftrightarrow> nil_as_empty B \<and> nil_as_empty_seek B \<and> short_values B \<and> short_entries B"

subsection \<open>Each call keeps the relation\<close>

lemma linked_less: "linked (Suc n) a T s l d \<Longrightarrow> linked n a T s l d"
  by (auto simp: linked_def)

lemma agreeI: "linked n a T s l d \<Longrightarrow> rel_option (iter_at a T) it b \<Longrightarrow> agree n s (it, l) (b, d)"
  by (auto simp: agree_def)

lemma same_closed: "same_error B ErrDBClosed ErrDBClosed"
  unfolding same_error_def by (intro exI [of _ badger_ErrDBClosed]) simp

lemma moves_same:
  "rel_sum (same_error B) (=) (fst (badger_Next B d b)) (fst (badger_Next B d b))"
  "rel_sum (same_error B) (=) (fst (badger_Seek B d k b)) (fst (badger_Seek B d k b))"
proof -
  have advance: "\<not> isl (fst (bi_advance B b))" for b by (simp add: bi_advance_def Let_def)
  have seek: "\<not> isl (fst (bi_seek B k b))" for k b using advance by (simp add: bi_seek_def Let_def)
  have nxt: "\<not> isl (fst (bi_next B b))" for b using advance seek by (simp add: bi_next_def bi_restart_def Let_def)
  show "rel_sum (same_error B) (=) (fst (badger_Next B d b)) (fst (badger_Next B d b))"
    using nxt [of b] by (cases "fst (bi_next B b)") (auto simp: badger_Next_def same_closed)
  show "rel_sum (same_error B) (=) (fst (badger_Seek B d k b)) (fst (badger_Seek B d k b))"
    using seek [of k b] by (cases "fst (bi_seek B k b)") (auto simp: badger_Seek_def same_closed)
qed

lemma rel_of_err [simp]: "rel_sum (same_error B) (=) (of_err e) (of_err e') \<longleftrightarrow> rel_option (same_error B) e e'"
  by (cases e; cases e') (simp_all add: of_err_def)

lemma drop_all_linked:
  assumes "linked n a T s l d"
  shows "\<exists>e l' d'. bd_DropAll B d = (e, d') \<and> fs_DropAll B s l = (map_option (ffi_mapped B) e, l') \<and> linked n a T s l' d'"
proof -
  obtain e db where db: "bg_DropAll B (bd_db d) = (e, db)" by fastforce
  from assms obtain M where M: "store_at s a (bd_db d) (bd_closed d) M T l" "0 < unat M" "unat M + n < 2 ^ 64"
    by (auto simp: linked_def)
  let ?l = "l\<lparr>objs := (objs l)(a := \<lparr>fdb_db = db, fdb_closed = bd_closed d\<rparr>)\<rparr>"
  have l: "store_at s a db (bd_closed d) M T ?l" using M(1) by (simp add: store_at_def)
  have call: "fs_DropAll B s l = err_of (ffi_call () (case e of Some e \<Rightarrow> fail B e True ?l | None \<Rightarrow> succeed () True ?l) ffi_value)"
    using M(1) db by (simp add: fs_DropAll_def ffiDBDropAll_def badger_ffi_db_drop_all_def store_at_def fdb_DropAll_def Let_def)
  have "\<exists>l'. fs_DropAll B s l = (map_option (ffi_mapped B) e, l') \<and> store_at s a db (bd_closed d) M T l'"
    using call l store_at_more [OF l] store_at_fresh [OF l] by (cases e) (auto simp: call_fail call_succeed ffi_value_def err_of_def)
  with db M(2,3) linkedI show ?thesis by (fastforce simp: bd_DropAll_def)
qed

text \<open>Calls on the iterator leave the store alone.\<close>

definition call_agrees where
  "call_agrees B n s x y \<longleftrightarrow> same_answer B (fst x) (fst y) \<and> agree n s (snd x) (snd y)"

lemma iter_calls_agree:
  assumes L: "linked n a T s l d" and R: "rel_option (iter_at a T) it b" and B: "nil_as_empty_seek B" "short_entries B"
  shows "call_agrees B n s (ffi_run B CallNext s (it, l)) (badger_run B CallNext (b, d))"
    and "call_agrees B n s (ffi_run B CallKey s (it, l)) (badger_run B CallKey (b, d))"
    and "call_agrees B n s (ffi_run B CallValue s (it, l)) (badger_run B CallValue (b, d))"
    and "len k < 2 ^ 31 \<Longrightarrow> call_agrees B n s (ffi_run B (CallSeek k) s (it, l)) (badger_run B (CallSeek k) (b, d))"
    and "call_agrees B n s (ffi_run B CallReset s (it, l)) (badger_run B CallReset (b, d))"
proof -
  have none: "call_agrees B n s (Nothing, None, l) (Nothing, None, d)"
    using agreeI [OF L, of None None] by (simp add: call_agrees_def)
  have some: "call_agrees B n s (x, Some o', l') (y, Some b', d)" if "same_answer B x y" "linked n a T' s l' d" "iter_at a T' o' b'"
    for x y o' l' b' T' using that agreeI [OF that(2), of "Some o'" "Some b'"] by (simp add: call_agrees_def)
  show "call_agrees B n s (ffi_run B CallNext s (it, l)) (badger_run B CallNext (b, d))"
    using R moves_same(1) [of B d] by cases (auto simp: none split_def intro!: some dest!: next_linked [OF L, of _ _ B])
  show "call_agrees B n s (ffi_run B CallKey s (it, l)) (badger_run B CallKey (b, d))"
  proof (cases it)
    case (Some o')
    then obtain b' where b: "b = Some b'" "iter_at a T o' b'" using R by (cases b) auto
    with Some key_linked [OF L b(2) B(2)] show ?thesis by (auto intro!: some)
  qed (use R none in \<open>cases b; simp\<close>)
  show "call_agrees B n s (ffi_run B CallValue s (it, l)) (badger_run B CallValue (b, d))"
  proof (cases it)
    case (Some o')
    then obtain b' where b: "b = Some b'" "iter_at a T o' b'" using R by (cases b) auto
    with Some value_linked [OF L b(2) B(2)] show ?thesis by (auto intro!: some)
  qed (use R none in \<open>cases b; simp\<close>)
  show "call_agrees B n s (ffi_run B (CallSeek k) s (it, l)) (badger_run B (CallSeek k) (b, d))" if k: "len k < 2 ^ 31"
    using R moves_same(2) [of B d k] by cases (auto simp: none split_def intro!: some dest!: seek_linked [OF L _ k B(1)])
  show "call_agrees B n s (ffi_run B CallReset s (it, l)) (badger_run B CallReset (b, d))"
    using R by cases (auto simp: none split_def intro!: some dest!: reset_linked [OF L, of _ _ B])
qed

lemma run_agree:
  assumes "agree (Suc n) s x y" "small_call c" "plain_badger B"
  shows "call_agrees B n s (ffi_run B c s x) (badger_run B c y)"
proof -
  obtain it l b d where xy: "x = (it, l)" "y = (b, d)" by (cases x; cases y)
  from assms(1) xy obtain a T where L: "linked (Suc n) a T s l d" and R: "rel_option (iter_at a T) it b"
    by (auto simp: agree_def)
  note L' = linked_less [OF L]
  have B: "nil_as_empty B" "nil_as_empty_seek B" "short_values B" "short_entries B"
    using assms(3) by (simp_all add: plain_badger_def)
  show ?thesis
  proof (cases c)
    case (CallGet k)
    with get_linked [OF L, of k B] B assms(2) xy show ?thesis by (auto simp: call_agrees_def intro!: agreeI [OF _ R])
  next
    case (CallHas k)
    with has_linked [OF L, of k B] B assms(2) xy show ?thesis by (auto simp: call_agrees_def intro!: agreeI [OF _ R])
  next
    case (CallSet k v)
    with set_linked [OF L, of k v B] B assms(2) xy show ?thesis by (auto simp: call_agrees_def intro!: agreeI [OF _ R])
  next
    case (CallDelete k)
    with delete_linked [OF L, of k B] B assms(2) xy show ?thesis by (auto simp: call_agrees_def intro!: agreeI [OF _ R])
  next
    case CallDropAll
    obtain e l' d' where e: "bd_DropAll B d = (e, d')" "fs_DropAll B s l = (map_option (ffi_mapped B) e, l')" "linked n a T s l' d'"
      using drop_all_linked [OF L', of B] by blast
    have "rel_option (same_error B) (map_option (ffi_mapped B) e) (map_option (\<lambda>e. ErrForeign (bg_Error B e)) e)"
      by (cases e) (auto simp: same_error_def)
    with CallDropAll e agreeI [OF e(3) R] xy show ?thesis by (simp add: call_agrees_def)
  next
    case (CallIterator opts)
    with iterator_linked [OF L, of opts B] assms(2) xy show ?thesis
      by (auto simp: call_agrees_def split: sum.splits intro: agreeI)
  next
    case CallNext
    with iter_calls_agree(1) [OF L' R B(2,4)] xy show ?thesis by simp
  next
    case CallKey
    with iter_calls_agree(2) [OF L' R B(2,4)] xy show ?thesis by simp
  next
    case CallValue
    with iter_calls_agree(3) [OF L' R B(2,4)] xy show ?thesis by simp
  next
    case (CallSeek k)
    with iter_calls_agree(4) [OF L' R B(2,4)] xy assms(2) show ?thesis by simp
  next
    case CallReset
    with iter_calls_agree(5) [OF L' R B(2,4)] xy show ?thesis by simp
  qed
qed

lemma session_agree:
  assumes "agree (length cs) s x y" "list_all small_call cs" "plain_badger B"
  shows "list_all2 (same_answer B) (ffi_session B cs s x) (badger_session B cs y)"
  using assms(1,2)
proof (induction cs arbitrary: x y)
  case (Cons c cs)
  then show ?case using run_agree [OF _ _ assms(3), of "length cs" s x y c] by (auto simp: split_def call_agrees_def)
qed simp

end
