(* ===== verification/Badger_Laws.thy ===== *)
theory Badger_Laws
  imports Badger Pairs
begin

text \<open>
  What badger documents of its iterators, as the locale \<open>badger\<close>, and the proof that under it
  the iterators of the store meet the contract \<open>kv_iterator\<close>.  A transaction sees the pairs
  \<open>snapshot\<close>.  An iterator runs over \<open>brows\<close>, those pairs in its direction, and \<open>rest\<close> are the
  pairs from where it stands on; it is valid while it stands on a pair whose key has the
  prefix of its options.  \<open>copied\<close> is the slice \<^verbatim>\<open>ValueCopy(nil)\<close> makes of a value.
\<close>

definition before :: "bool \<Rightarrow> bytes \<Rightarrow> pair \<Rightarrow> bool" where
  "before rvs k r \<longleftrightarrow> (if rvs then k < fst r else fst r < k)"

locale badger =
  fixes B :: "('d, 't, 'i) badger_ops"
    and snapshot :: "'d \<Rightarrow> 't \<Rightarrow> pair list"
    and brows :: "'i \<Rightarrow> pair list"
    and rest :: "'i \<Rightarrow> pair list"
    and iprefix :: "'i \<Rightarrow> bytes"
    and backwards :: "'i \<Rightarrow> bool"
    and copied :: "bytes \<Rightarrow> slice"
  assumes snapshot_ordered: "ordered (snapshot d t)"
    and new_iter: "brows (bg_NewIterator B d t opt) = (if opt_Reverse opt then rev else id) (snapshot d t)"
      "iprefix (bg_NewIterator B d t opt) = contents (opt_Prefix opt)"
      "backwards (bg_NewIterator B d t opt) = opt_Reverse opt"
    and iter_fixed: "brows (bgi_Next B i) = brows i" "iprefix (bgi_Next B i) = iprefix i"
      "backwards (bgi_Next B i) = backwards i" "brows (bgi_Seek B i k) = brows i"
      "iprefix (bgi_Seek B i k) = iprefix i" "backwards (bgi_Seek B i k) = backwards i"
    and iter_seek: "contents k \<noteq> [] \<Longrightarrow> rest (bgi_Seek B i k) = dropWhile (before (backwards i) (contents k)) (brows i)"
    and iter_rewind: "contents k = [] \<Longrightarrow> iprefix i = [] \<Longrightarrow> rest (bgi_Seek B i k) = brows i"
    and iter_next: "bgi_Valid B i \<Longrightarrow> rest (bgi_Next B i) = tl (rest i)"
    and iter_valid: "bgi_Valid B i \<longleftrightarrow> rest i \<noteq> [] \<and> bytes_HasPrefix (fst (hd (rest i))) (iprefix i)"
    and iter_key: "bgi_Valid B i \<Longrightarrow> bgi_Key B i = Some (fst (hd (rest i)))"
    and iter_value: "bgi_Valid B i \<Longrightarrow> bgi_ValueCopy B i = Inr (copied (snd (hd (rest i))))"
    and copied: "contents (copied v) = v"

text \<open>The keys the bounds of an iterator admit, and the bound it comes in through.\<close>

definition within :: "('t, 'i) badger_iterator \<Rightarrow> bytes \<Rightarrow> bool" where
  "within it k \<longleftrightarrow>
     (contents (bi_start it) \<noteq> [] \<longrightarrow> contents (bi_start it) \<le> k) \<and> (contents (bi_end it) \<noteq> [] \<longrightarrow> k < contents (bi_end it))"

definition entered :: "('t, 'i) badger_iterator \<Rightarrow> bytes \<Rightarrow> bool" where
  "entered it k \<longleftrightarrow>
     (if bi_reverse it then contents (bi_end it) \<noteq> [] \<longrightarrow> k < contents (bi_end it) else contents (bi_start it) \<le> k)"

definition badger_entry :: "(bytes \<Rightarrow> slice) \<Rightarrow> ('t, 'i) badger_iterator \<Rightarrow> pair \<Rightarrow> entry" where
  "badger_entry copied it r = (Some (fst r), if bi_keysOnly it then None else copied (snd r))"

abbreviation directed :: "bool \<Rightarrow> pair list \<Rightarrow> bool" where
  "directed rvs rs \<equiv> sorted_wrt (\<lambda>a b. dless rvs (fst a) (fst b)) rs"

abbreviation selection :: "('t, 'i) badger_iterator \<Rightarrow> pair list \<Rightarrow> pair list" where
  "selection it rs \<equiv> filter (\<lambda>r. within it (fst r)) rs"

text \<open>Along a list in one direction, skipping the rows before a key keeps exactly the others.\<close>

lemma skip_before: "directed rvs rs \<Longrightarrow> dropWhile (before rvs k) rs = filter (\<lambda>r. \<not> before rvs k r) rs"
proof (induction rs)
  case (Cons r rs)
  have "filter (\<lambda>r. \<not> before rvs k r) rs = rs" if "\<not> before rvs k r"
    using that Cons.prems by (intro filter_True) (fastforce simp: before_def dless_def split: if_splits)
  with Cons show ?case by simp
qed simp

text \<open>Once the near bound is passed, the first row decides whether anything is left within the bounds.\<close>

lemma selection_hd:
  assumes "directed (bi_reverse it) rs" "\<forall>r \<in> set rs. entered it (fst r)"
  shows "selection it rs \<noteq> [] \<longleftrightarrow> rs \<noteq> [] \<and> within it (fst (hd rs))"
proof (cases rs)
  case (Cons r rs')
  have "within it (fst r)" if "r' \<in> set rs'" "within it (fst r')" for r'
    using that assms Cons by (fastforce simp: within_def entered_def dless_def split: if_splits)
  with Cons show ?thesis by (auto simp: filter_empty_conv)
qed simp

text \<open>
  \<open>badger_iterates\<close>: a prefix iterator has both bounds set, admits only keys with its prefix, and,
  in reverse, must not meet a key equal to its end.
\<close>

definition badger_inv ::
  "('i \<Rightarrow> pair list) \<Rightarrow> ('i \<Rightarrow> bytes) \<Rightarrow> ('i \<Rightarrow> bool) \<Rightarrow> ('t, 'i) badger_iterator \<Rightarrow> bool" where
  "badger_inv brows iprefix backwards it \<longleftrightarrow>
     directed (bi_reverse it) (brows (bi_i it)) \<and> backwards (bi_i it) = bi_reverse it \<and>
     (\<forall>k. within it k \<longrightarrow> bytes_HasPrefix k (iprefix (bi_i it))) \<and>
     (iprefix (bi_i it) \<noteq> [] \<longrightarrow> contents (bi_start it) \<noteq> [] \<and> contents (bi_end it) \<noteq> [] \<and>
        (bi_reverse it \<longrightarrow> contents (bi_end it) \<notin> fst ` set (brows (bi_i it))))"

definition badger_iterates ::
  "('i \<Rightarrow> pair list) \<Rightarrow> ('i \<Rightarrow> pair list) \<Rightarrow> ('i \<Rightarrow> bytes) \<Rightarrow> ('i \<Rightarrow> bool) \<Rightarrow> (bytes \<Rightarrow> slice) \<Rightarrow>
   'd badger_Datastore \<Rightarrow> ('t, 'i) badger_iterator \<Rightarrow> entry list \<Rightarrow> entry list \<Rightarrow> bool" where
  "badger_iterates brows rest iprefix backwards copied d it Es Rs \<longleftrightarrow>
     \<not> bd_closed d \<and> badger_inv brows iprefix backwards it \<and>
     Es = map (badger_entry copied it) (selection it (brows (bi_i it))) \<and>
     (if bi_reset it then Rs = Es
      else directed (bi_reverse it) (rest (bi_i it)) \<and> (\<forall>r \<in> set (tl (rest (bi_i it))). entered it (fst r)) \<and>
        Rs = map (badger_entry copied it) (selection it (tl (rest (bi_i it)))) \<and>
        (Rs \<noteq> [] \<longrightarrow> bytes_HasPrefix (fst (hd (rest (bi_i it)))) (iprefix (bi_i it))))"

text \<open>
  The keys \<^verbatim>\<open>Seek\<close> handles as promised: all but the empty key in reverse, where also an end that
  is empty but not nil sends it to the last key.
\<close>

definition badger_seekable :: "('t, 'i) badger_iterator \<Rightarrow> slice \<Rightarrow> bool" where
  "badger_seekable it k \<longleftrightarrow> bi_reverse it \<longrightarrow> contents k \<noteq> [] \<and> bi_end it \<noteq> Some []"

context badger
begin

abbreviation "bits \<equiv> badger_iterates brows rest iprefix backwards copied"
abbreviation "binv \<equiv> badger_inv brows iprefix backwards"

lemma bi_valid_iff:
  assumes "binv it"
  shows "bi_valid B it \<longleftrightarrow> rest (bi_i it) \<noteq> [] \<and> within it (fst (hd (rest (bi_i it))))"
proof -
  have "bytes_HasPrefix k (iprefix (bi_i it))" if "within it k" for k using assms that by (simp add: badger_inv_def)
  then show ?thesis
    using iter_valid [of "bi_i it"] iter_key [of "bi_i it"]
    by (auto simp: bi_valid_def within_def len_def lt_iff gte_iff)
qed

text \<open>
  \<open>arrives it has i R\<close>: a move of \<open>it\<close> said \<open>has\<close> and took the inner iterator to \<open>i\<close>; it now
  stands on the first row of \<open>R\<close>, the rows within the bounds from there on, or has left the
  bounds when \<open>R\<close> is empty.
\<close>

definition same_iter :: "'i \<Rightarrow> 'i \<Rightarrow> bool" where
  "same_iter i j \<longleftrightarrow> brows i = brows j \<and> iprefix i = iprefix j \<and> backwards i = backwards j"

definition arrives :: "('t, 'i) badger_iterator \<Rightarrow> bool \<Rightarrow> 'i \<Rightarrow> pair list \<Rightarrow> bool" where
  "arrives it has i R \<longleftrightarrow>
     same_iter i (bi_i it) \<and> directed (bi_reverse it) (rest i) \<and> (\<forall>r \<in> set (tl (rest i)). entered it (fst r)) \<and>
     (if R = [] then \<not> has \<and> selection it (tl (rest i)) = []
      else has \<and> rest i \<noteq> [] \<and> within it (fst (hd (rest i))) \<and> R = selection it (rest i))"

lemma within_upd [simp]: "within (it\<lparr>bi_i := i\<rparr>) = within it" "within (it\<lparr>bi_reset := b\<rparr>) = within it"
  by (simp_all add: within_def fun_eq_iff)

lemma entered_upd [simp]: "entered (it\<lparr>bi_i := i\<rparr>) = entered it" "entered (it\<lparr>bi_reset := b\<rparr>) = entered it"
  by (simp_all add: entered_def fun_eq_iff)

lemma binv_upd: "binv it \<Longrightarrow> same_iter i (bi_i it) \<Longrightarrow> binv (it\<lparr>bi_i := i\<rparr>) \<and> binv (it\<lparr>bi_reset := b, bi_i := i\<rparr>)"
  by (simp add: badger_inv_def same_iter_def)

lemma in_tl: "x \<in> set (tl xs) \<Longrightarrow> x \<in> set xs"
  by (cases xs) auto

lemma directed_tl: "directed rvs rs \<Longrightarrow> directed rvs (tl rs)"
  by (cases rs) auto

lemma advance_arrives:
  assumes "binv it" "directed (bi_reverse it) (rest (bi_i it))" "\<forall>r \<in> set (tl (rest (bi_i it))). entered it (fst r)"
    and "R = selection it (tl (rest (bi_i it)))"
    and "R \<noteq> [] \<longrightarrow> bytes_HasPrefix (fst (hd (rest (bi_i it)))) (iprefix (bi_i it))"
  shows "\<exists>has i. bi_advance B it = (Inr has, it\<lparr>bi_i := i\<rparr>) \<and> arrives it has i R"
proof (cases "bgi_Valid B (bi_i it)")
  case False
  with assms(4,5) iter_valid [of "bi_i it"] have "R = []" by auto
  with False assms show ?thesis
    by (intro exI [of _ False] exI [of _ "bi_i it"]) (auto simp: bi_advance_def arrives_def same_iter_def)
next
  case True
  let ?i = "bgi_Next B (bi_i it)"
  have i: "rest ?i = tl (rest (bi_i it))" "same_iter ?i (bi_i it)"
    using iter_next [OF True] iter_fixed(1-3) [of "bi_i it"] by (auto simp: same_iter_def)
  have "bi_valid B (it\<lparr>bi_i := ?i\<rparr>) \<longleftrightarrow> R \<noteq> []"
    using bi_valid_iff [OF binv_upd [OF assms(1) i(2), THEN conjunct1]] selection_hd [OF directed_tl [OF assms(2)] assms(3)] i(1) assms(4)
    by simp
  moreover have "selection it (tl (tl (rest (bi_i it)))) = []" if "R = []"
    using that assms(4) by (cases "tl (rest (bi_i it))") (auto split: if_splits)
  then have "arrives it (R \<noteq> []) ?i R"
    using i assms(3,4) directed_tl [OF assms(2)] selection_hd [OF directed_tl [OF assms(2)] assms(3)]
    by (cases "R = []") (auto simp: arrives_def dest: in_tl)
  ultimately show ?thesis using True by (auto simp: bi_advance_def Let_def)
qed

definition target_of :: "slice \<Rightarrow> ('t, 'i) badger_iterator \<Rightarrow> slice" where
  "target_of k it =
     (if bi_reverse it then if bi_end it \<noteq> None \<and> lt (bi_end it) k then bi_end it else k
      else if bi_start it \<noteq> None \<and> lt k (bi_start it) then bi_start it else k)"

text \<open>\<^verbatim>\<open>seek\<close>, given where the seek of the inner iterator went.\<close>

lemma seek_arrives:
  assumes inv: "binv it" and A: "rest (bgi_Seek B (bi_i it) (target_of k it)) = A" "directed (bi_reverse it) A" "set A \<subseteq> set (brows (bi_i it))"
    and near: "\<forall>r \<in> set A. if bi_reverse it then contents (bi_end it) \<noteq> [] \<longrightarrow> fst r \<le> contents (bi_end it) else contents (bi_start it) \<le> fst r"
  shows "\<exists>has i. bi_seek B k it = (Inr has, it\<lparr>bi_reset := False, bi_i := i\<rparr>) \<and> arrives it has i (selection it A)"
proof -
  let ?i = "bgi_Seek B (bi_i it) (target_of k it)" and ?it = "it\<lparr>bi_reset := False, bi_i := bgi_Seek B (bi_i it) (target_of k it)\<rparr>"
  have same: "same_iter ?i (bi_i it)" using iter_fixed(4-6) by (simp add: same_iter_def)
  have inv': "binv ?it" using binv_upd [OF inv same] by blast
  have seek: "bi_seek B k it = (if bi_valid B ?it then (Inr True, ?it) else bi_advance B ?it)"
    by (simp add: bi_seek_def Let_def target_of_def)
  have entered: "\<forall>r \<in> set (tl A). entered it (fst r)"
  proof (cases A)
    case (Cons a A')
    with A(2) near show ?thesis by (fastforce simp: entered_def dless_def split: if_splits)
  qed simp
  show ?thesis
  proof (cases "bi_valid B ?it")
    case True
    then have "A \<noteq> []" "within it (fst (hd A))" using bi_valid_iff [OF inv'] A(1) by auto
    then have "arrives it True ?i (selection it A)" using A same entered by (cases A) (auto simp: arrives_def)
    with True seek show ?thesis by auto
  next
    case False
    then have out: "A = [] \<or> \<not> within it (fst (hd A))" using bi_valid_iff [OF inv'] A(1) by auto
    then have tl: "selection it A = selection it (tl A)" by (cases A) auto
    have pfx: "bytes_HasPrefix (fst (hd A)) (iprefix (bi_i it))" if "selection it (tl A) \<noteq> []"
    proof -
      from that obtain a A' r where r: "A = a # A'" "r \<in> set A'" "within it (fst r)"
        by (cases A) (auto simp: filter_empty_conv)
      with out A(2) near have "bi_reverse it" "contents (bi_end it) \<noteq> []" "fst a = contents (bi_end it)"
        by (fastforce simp: within_def dless_def split: if_splits)+
      with inv A(3) r(1) show ?thesis by (cases "iprefix (bi_i it)") (auto simp: badger_inv_def image_iff)
    qed
    obtain has i where "bi_advance B ?it = (Inr has, ?it\<lparr>bi_i := i\<rparr>)" "arrives ?it has i (selection it (tl A))"
      using advance_arrives [OF inv', of "selection it (tl A)"] A(1,2) entered pfx same by (auto simp: same_iter_def)
    with False seek tl same show ?thesis by (auto simp: arrives_def same_iter_def)
  qed
qed

lemma rest_seek:
  assumes "binv it" "contents t \<noteq> [] \<or> iprefix (bi_i it) = [] \<and> \<not> bi_reverse it"
  shows "rest (bgi_Seek B (bi_i it) t) = filter (\<lambda>r. \<not> before (bi_reverse it) (contents t) r) (brows (bi_i it))"
proof (cases "contents t = []")
  case True
  with assms(2) iter_rewind [OF True] show ?thesis by (simp add: before_def)
next
  case False
  with assms(1) iter_seek [OF False, of "bi_i it"] skip_before show ?thesis by (auto simp: badger_inv_def)
qed

lemma directed_rows: "binv it \<Longrightarrow> directed (bi_reverse it) (brows (bi_i it))"
  by (simp add: badger_inv_def)

lemma nil_less: "[] < (a :: bytes) \<longleftrightarrow> a \<noteq> []"
  by (cases a) auto

text \<open>A restart comes in at the near bound and finds everything.\<close>

lemma restart_arrives:
  assumes "binv it"
  shows "\<exists>has i. bi_restart B it = (Inr has, it\<lparr>bi_reset := False, bi_i := i\<rparr>) \<and> arrives it has i (selection it (brows (bi_i it)))"
proof -
  let ?it = "it\<lparr>bi_reset := False\<rparr>" and ?k = "if bi_reverse it then bi_end it else bi_start it"
  define A where "A = rest (bgi_Seek B (bi_i it) (target_of ?k ?it))"
  have target: "target_of ?k ?it = ?k" by (simp add: target_of_def lt_iff)
  have A_eq: "A = (if contents ?k = [] then brows (bi_i it) else filter (\<lambda>r. \<not> before (bi_reverse it) (contents ?k) r) (brows (bi_i it)))"
  proof (cases "contents ?k = []")
    case True
    then have "iprefix (bi_i it) = []" using assms by (auto simp: badger_inv_def split: if_splits)
    with True show ?thesis using iter_rewind [OF True] unfolding A_def target by simp
  next
    case False
    then show ?thesis using rest_seek [OF assms, of ?k] unfolding A_def target by simp
  qed
  have inv: "binv ?it" using assms by (simp add: badger_inv_def)
  have "selection it A = selection it (brows (bi_i it))"
    unfolding A_eq by (auto simp: within_def before_def intro!: filter_cong split: if_splits)
  moreover have "directed (bi_reverse it) A" using directed_rows [OF assms] by (auto simp: A_eq sorted_wrt_filter)
  ultimately show ?thesis
    using seek_arrives [OF inv, of ?k A]
    by (auto simp: bi_restart_def Let_def A_def [symmetric] A_eq before_def arrives_def not_less split: if_splits)
qed

text \<open>A seek finds the rows that are not before the key.\<close>

lemma seek_selects:
  assumes "binv it" "badger_seekable it k"
  shows "\<exists>has i. bi_seek B k it = (Inr has, it\<lparr>bi_reset := False, bi_i := i\<rparr>) \<and>
    arrives it has i (filter (\<lambda>r. \<not> before (bi_reverse it) (contents k) r) (selection it (brows (bi_i it))))"
proof -
  let ?t = "target_of k it"
  have end': "bi_reverse it \<Longrightarrow> bi_end it \<noteq> Some []" "iprefix (bi_i it) \<noteq> [] \<longrightarrow> contents (bi_start it) \<noteq> []"
    using assms by (auto simp: badger_inv_def badger_seekable_def)
  have "contents ?t \<noteq> [] \<or> iprefix (bi_i it) = [] \<and> \<not> bi_reverse it"
    using assms(2) end' by (cases "bi_end it"; cases "bi_start it") (auto simp: badger_seekable_def target_of_def lt_iff nil_less)
  note A = rest_seek [OF assms(1) this]
  let ?A = "filter (\<lambda>r. \<not> before (bi_reverse it) (contents ?t) r) (brows (bi_i it))"
  have near: "\<forall>r \<in> set ?A. if bi_reverse it then contents (bi_end it) \<noteq> [] \<longrightarrow> fst r \<le> contents (bi_end it) else contents (bi_start it) \<le> fst r"
    by (cases "bi_end it"; cases "bi_start it") (auto simp: before_def target_of_def lt_iff split: if_splits)
  have "selection it ?A = filter (\<lambda>r. \<not> before (bi_reverse it) (contents k) r) (selection it (brows (bi_i it)))"
    unfolding filter_filter using end'(1)
    by (intro filter_cong refl, cases "bi_end it"; cases "bi_start it")
      (auto simp: before_def target_of_def lt_iff within_def split: if_splits)
  with seek_arrives [OF assms(1) A _ _ near] directed_rows [OF assms(1)] show ?thesis
    by (auto simp: sorted_wrt_filter)
qed

text \<open>From arriving to the contract.\<close>

abbreviation "shows_entry \<equiv> badger_entry copied"

lemma arrives_entry:
  assumes "bits d it Es Rs" "arrives it has i R"
  defines "it' \<equiv> it\<lparr>bi_reset := False, bi_i := i\<rparr>"
  shows "R = [] \<Longrightarrow> \<not> has \<and> bits d it' Es []"
    "R = r # R' \<Longrightarrow> has \<and> i_Key (badger_Iterator B) it' = Inr (fst (shows_entry it r)) \<and>
       i_Value (badger_Iterator B) it' = Inr (snd (shows_entry it r)) \<and> bits d it' Es (map (shows_entry it) R')"
proof -
  have entry: "shows_entry it' = shows_entry it" by (simp add: badger_entry_def it'_def fun_eq_iff)
  have inv: "binv it'" "brows i = brows (bi_i it)"
    using assms(1,2) binv_upd [of it i False] by (auto simp: badger_iterates_def arrives_def same_iter_def it'_def)
  show "\<not> has \<and> bits d it' Es []" if "R = []"
    using that assms(1,2) inv entry unfolding badger_iterates_def arrives_def by (auto simp: it'_def)
  assume R: "R = r # R'"
  with assms(2) have i: "has" "rest i \<noteq> []" "within it (fst (hd (rest i)))" "r # R' = selection it (rest i)"
    by (auto simp: arrives_def)
  then have hd: "hd (rest i) = r" "R' = selection it (tl (rest i))" by (cases "rest i"; simp)+
  have pfx: "bytes_HasPrefix (fst r) (iprefix i)" using inv(1) i(3) hd(1) by (simp add: badger_inv_def it'_def)
  then have valid: "bgi_Valid B i" using iter_valid i(2) hd(1) by simp
  have "bits d it' Es (map (shows_entry it) R')"
    using assms(1,2) inv entry hd pfx unfolding badger_iterates_def arrives_def by (auto simp: it'_def)
  with i(1) hd(1) iter_key [OF valid] iter_value [OF valid]
  show "has \<and> i_Key (badger_Iterator B) it' = Inr (fst (shows_entry it r)) \<and>
       i_Value (badger_Iterator B) it' = Inr (snd (shows_entry it r)) \<and> bits d it' Es (map (shows_entry it) R')"
    by (auto simp: badger_Iterator_def badger_Key_def badger_Value_def badger_entry_def it'_def)
qed

lemma bits_reset: "bits d it Es Rs \<Longrightarrow> bits d (i_Reset (badger_Iterator B) it) Es Es"
  by (auto simp: badger_iterates_def badger_Iterator_def bi_Reset_def badger_inv_def badger_entry_def [abs_def])

text \<open>\<^verbatim>\<open>Next\<close> and \<^verbatim>\<open>Seek\<close> arrive at what is left.\<close>

lemma next_arrives:
  assumes "bits d it Es Rs"
  shows "\<exists>has i R. badger_Next B d it = (Inr has, it\<lparr>bi_reset := False, bi_i := i\<rparr>) \<and> arrives it has i R \<and>
    Rs = map (shows_entry it) R"
proof (cases "bi_reset it")
  case True
  with assms restart_arrives [of it] show ?thesis
    by (auto simp: badger_iterates_def badger_Next_def bi_next_def)
next
  case False
  let ?R = "selection it (tl (rest (bi_i it)))"
  have keep: "it\<lparr>bi_i := i\<rparr> = it\<lparr>bi_reset := False, bi_i := i\<rparr>" for i using False by (cases it) simp
  have Rs: "Rs = map (shows_entry it) ?R" using False assms by (simp add: badger_iterates_def)
  obtain has i where i: "bi_advance B it = (Inr has, it\<lparr>bi_i := i\<rparr>)" "arrives it has i ?R"
    using False assms advance_arrives [of it ?R] by (auto simp: badger_iterates_def)
  have "badger_Next B d it = (Inr has, it\<lparr>bi_reset := False, bi_i := i\<rparr>)"
    using False assms i(1) keep by (simp add: badger_Next_def bi_next_def badger_iterates_def)
  with i(2) Rs show ?thesis by blast
qed

lemma key_before_shown: "key_before (\<not> bi_reverse it) k (shows_entry it r) = before (bi_reverse it) (contents k) r"
  by (auto simp: key_before_def badger_entry_def before_def)

lemma skipped_entries:
  assumes "bits d it Es Rs"
  shows "dropWhile (key_before (\<not> bi_reverse it) k) Es =
    map (shows_entry it) (filter (\<lambda>r. \<not> before (bi_reverse it) (contents k) r) (selection it (brows (bi_i it))))"
proof -
  have "directed (bi_reverse it) (selection it (brows (bi_i it)))"
    using assms by (auto simp: badger_iterates_def badger_inv_def sorted_wrt_filter)
  from skip_before [OF this, of "contents k"] assms show ?thesis
    by (auto simp: badger_iterates_def dropWhile_map comp_def key_before_shown)
qed

lemma badger_kv_iterator:
  "kv_iterator (badger_Iterator B) (badger_iterates brows rest iprefix backwards copied) (\<lambda>it. \<not> bi_reverse it) badger_seekable"
proof (unfold_locales, goal_cases)
  case (1 d it Es)
  obtain has i where i: "badger_Next B d it = (Inr has, it\<lparr>bi_reset := False, bi_i := i\<rparr>)" "arrives it has i []"
    using next_arrives [OF 1] by auto
  note done' = arrives_entry(1) [OF 1 i(2) refl]
  with i(1) bits_reset show ?case by (fastforce simp: badger_Iterator_def)
next
  case (2 d it Es k v Rs)
  obtain has i R where i: "badger_Next B d it = (Inr has, it\<lparr>bi_reset := False, bi_i := i\<rparr>)" "arrives it has i R"
    "(k, v) # Rs = map (shows_entry it) R" using next_arrives [OF 2] by metis
  then obtain r R' where R: "R = r # R'" "shows_entry it r = (k, v)" "Rs = map (shows_entry it) R'" by auto
  from arrives_entry(2) [OF 2 i(2) R(1)] i(1) R(2,3) show ?case by (auto simp: badger_Iterator_def)
next
  case (3 d it Es Rs)
  then show ?case by (rule bits_reset)
next
  case (5 d it Es Rs k)
  have inv: "binv it" "\<not> bd_closed d" using 5(1) by (auto simp: badger_iterates_def)
  from 5(3) skipped_entries [OF 5(1), of k] obtain has i where
    "bi_seek B k it = (Inr has, it\<lparr>bi_reset := False, bi_i := i\<rparr>)" "arrives it has i []"
    using seek_selects [OF inv(1) 5(2)] by auto
  with arrives_entry(1) [OF 5(1)] bits_reset inv(2) show ?case by (fastforce simp: badger_Iterator_def badger_Seek_def)
next
  case (6 d it Es Rs k k1 v1 R1)
  have inv: "binv it" "\<not> bd_closed d" using 6(1) by (auto simp: badger_iterates_def)
  obtain has i R where i: "bi_seek B k it = (Inr has, it\<lparr>bi_reset := False, bi_i := i\<rparr>)" "arrives it has i R"
    "(k1, v1) # R1 = map (shows_entry it) R"
    using seek_selects [OF inv(1) 6(2)] skipped_entries [OF 6(1), of k] 6(3) by auto
  then obtain r R' where R: "R = r # R'" "shows_entry it r = (k1, v1)" "R1 = map (shows_entry it) R'" by auto
  from arrives_entry(2) [OF 6(1) i(2) R(1)] i(1) R(2,3) inv(2) show ?case
    by (auto simp: badger_Iterator_def badger_Seek_def)
qed (simp_all add: badger_Iterator_def bi_Reset_def)

text \<open>
  A fresh iterator of a transaction yields the rows of its snapshot.  A prefix must not consist of \<^verbatim>\<open>0xff\<close>
  bytes, and in reverse no key may equal the end of the prefix.
\<close>

lemma bt_iterator_rows:
  assumes "\<not> bd_closed d" "bounded_prefix opts"
    and "contents (Prefix opts) \<noteq> [] \<Longrightarrow> Reverse opts \<Longrightarrow>
      map_of (snapshot (bd_db d) txn) (contents (bytesPrefixEnd (Prefix opts))) = None"
  defines "Es \<equiv> rows_asked (\<lambda>v. if KeysOnly opts then None else copied v) opts (snapshot (bd_db d) txn)"
  shows "\<exists>it. bt_iterator B txn d opts = Inr it \<and> bits d it Es Es \<and> (bi_reverse it \<longleftrightarrow> Reverse opts)"
proof -
  let ?S = "snapshot (bd_db d) txn"
  obtain it where it: "bt_iterator B txn d opts = Inr it" by (cases "Prefix opts") (simp_all add: bt_iterator_def assms(1))
  have parts: "bi_reverse it = Reverse opts" "bi_reset it" "bi_keysOnly it = KeysOnly opts"
    "brows (bi_i it) = (if Reverse opts then rev else id) ?S" "iprefix (bi_i it) = contents (Prefix opts)"
    "backwards (bi_i it) = Reverse opts"
    "bi_start it = (if Prefix opts \<noteq> None then Prefix opts else Start opts)"
    "bi_end it = (if Prefix opts \<noteq> None then bytesPrefixEnd (Prefix opts) else End opts)"
    using it assms(1) new_iter
    by (auto simp: bt_iterator_def badger_newPrefixIterator_def badger_newRangeIterator_def Let_def split: if_splits)
  have prefix: "contents (bytesPrefixEnd (Prefix opts)) = [] \<longleftrightarrow> contents (Prefix opts) = []"
  proof (cases "contents (Prefix opts) = []")
    case True
    then show ?thesis using bytesPrefixEnd_all_ff [of "Prefix opts"] by (simp add: all_ff_def)
  next
    case False
    with assms(2) have "\<not> all_ff (contents (Prefix opts))" by (simp add: bounded_prefix_def)
    from bytes_split [OF this] False show ?thesis by (metis bytesPrefixEnd_split contents_simps(2) snoc_eq_iff_butlast)
  qed
  have within: "within it k \<longleftrightarrow> wanted opts k" for k
    using prefix bytesPrefixEnd_interval [of "Prefix opts" k] assms(2)
    by (cases "Prefix opts") (auto simp: within_def wanted_def parts bounded_prefix_def)
  have rows: "directed (Reverse opts) (brows (bi_i it))"
    using snapshot_ordered [of "bd_db d" txn] by (simp add: parts sorted_wrt_rev)
  have "binv it"
    unfolding badger_inv_def within
    using rows prefix assms(3) by (auto simp: parts wanted_def map_of_eq_None_iff)
  moreover have "Es = map (shows_entry it) (selection it (brows (bi_i it)))"
    by (cases "Reverse opts") (simp_all add: Es_def rows_asked_def within parts badger_entry_def [abs_def] rev_filter)
  ultimately show ?thesis using it parts(1,2) assms(1) by (auto simp: badger_iterates_def)
qed

lemma bt_iterator_lists:
  assumes "\<not> bd_closed d" "bounded_prefix opts"
    and "contents (Prefix opts) \<noteq> [] \<Longrightarrow> Reverse opts \<Longrightarrow>
      map_of (snapshot (bd_db d) txn) (contents (bytesPrefixEnd (Prefix opts))) = None"
  shows "\<exists>it Es. bt_iterator B txn d opts = Inr it \<and> bits d it Es Es \<and> (bi_reverse it \<longleftrightarrow> Reverse opts) \<and>
    lists (\<lambda>k. map_option (\<lambda>v. if KeysOnly opts then None else copied v) (map_of (snapshot (bd_db d) txn) k)) opts Es"
  using bt_iterator_rows [OF assms] lists_rows [OF snapshot_ordered] by blast

end

end
