(* ===== verification/Badger_Props.thy ===== *)
theory Badger_Props
  imports Badger_Laws
begin

text \<open>
  The properties of the badger store, under what badger documents, and sorted tables as a
  concrete instance of the locale \<open>badger\<close> on which they are evaluated.
\<close>

subsection \<open>Tables as a badger\<close>

text \<open>
  A database is a table and whether it is closed; a transaction its copy of the table,
  whether it may write, and whether it is finished; an iterator its rows, the rows left, its
  prefix and its direction.
\<close>

type_synonym table_db = "pair list \<times> bool"
type_synonym table_txn = "pair list \<times> bool \<times> bool"
type_synonym table_iter = "pair list \<times> pair list \<times> bytes \<times> bool"

fun table_Error :: "badger_error \<Rightarrow> string" where
  "table_Error badger_ErrEmptyKey = ''Key cannot be empty''"
| "table_Error badger_ErrKeyNotFound = ''Key not found''"
| "table_Error badger_ErrDiscardedTxn = ''This transaction has been discarded. Create a new one''"
| "table_Error badger_ErrDBClosed = ''DB Closed''"
| "table_Error badger_ErrConflict = ''Transaction Conflict. Please retry''"
| "table_Error badger_ErrReadOnlyTxn = ''No sets or deletes are allowed in a read-only transaction''"
| "table_Error badger_ErrInvalidEncryptionKey = ''Encryption key's length should be either 16, 24, or 32 bytes''"
| "table_Error badger_ErrValueLogSize = ''Invalid ValueLogFileSize''"
| "table_Error (badger_Err msg) = msg"
| "table_Error (badger_Wrapped msg e) = msg @ table_Error e"

definition table_write :: "table_txn \<Rightarrow> slice \<Rightarrow> (pair list \<Rightarrow> pair list) \<Rightarrow> badger_error option \<times> table_txn" where
  "table_write t k f =
     (case t of (rs, update, finished) \<Rightarrow>
        if \<not> update then (Some badger_ErrReadOnlyTxn, t)
        else if finished then (Some badger_ErrDiscardedTxn, t)
        else if len k = 0 then (Some badger_ErrEmptyKey, t)
        else (None, f (table rs), update, finished))"

definition table_badger :: "(table_db, table_txn, table_iter) badger_ops" where
  "table_badger =
     \<lparr>bg_Error = table_Error,
      bg_DefaultOptions = (\<lambda>dir. \<lparr>opt_Dir = dir, opt_ValueDir = dir, opt_InMemory = False, opt_EncryptionKey = None,
        opt_IndexCacheSize = 0, opt_ValueLogFileSize = 1073741823\<rparr>),
      bg_Open = (\<lambda>opts. Inr ([], False)),
      bg_Close = (\<lambda>(rs, c). (None, rs, True)),
      bg_DropAll = (\<lambda>(rs, c). if c then (Some badger_ErrDBClosed, rs, c) else (None, [], c)),
      bg_NewTransaction = (\<lambda>(rs, c) update. ((rs, update, False), rs, c)),
      bg_Get = (\<lambda>(_, c) t k. case t of (rs, update, finished) \<Rightarrow>
        if len k = 0 then (Inl badger_ErrEmptyKey, t)
        else if finished then (Inl badger_ErrDiscardedTxn, t)
        else if c then (Inl badger_ErrDBClosed, t)
        else (case map_of (table rs) (contents k) of None \<Rightarrow> (Inl badger_ErrKeyNotFound, t) | Some v \<Rightarrow> (Inr (Inr (Some v)), t))),
      bg_Set = (\<lambda>_ t k v. table_write t k (table_put (contents k) (contents v))),
      bg_Delete = (\<lambda>_ t k. table_write t k (table_del (contents k))),
      bg_Commit = (\<lambda>(rs0, c) (rs, update, finished).
        if finished then (Some badger_ErrDiscardedTxn, (rs, update, finished), rs0, c)
        else if c then (Some badger_ErrDBClosed, (rs, update, finished), rs0, c)
        else (None, (rs, update, True), if update then rs else rs0, c)),
      bg_Discard = (\<lambda>db (rs, update, finished). ((rs, update, True), db)),
      bg_NewIterator = (\<lambda>_ (rs, update, finished) opt.
        ((if opt_Reverse opt then rev else id) (table rs), [], contents (opt_Prefix opt), opt_Reverse opt)),
      bgi_Valid = (\<lambda>(all, left, p, rvs). left \<noteq> [] \<and> bytes_HasPrefix (fst (hd left)) p),
      bgi_Next = (\<lambda>(all, left, p, rvs). (all, tl left, p, rvs)),
      bgi_Seek = (\<lambda>(all, left, p, rvs) k.
        (all, if contents k = [] \<and> p = [] then all
              else dropWhile (before rvs (if contents k = [] then p else contents k)) all, p, rvs)),
      bgi_Key = (\<lambda>(all, left, p, rvs). case left of [] \<Rightarrow> None | r # _ \<Rightarrow> Some (fst r)),
      bgi_ValueCopy = (\<lambda>(all, left, p, rvs). case left of [] \<Rightarrow> Inl (badger_Err []) | r # _ \<Rightarrow> Inr (Some (snd r))),
      bgi_Close = (\<lambda>i. i)\<rparr>"

declare table_write_def [run_defs] before_def [run_defs]

interpretation table_badger: badger table_badger "\<lambda>db t. table (fst t)" fst "\<lambda>i. fst (snd i)" "\<lambda>i. fst (snd (snd i))"
    "\<lambda>i. snd (snd (snd i))" Some
  by unfold_locales (auto simp: table_badger_def split: prod.splits list.splits)

interpretation table_badger_iter: kv_iterator "badger_Iterator table_badger"
    "badger_iterates fst (\<lambda>i. fst (snd i)) (\<lambda>i. fst (snd (snd i))) (\<lambda>i. snd (snd (snd i))) Some" "\<lambda>it. \<not> bi_reverse it"
    badger_seekable
  by (rule table_badger.badger_kv_iterator)

subsection \<open>Iteration\<close>

lemma iterates_closer:
  "badger_iterates brows rest iprefix backwards copied d (it\<lparr>bi_closer := c\<rparr>) Es Rs \<longleftrightarrow>
   badger_iterates brows rest iprefix backwards copied d it Es Rs"
  by (simp add: badger_iterates_def badger_inv_def within_def entered_def badger_entry_def [abs_def])

definition badger_shown :: "(bytes \<Rightarrow> slice) \<Rightarrow> IterOptions \<Rightarrow> bytes \<Rightarrow> slice" where
  "badger_shown copied opts v = (if KeysOnly opts then None else copied v)"

text \<open>
  C11.  Iterating over the badger store lists the snapshot of its implicit transaction: on an
  open store an iterator is returned, calling Next until it says there is no more comes to
  an end, the entries are exactly the pairs the options ask for, in ascending or descending
  order of keys, with \<^verbatim>\<open>KeysOnly\<close> without the values, and after a Reset the same entries come
  again.  The prefix, if one is given, does not consist of 0xff bytes, and in reverse no key
  equals its end.  A key equal to \<^verbatim>\<open>Prefix\<close> is among those asked for, against the comment in
  \<^verbatim>\<open>kv.go\<close>.
\<close>

theorem badger_iteration_lists:
  assumes "badger B snapshot brows rest iprefix backwards copied" "\<not> bd_closed d" "bounded_prefix opts"
    and "bd_newTxn B True d = (txn, d1)"
    and "contents (Prefix opts) \<noteq> [] \<longrightarrow> Reverse opts \<longrightarrow>
      map_of (snapshot (bd_db d1) txn) (contents (bytesPrefixEnd (Prefix opts))) = None"
  shows "\<exists>it Es it' it''. bd_Iterator B None d opts = (Inr it, d1) \<and> bi_closer it = Some txn \<and>
    collect (badger_Iterator B) d1 it = Some (Inr Es, it') \<and>
    lists (\<lambda>k. map_option (badger_shown copied opts) (map_of (snapshot (bd_db d1) txn) k)) opts Es \<and>
    collect (badger_Iterator B) d1 (bi_Reset it') = Some (Inr Es, it'')"
proof -
  note laws = badger.badger_kv_iterator [OF assms(1)]
  have d1: "\<not> bd_closed d1" using assms(2,4) by (auto simp: bd_newTxn_def Let_def split: prod.splits)
  obtain it Es where it: "bt_iterator B txn d1 opts = Inr it" "badger_iterates brows rest iprefix backwards copied d1 it Es Es"
    "lists (\<lambda>k. map_option (badger_shown copied opts) (map_of (snapshot (bd_db d1) txn) k)) opts Es"
    using badger.bt_iterator_lists [OF assms(1) d1 assms(3), of txn] assms(5) unfolding badger_shown_def [abs_def] by blast
  let ?it = "it\<lparr>bi_closer := Some txn\<rparr>"
  have iter: "bd_Iterator B None d opts = (Inr ?it, d1)" using assms(4) it(1) by (simp add: bd_Iterator_def)
  have "badger_iterates brows rest iprefix backwards copied d1 ?it Es Es" using it(2) by (simp add: iterates_closer)
  from kv_iterator.collect_again [OF laws this] obtain it' it'' where
    "collect (badger_Iterator B) d1 ?it = Some (Inr Es, it')"
    "collect (badger_Iterator B) d1 (bi_Reset it') = Some (Inr Es, it'')" by (auto simp: badger_Iterator_def)
  with iter it(3) show ?thesis by (intro exI [of _ ?it] exI [of _ Es] exI [of _ it'] exI [of _ it'']) simp
qed

abbreviation badger_sample :: "table_db badger_Datastore" where
  "badger_sample \<equiv> badger_NewDatastoreFrom ([([1, 5], [7]), ([2], [9])], False)"

theorem badger_iteration_lists_witness:
  "\<exists>it Es it' d1. bd_Iterator table_badger None badger_sample (DefaultIterOptions\<lparr>Reverse := True\<rparr>) = (Inr it, d1) \<and>
    collect (badger_Iterator table_badger) d1 it = Some (Inr Es, it') \<and>
    map_of (map (apfst contents) Es) [2] = Some (Some [9])"
proof -
  let ?opts = "DefaultIterOptions\<lparr>Reverse := True\<rparr>" and ?rs = "[([1, 5], [7]), ([2], [9])] :: pair list"
  have new: "bd_newTxn table_badger True badger_sample = ((?rs, False, False), badger_sample)"
    by (simp add: bd_newTxn_def table_badger_def badger_NewDatastoreFrom_def)
  have "\<not> bd_closed badger_sample" "bounded_prefix ?opts" "wanted ?opts [2]"
    by (simp_all add: badger_NewDatastoreFrom_def DefaultIterOptions_def bounded_prefix_def wanted_def)
  moreover have "map_option (badger_shown Some ?opts) (map_of (table (fst (?rs, False, False))) [2]) = Some (Some [9])"
    by (simp add: badger_shown_def DefaultIterOptions_def table_def)
  ultimately show ?thesis
    using badger_iteration_lists [OF table_badger.badger_axioms _ _ new, of ?opts]
    by (force simp: lists_def DefaultIterOptions_def)
qed

text \<open>
  When a key equals the end of the prefix, iterating over the prefix in reverse yields
  nothing: the seek to the end rests on that key, where badger's iterator is not valid.
\<close>

lemma badger_reverse_prefix_misses:
  "map_option fst (case bd_Iterator table_badger None badger_sample (DefaultIterOptions\<lparr>Prefix := Some [1], Reverse := True\<rparr>) of
     (Inr it, d) \<Rightarrow> collect (badger_Iterator table_badger) d it | (Inl e, d) \<Rightarrow> None) = Some (Inr [])"
  by (simp add: collect.simps run_defs DefaultIterOptions_def table_badger_def)

end
