(* ===== verification/Ffi_Props.thy ===== *)
theory Ffi_Props
  imports Ffi_Session Badger_Props
begin

text \<open>
  The properties of the shared library and of the store over it: sessions answer as the store
  of \<^verbatim>\<open>badger/badger.go\<close> does, no call leaks C memory, handles are not reused, and what
  byte strings and errors become when they cross the interface.
\<close>

subsection \<open>Sessions\<close>

text \<open>The library when it is loaded: empty tables, nothing allocated.\<close>

definition ffi_start :: "(nat \<Rightarrow> 'd ffi_DB) \<Rightarrow> ('d, 't, 'i) ffi_lib" where
  "ffi_start x =
     \<lparr>objs = x, objs_next = 0, dbHandles = newHandleTable, txnHandles = newHandleTable, iterHandles = newHandleTable,
      cheap = (\<lambda>_. None), cheap_next = 0, bad_frees = 0\<rparr>"

declare ffi_start_def [run_defs]

lemma fresh_start [simp]: "fresh (ffi_start x)"
  by (simp add: fresh_def ffi_start_def)

lemma ffi_Open_db: "ffi_Open B opts = Inr x \<Longrightarrow> \<exists>o' db. bg_Open B o' = Inr db \<and> x = ffi_NewFrom db"
  by (auto simp: ffi_Open_def Let_def ffi_NewFrom_def split: if_splits sum.splits)

lemma db_open_call:
  assumes "ffi_call 0 (badger_ffi_db_open B dir vdir mem key ics vls True True l) ffi_value = (Inr h, l')" "fresh l"
  shows "\<exists>o' db. bg_Open B o' = Inr db \<and> h = ht_next (dbHandles l) \<and>
    l' = l\<lparr>objs := (objs l)(objs_next l := ffi_NewFrom db), objs_next := Suc (objs_next l),
           dbHandles := snd (ht_add (objs_next l) (dbHandles l))\<rparr>"
proof (cases "cBytes key")
  case (Inr k)
  let ?o = "\<lparr>oo_Dir = cString dir, oo_ValueDir = cString vdir, oo_InMemory = (mem \<noteq> 0), oo_EncryptionKey = k,
    oo_IndexCacheSize = ics, oo_ValueLogFileSize = vls\<rparr>"
  show ?thesis
  proof (cases "ffi_Open B ?o")
    case (Inl e)
    with Inr assms show ?thesis by (simp add: badger_ffi_db_open_def with_cBytes_def call_fail)
  next
    case (Inr db)
    with ffi_Open_db obtain o' d where "bg_Open B o' = Inr d" "db = ffi_NewFrom d" by blast
    with Inr \<open>cBytes key = Inr k\<close> assms show ?thesis
      by (auto simp: badger_ffi_db_open_def with_cBytes_def call_succeed ffi_value_def ht_add_def Let_def)
  qed
qed (use assms in \<open>simp add: badger_ffi_db_open_def with_cBytes_def call_panic\<close>)

lemma open_agree:
  assumes "ffi_NewDatastore B path opts (ffi_start x) = (Inr s, l)" "n < 2 ^ 64 - 1"
  shows "\<exists>o' db. bg_Open B o' = Inr db \<and> agree n s (None, l) (None, badger_NewDatastoreFrom db)"
proof -
  let ?l1 = "snd (malloc (CString path) (ffi_start x))"
  have l1: "fresh ?l1" by (rule fresh_malloc) simp
  obtain r l2 where call: "ffi_call 0 (badger_ffi_db_open B (Some path) (Some path) (ffiBool (opt_InMemory opts))
      (ffiBytesArg (opt_EncryptionKey opts)) (opt_IndexCacheSize opts) (opt_ValueLogFileSize opts) True True ?l1) ffi_value = (r, l2)"
    by fastforce
  have r: "r = Inr (fs_handle s)" "\<not> fs_closed s" "l = badger_ffi_free (Some 0) l2"
    using assms(1) call unfolding ffi_NewDatastore_def ffiOpen_def compatOptions_def Let_def
    by (auto simp: malloc_def ffi_start_def split_def split: sum.splits)
  from db_open_call [OF call [unfolded r(1)] l1] obtain o' db where db: "bg_Open B o' = Inr db"
    "fs_handle s = 1" "l2 = ?l1\<lparr>objs := x(0 := ffi_NewFrom db), objs_next := 1, dbHandles := snd (ht_add 0 newHandleTable)\<rparr>"
    by (auto simp: malloc_def ffi_start_def newHandleTable_def)
  then have "store_at s 0 db False 1 newHandleTable l"
    using r(2,3) by (auto simp: store_at_def fresh_def malloc_def ffi_start_def badger_ffi_free_def newHandleTable_def
        ht_add_def ht_get_def ffi_NewFrom_def)
  with assms(2) have "linked n 0 newHandleTable s l (badger_NewDatastoreFrom db)"
    by (auto simp: linked_def badger_NewDatastoreFrom_def)
  from agreeI [OF this, of None None] db(1) show ?thesis by auto
qed

text \<open>
  C7.  A client of a store over the shared library gets the answers of the store that calls
  badger directly: in any sequence of Get, Has, Set, Delete, DropAll and Iterator calls,
  without a transaction in the context, on a store that was just opened, and of Next, Key,
  Value, Seek and Reset on the iterator last returned, the answers agree one by one, and
  errors come from the same error of badger.  Badger does not tell nil from empty slices and
  keeps entries below 2^31 bytes; the arguments are below 2^31 bytes, the bounds of the
  iterators are nil or not empty (an empty prefix crosses the interface as nil), and there are
  fewer than 2^64 - 1 calls.
\<close>

theorem ffi_sessions_agree:
  assumes "ffi_NewDatastore B path opts (ffi_start x) = (Inr s, l)" "plain_badger B"
    and "list_all small_call cs" "length cs < 2 ^ 64 - 1"
  shows "\<exists>o' db. bg_Open B o' = Inr db \<and>
    list_all2 (same_answer B) (ffi_session B cs s (None, l)) (badger_session B cs (None, badger_NewDatastoreFrom db))"
  using open_agree [OF assms(1,4)] session_agree [OF _ assms(3,2)] by blast

text \<open>Tables whose keys and values are cut to 1000 bytes, for the witnesses.\<close>

definition short_badger :: "(table_db, table_txn, table_iter) badger_ops" where
  "short_badger = table_badger
     \<lparr>bg_Get := (\<lambda>d t k. apfst (map_sum id (map_sum id (map_option (take 1000)))) (bg_Get table_badger d t k)),
      bgi_Key := (\<lambda>i. map_option (take 1000) (bgi_Key table_badger i)),
      bgi_ValueCopy := (\<lambda>i. map_sum id (map_option (take 1000)) (bgi_ValueCopy table_badger i))\<rparr>"

lemma short_take: "len (map_option (take 1000) v) < 2 ^ 31"
  by (cases v) (simp_all add: len_def)

lemma short_badger_plain: "plain_badger short_badger"
proof -
  have nil: "contents (normalizeValue k) = contents k" for k by (cases k) (auto simp: normalizeValue_def len_def)
  have "nil_as_empty table_badger" "nil_as_empty_seek short_badger"
    by (simp_all add: nil_as_empty_def nil_as_empty_seek_def short_badger_def table_badger_def table_write_def nil split_def)
  then have "nil_as_empty short_badger" "nil_as_empty_seek short_badger" by (simp_all add: nil_as_empty_def short_badger_def)
  moreover have "len v < 2 ^ 31" if "bg_Get short_badger d t k = (Inr (Inr v), t')" for d t k v t'
    using that short_take by (cases "bg_Get table_badger d t k") (auto simp: short_badger_def map_sum_def split: sum.splits)
  moreover have "len v < 2 ^ 31" if "bgi_ValueCopy short_badger i = Inr v" for i v
    using that short_take by (auto simp: short_badger_def map_sum_def split: sum.splits)
  moreover have "len (bgi_Key short_badger i) < 2 ^ 31" for i using short_take by (simp add: short_badger_def)
  ultimately show ?thesis by (simp add: plain_badger_def short_values_def short_entries_def)
qed

abbreviation "ffi_sample \<equiv> ffi_start (\<lambda>_. ffi_NewFrom ([], False)) :: (table_db, table_txn, table_iter) ffi_lib"

lemma sample_open:
  "ffi_NewDatastore short_badger ''db'' (bg_DefaultOptions short_badger ''db'') ffi_sample =
   (Inr \<lparr>fs_handle = 1, fs_closed = False\<rparr>, snd (ffi_NewDatastore short_badger ''db'' (bg_DefaultOptions short_badger ''db'') ffi_sample))"
  by (simp add: run_defs short_badger_def table_badger_def)

lemma sample_session:
  "ffi_session short_badger [CallSet (Some [1]) (Some [7]), CallGet (Some [1]), CallIterator DefaultIterOptions, CallNext, CallKey, CallNext]
     \<lparr>fs_handle = 1, fs_closed = False\<rparr>
     (None, snd (ffi_NewDatastore short_badger ''db'' (bg_DefaultOptions short_badger ''db'') ffi_sample)) =
   [Unit (Inr ()), Value (Inr (Some [7])), Unit (Inr ()), Bool (Inr True), Value (Inr (Some [1])), Bool (Inr False)]"
  by (simp add: run_defs short_badger_def table_badger_def DefaultIterOptions_def of_err_def)

theorem ffi_sessions_agree_witness:
  "\<exists>o' db. bg_Open short_badger o' = Inr db \<and>
    list_all2 (same_answer short_badger)
      [Unit (Inr ()), Value (Inr (Some [7])), Unit (Inr ()), Bool (Inr True), Value (Inr (Some [1])), Bool (Inr False)]
      (badger_session short_badger
        [CallSet (Some [1]) (Some [7]), CallGet (Some [1]), CallIterator DefaultIterOptions, CallNext, CallKey, CallNext]
        (None, badger_NewDatastoreFrom db))"
proof -
  have "plain_bounds DefaultIterOptions" by (simp add: plain_bounds_def DefaultIterOptions_def normalizeValue_def)
  then have small: "list_all small_call
      [CallSet (Some [1]) (Some [7]), CallGet (Some [1]), CallIterator DefaultIterOptions, CallNext, CallKey, CallNext]"
    by (simp add: len_def)
  from ffi_sessions_agree [OF sample_open short_badger_plain this] show ?thesis unfolding sample_session by simp
qed

subsection \<open>C memory\<close>

datatype bridge_call =
    BOpen string ffiOpenOptions
  | BClose u64
  | BDropAll u64
  | BNewTxn u64 bool
  | BGet u64 slice
  | BHas u64 slice
  | BSet u64 slice slice
  | BDelete u64 slice
  | BCommit u64
  | BDiscard u64
  | BIterator u64 IterOptions
  | BNext u64
  | BKey u64
  | BValue u64
  | BSeek u64 slice
  | BReset u64
  | BIterClose u64

fun bridge_run :: "('d, 't, 'i) badger_ops \<Rightarrow> bridge_call \<Rightarrow> ('d, 't, 'i) ffi_lib \<Rightarrow> ('d, 't, 'i) ffi_lib" where
  "bridge_run B (BOpen path opts) l = snd (ffiOpen B path opts l)"
| "bridge_run B (BClose h) l = snd (ffiDBClose B h l)"
| "bridge_run B (BDropAll h) l = snd (ffiDBDropAll B h l)"
| "bridge_run B (BNewTxn h ro) l = snd (ffiDBNewTxn B h ro l)"
| "bridge_run B (BGet h k) l = snd (ffiTxnGet B h k l)"
| "bridge_run B (BHas h k) l = snd (ffiTxnHas B h k l)"
| "bridge_run B (BSet h k v) l = snd (ffiTxnSet B h k v l)"
| "bridge_run B (BDelete h k) l = snd (ffiTxnDelete B h k l)"
| "bridge_run B (BCommit h) l = snd (ffiTxnCommit B h l)"
| "bridge_run B (BDiscard h) l = ffiTxnDiscard B h l"
| "bridge_run B (BIterator h opts) l = snd (ffiTxnIterator B h opts l)"
| "bridge_run B (BNext h) l = snd (ffiIterNext B h l)"
| "bridge_run B (BKey h) l = snd (ffiIterKey B h l)"
| "bridge_run B (BValue h) l = snd (ffiIterValue B h l)"
| "bridge_run B (BSeek h k) l = snd (ffiIterSeek B h k l)"
| "bridge_run B (BReset h) l = snd (ffiIterReset B h l)"
| "bridge_run B (BIterClose h) l = snd (ffiIterClose B h l)"

lemma bridge_tidy:
  assumes "fresh l" "go_lengths B"
  shows "tidy l (bridge_run B c l)"
  using assms
  by (cases c) (simp_all add: open_tidy db_calls_tidy get_tidy txn_calls_tidy discard_tidy iter_calls_tidy key_value_tidy iter_close_tidy)

lemma bridge_runs_tidy: "fresh l \<Longrightarrow> go_lengths B \<Longrightarrow> tidy l (fold (bridge_run B) cs l)"
proof (induction cs arbitrary: l)
  case (Cons c cs)
  then have "tidy l (bridge_run B c l)" by (simp add: bridge_tidy)
  with Cons tidy_fresh tidy_trans show ?case by fastforce
qed (simp add: tidy_def)

lemma short_lengths:
  assumes "short_values B" "short_entries B"
  shows "go_lengths B"
proof -
  have lift: "n < 2 ^ 31 \<Longrightarrow> n < 2 ^ 63" for n :: nat by simp
  show ?thesis using assms unfolding go_lengths_def short_values_def short_entries_def by (intro conjI allI impI; intro lift; blast)
qed

text \<open>
  C19.  No sequence of calls across the C interface leaks C memory or frees memory it does not
  own: whatever is called, with whatever handles, and whether the calls succeed or fail,
  every message and every byte string the library allocated has been freed, once, and what
  was allocated before is as it was.  Go slices are shorter than 2^63 bytes.
\<close>

theorem ffi_calls_free_memory:
  assumes "fresh l" "go_lengths B"
  shows "cheap (fold (bridge_run B) calls l) = cheap l \<and> bad_frees (fold (bridge_run B) calls l) = bad_frees l"
  using bridge_runs_tidy [OF assms] by (simp add: tidy_def)

theorem ffi_calls_free_memory_witness:
  "let l = fold (bridge_run short_badger) [BOpen ''db'' (compatOptions (bg_DefaultOptions short_badger ''db'')), BNewTxn 1 False,
     BSet 1 (Some [1]) (Some [7]), BGet 1 (Some [1]), BGet 9 (Some [1]), BDiscard 1] ffi_sample
   in cheap l = (\<lambda>_. None) \<and> bad_frees l = 0"
proof -
  have "go_lengths short_badger" using short_badger_plain by (intro short_lengths) (simp_all add: plain_badger_def)
  note free = ffi_calls_free_memory [OF fresh_start this]
  show ?thesis unfolding Let_def free [THEN conjunct1] free [THEN conjunct2] by (simp add: ffi_start_def)
qed

subsection \<open>Handles\<close>

datatype 'a handle_op = Add 'a | Put u64 'a | Delete u64

fun table_op :: "'a handle_op \<Rightarrow> 'a handleTable \<Rightarrow> u64 list \<times> 'a handleTable" where
  "table_op (Add v) t = (case ht_add v t of (h, t) \<Rightarrow> ([h], t))"
| "table_op (Put h v) t = ([], ht_put h v t)"
| "table_op (Delete h) t = ([], ht_delete h t)"

text \<open>The handles a sequence of operations hands out, and the table it leaves.\<close>

fun handed_out :: "'a handle_op list \<Rightarrow> 'a handleTable \<Rightarrow> u64 list" where
  "handed_out [] t = []"
| "handed_out (x # xs) t = (case table_op x t of (hs, t) \<Rightarrow> hs @ handed_out xs t)"

fun is_Add :: "'a handle_op \<Rightarrow> bool" where
  "is_Add (Add v) = True"
| "is_Add _ = False"

lemma table_op_next:
  "table_op x t = (if is_Add x then [ht_next t] else [], snd (table_op x t))"
  "ht_next (snd (table_op x t)) = (if is_Add x then ht_next t + 1 else ht_next t)"
  by (cases x; simp add: ht_add_def Let_def)+

lemma handed_out_range:
  assumes "unat (ht_next t) + length (filter is_Add xs) < 2 ^ 64"
  shows "map unat (handed_out xs t) = [unat (ht_next t) ..< unat (ht_next t) + length (filter is_Add xs)]"
  using assms
proof (induction xs arbitrary: t)
  case (Cons x xs)
  let ?t = "snd (table_op x t)"
  have "unat (ht_next ?t) = (if is_Add x then Suc (unat (ht_next t)) else unat (ht_next t))"
    using Cons.prems by (auto simp: table_op_next(2) unat_word_ariths)
  with Cons.IH [of ?t] Cons.prems show ?case
    by (subst handed_out.simps, subst table_op_next(1)) (auto simp: upt_conv_Cons simp del: upt_Suc)
qed simp

text \<open>
  C31.  As long as fewer than 2^64 - 1 objects are registered, a table of handles hands out
  1, 2, 3, ... in this order, whatever is stored or deleted in between: no handle is 0,
  which the Go side reads as no handle, and none is handed out twice.
\<close>

theorem handles_not_reused:
  assumes "length (filter is_Add ops) < 2 ^ 64 - 1"
  shows "handed_out ops newHandleTable = map word_of_nat [1 ..< Suc (length (filter is_Add ops))] \<and>
    distinct (handed_out ops newHandleTable) \<and> 0 \<notin> set (handed_out ops newHandleTable)"
proof -
  let ?hs = "handed_out ops newHandleTable" and ?N = "[1 ..< Suc (length (filter is_Add ops))]"
  have u: "map unat ?hs = ?N" using handed_out_range [of newHandleTable ops] assms by (simp add: newHandleTable_def)
  have "?hs = map word_of_nat (map unat ?hs)" by (simp add: comp_def map_idI)
  moreover have "distinct (map unat ?hs)" "unat 0 \<notin> set (map unat ?hs)" unfolding u by (simp_all del: upt_Suc)
  then have "distinct ?hs" "0 \<notin> set ?hs" unfolding distinct_map by (blast, metis image_eqI set_map)
  ultimately show ?thesis unfolding u by blast
qed

theorem handles_not_reused_witness:
  "handed_out [Add ''a'', Delete 1, Add ''b'', Put 2 ''c'', Add ''d''] newHandleTable = [1, 2, 3]"
  using handles_not_reused [of "[Add ''a'', Delete 1, Add ''b'', Put 2 ''c'', Add ''d'']"] by (simp add: upt_rec)

subsection \<open>Byte strings\<close>

lemma C_int_mod: "C_int (word_of_nat n) = C_int (word_of_nat (n mod 2 ^ 32))"
proof -
  have "C_int (word_of_nat (2 ^ 32 * q + k)) = C_int (word_of_nat k)" for q k
  proof (induction q)
    case (Suc q)
    have "C_int (word_of_nat (2 ^ 32 * Suc q + k)) = C_int (word_of_nat (2 ^ 32 + (2 ^ 32 * q + k)))" by (simp add: algebra_simps)
    also have "\<dots> = C_int (word_of_nat k)" unfolding C_int_wraps by (rule Suc)
    finally show ?case .
  qed simp
  from this [of "n div 2 ^ 32" "n mod 2 ^ 32"] show ?thesis by simp
qed

text \<open>
  C32.  What becomes of a byte string passed to the library: below 2^31 bytes it arrives whole
  (nil for an empty one); of a longer one the length is cut to 32 bits, and what arrives
  is a prefix of it, or the library panics when the cut length is negative.
\<close>

theorem bytes_across:
  assumes "0 < length b" "length b < 2 ^ 64"
  shows "cBytes (ffiBytesArg (Some b)) =
    (if 2 ^ 31 \<le> length b mod 2 ^ 32 then Inl (Panic ''gobytes: length out of range'') else Inr (Some (take (length b mod 2 ^ 32) b)))"
proof -
  have "(word_of_nat (length b) :: 64 word) \<noteq> 0" using assms word_of_nat_0_iff by simp
  then have call: "cBytes (ffiBytesArg (Some b)) = GoBytes b (C_int (word_of_nat (length b mod 2 ^ 32)))"
    using assms(1) C_int_mod [of "length b"] by (auto simp: cBytes_def ffiBytesArg_def len_def)
  show ?thesis
  proof (cases "2 ^ 31 \<le> length b mod 2 ^ 32")
    case True
    with C_int_negative [of "length b mod 2 ^ 32"] call show ?thesis by (simp add: GoBytes_def)
  next
    case False
    with C_int_small [of "length b mod 2 ^ 32"] call show ?thesis by (simp add: GoBytes_def)
  qed
qed

theorem bytes_across_witness:
  "cBytes (ffiBytesArg (Some [1, 2, 3])) = Inr (Some [1, 2, 3]) \<and>
   cBytes (ffiBytesArg (Some (replicate (2 ^ 31) 0))) = Inl (Panic ''gobytes: length out of range'')"
  using bytes_across [of "[1, 2, 3]"] bytes_across [of "replicate (2 ^ 31) 0"] by simp

subsection \<open>Errors\<close>

definition unwrapped :: "badger_error \<Rightarrow> bool" where
  "unwrapped e \<longleftrightarrow> (case e of badger_Wrapped _ _ \<Rightarrow> False | _ \<Rightarrow> True)"

text \<open>The message of an error survives as a C string, and is not taken for another error's.\<close>

definition own_message :: "('d, 't, 'i) badger_ops \<Rightarrow> badger_error \<Rightarrow> bool" where
  "own_message B e \<longleftrightarrow>
     bg_Error B e \<noteq> [] \<and> GoString (bg_Error B e) = bg_Error B e \<and>
     \<not> strings_Contains (bg_Error B e) (bg_Error B badger_ErrDBClosed) \<and>
     \<not> strings_Contains (bg_Error B e) (bg_Error B badger_ErrConflict)"

lemma ffi_mapped_badger:
  assumes "unwrapped e"
    and "e \<in> {badger_ErrKeyNotFound, badger_ErrEmptyKey, badger_ErrDiscardedTxn, badger_ErrDBClosed, badger_ErrConflict} \<or> own_message B e"
  shows "ffi_mapped B e = (if e = badger_ErrReadOnlyTxn then ErrReadOnlyTxn else badger_mapped B e)"
  using assms
  by (cases e) (auto simp: unwrapped_def own_message_def ffi_mapped_def StatusFromError_def badger_mapped_def badgerErrToKVErrMap_def)

text \<open>
  C33.  An error of badger that crosses the C interface, as the status and the message \<^verbatim>\<open>fail\<close>
  reports, is made by \<^verbatim>\<open>ffiStatusErr\<close> into the error of corekv that the store calling badger
  directly makes of it, and the message is freed.  This holds for an error that is not
  wrapped in another and that is one of the five both sides know, or else has a message that
  is not empty, has no NUL in it and does not contain the message of badger's ErrDBClosed or
  ErrConflict.  The exception is badger's ErrReadOnlyTxn, which only the C interface maps to
  corekv's.
\<close>

theorem ffi_errors_as_badger:
  assumes "fresh l" "unwrapped e"
    and "e \<in> {badger_ErrKeyNotFound, badger_ErrEmptyKey, badger_ErrDiscardedTxn, badger_ErrDBClosed, badger_ErrConflict} \<or> own_message B e"
  shows "\<exists>status p l1 l2. fail B e True l = (Inr (status, None, p), l1) \<and>
    ffiStatusErr status p l1 = (Some (if e = badger_ErrReadOnlyTxn then ErrReadOnlyTxn else badger_mapped B e), l2) \<and>
    cheap l2 = cheap l \<and> bad_frees l2 = bad_frees l"
proof -
  note report = ffiStatusErr_report [OF assms(1) StatusFromError_not_OK]
  have "status_error (StatusFromError B (Some e)) (bg_Error B e) =
      (if e = badger_ErrReadOnlyTxn then ErrReadOnlyTxn else badger_mapped B e)"
    using ffi_mapped_badger [OF assms(2,3)] by (simp add: ffi_mapped_def)
  with report [of B e "bg_Error B e"] show ?thesis by (simp add: fail_def failStatus_report)
qed

theorem ffi_errors_as_badger_witness:
  "(\<exists>status p l1 l2. fail table_badger badger_ErrConflict True ffi_sample = (Inr (status, None, p), l1) \<and>
     ffiStatusErr status p l1 = (Some ErrTxnConflict, l2)) \<and>
   (\<exists>status p l1 l2. fail table_badger (badger_Err ''disk full'') True ffi_sample = (Inr (status, None, p), l1) \<and>
     ffiStatusErr status p l1 = (Some (ErrForeign ''disk full''), l2))"
proof -
  have own: "own_message table_badger (badger_Err ''disk full'')"
    by (simp add: own_message_def table_badger_def GoString_def)
  have mapped: "badger_mapped table_badger badger_ErrConflict = ErrTxnConflict"
    "badger_mapped table_badger (badger_Err ''disk full'') = ErrForeign ''disk full''"
    by (simp_all add: badger_mapped_def badgerErrToKVErrMap_def table_badger_def)
  show ?thesis
    using ffi_errors_as_badger [OF fresh_start, of badger_ErrConflict table_badger]
      ffi_errors_as_badger [OF fresh_start, of "badger_Err ''disk full''" table_badger] own mapped
    by (simp add: unwrapped_def) blast
qed

text \<open>After a successful Close the store answers every call itself, without entering the library.\<close>

lemma ffi_closed_refuses:
  assumes "fs_Close B s l = (None, s', l')"
  shows "fs_Get B None s' k l' = (Inl ErrDBClosed, l')" "fs_Has B None s' k l' = (Inl ErrDBClosed, l')"
    "fs_Set B None s' k v l' = (Some errWritesBlocked, l')" "fs_Delete B None s' k l' = (Some errWritesBlocked, l')"
    "fs_Iterator B None s' opts l' = (Inl ErrDBClosed, l')" "fs_Close B s' l' = (None, s', l')"
proof -
  have "fs_closed s'" using assms by (auto simp: fs_Close_def split: if_splits prod.splits)
  then show "fs_Get B None s' k l' = (Inl ErrDBClosed, l')" "fs_Has B None s' k l' = (Inl ErrDBClosed, l')"
    "fs_Set B None s' k v l' = (Some errWritesBlocked, l')" "fs_Delete B None s' k l' = (Some errWritesBlocked, l')"
    "fs_Iterator B None s' opts l' = (Inl ErrDBClosed, l')" "fs_Close B s' l' = (None, s', l')"
    by (simp_all add: fs_Get_def fs_Has_def fs_Set_def fs_Delete_def fs_Iterator_def fs_Close_def fs_newTxn_def fx_Get_def
        fx_Has_def fx_Set_def fx_Delete_def fx_iterator_def fx_Discard_def ffiTxnDiscard_def closedTxnErr_def)
qed

text \<open>A transaction that was discarded has no handle left: it answers as one with a bad handle.\<close>

lemma ffi_discarded_txn_invalid:
  assumes "fresh l" "ht_get 0 (txnHandles l) = None" "fx_initErr txn = None"
  shows "fst (fx_Get B (fst (fx_Discard B txn l)) k (snd (fx_Discard B txn l))) = Inl (ErrForeign ''invalid handle'')"
proof -
  let ?l = "ffiTxnDiscard B (fx_handle txn) l"
  have "fresh ?l" using tidy_fresh [OF assms(1) discard_tidy] .
  moreover have "ht_get 0 (txnHandles ?l) = None"
    using assms(2) by (auto simp: ffiTxnDiscard_def badger_ffi_txn_discard_def ht_get_def ht_delete_def split: option.split prod.split)
  ultimately show ?thesis
    using assms(3) by (simp add: fx_Discard_def fx_Get_def ffiTxnGet_def badger_ffi_txn_get_def call_invalid)
qed

end
