(* ===== verification/Badger_Map.thy ===== *)
theory Badger_Map
  imports Badger_Props Namespace
begin

text \<open>
  The badger store as a map.  The locale \<open>badger_db\<close> adds to \<open>badger\<close> what badger documents of
  its transactions: one sees the pairs of the database at its start and its own writes, its
  commit makes these the pairs of the database.  Under it the store meets the contract
  \<open>kv_map\<close>, so that a namespace over it does too.
\<close>

text \<open>
  \<open>content\<close> are the pairs of a database, \<open>bopen\<close> says that it is open.  \<open>live d t\<close>: transaction \<open>t\<close>
  was begun on \<open>d\<close>, is not ended, and nothing has been committed since; \<open>writable\<close> ones may write.
  \<open>storable\<close> are the keys and values within badger's limits.
\<close>

locale badger_db = badger B snapshot brows rest iprefix backwards copied
  for B :: "('d, 't, 'i) badger_ops" and snapshot brows rest iprefix backwards copied +
  fixes content :: "'d \<Rightarrow> pair list"
    and bopen :: "'d \<Rightarrow> bool"
    and live :: "'d \<Rightarrow> 't \<Rightarrow> bool"
    and writable :: "'t \<Rightarrow> bool"
    and storable :: "slice \<Rightarrow> slice \<Rightarrow> bool"
  assumes begin_txn: "bopen d \<Longrightarrow> bg_NewTransaction B d w = (t, d') \<Longrightarrow>
      bopen d' \<and> content d' = content d \<and> live d' t \<and> (writable t \<longleftrightarrow> w) \<and> snapshot d' t = content d"
    and txn_reads: "live d t \<Longrightarrow> contents k \<noteq> [] \<Longrightarrow> bg_Get B d t k = (r, t') \<Longrightarrow>
      r = (case map_of (snapshot d t) (contents k) of None \<Rightarrow> Inl badger_ErrKeyNotFound | Some v \<Rightarrow> Inr (Inr (copied v)))"
    and txn_sets: "live d t \<Longrightarrow> writable t \<Longrightarrow> contents k \<noteq> [] \<Longrightarrow> storable k v \<Longrightarrow> bg_Set B d t k v = (e, t') \<Longrightarrow>
      e = None \<and> live d t' \<and> writable t' \<and> map_of (snapshot d t') = (map_of (snapshot d t))(contents k \<mapsto> contents v)"
    and txn_deletes: "live d t \<Longrightarrow> writable t \<Longrightarrow> contents k \<noteq> [] \<Longrightarrow> storable k None \<Longrightarrow> bg_Delete B d t k = (e, t') \<Longrightarrow>
      e = None \<and> live d t' \<and> writable t' \<and> map_of (snapshot d t') = (map_of (snapshot d t))(contents k := None)"
    and txn_commits: "bopen d \<Longrightarrow> live d t \<Longrightarrow> writable t \<Longrightarrow> bg_Commit B d t = (e, t', d') \<Longrightarrow>
      e = None \<and> bopen d' \<and> content d' = snapshot d t"
    and txn_discards: "bg_Discard B d t = (t', d') \<Longrightarrow> content d' = content d \<and> (bopen d' \<longleftrightarrow> bopen d)"
    and drops: "bopen d \<Longrightarrow> bg_DropAll B d = (e, d') \<Longrightarrow> e = None \<and> bopen d' \<and> content d' = []"
    and closes: "bopen d \<Longrightarrow> bg_Close B d = (e, d') \<Longrightarrow> e = None \<and> content d' = content d"

text \<open>The store behind the interface, with no transaction in the context.\<close>

definition badger_RW :: "('d, 't, 'i) badger_ops \<Rightarrow> ('d badger_Datastore, ('t, 'i) badger_iterator) ReaderWriter" where
  "badger_RW B =
     \<lparr>rw_Get = (\<lambda>d k. case bd_Get B None d k of (r, _, d') \<Rightarrow> Some (r, d')),
      rw_Has = (\<lambda>d k. case bd_Has B None d k of (r, _, d') \<Rightarrow> Some (r, d')),
      rw_Iterator = (\<lambda>d opts. bd_Iterator B None d opts),
      rw_Set = (\<lambda>d k v. case bd_Set B None d k v of (e, _, d') \<Rightarrow> Some (e, d')),
      rw_Delete = (\<lambda>d k. case bd_Delete B None d k of (e, _, d') \<Rightarrow> Some (e, d')),
      rw_it = badger_Iterator B\<rparr>"

definition bd_ok :: "('d \<Rightarrow> bool) \<Rightarrow> nat \<Rightarrow> 'd badger_Datastore \<Rightarrow> bool" where
  "bd_ok bopen n d \<longleftrightarrow> \<not> bd_closed d \<and> bopen (bd_db d)"

definition bd_view :: "('d \<Rightarrow> pair list) \<Rightarrow> (bytes \<Rightarrow> slice) \<Rightarrow> 'd badger_Datastore \<Rightarrow> bytes \<Rightarrow> slice option" where
  "bd_view content copied d k = map_option copied (map_of (content (bd_db d)) k)"

declare badger_RW_def [run_defs] bd_ok_def [run_defs] bd_view_def [run_defs]

context badger_db
begin

lemma new_txn:
  assumes "bd_ok bopen n d"
  obtains t d1 where "bd_newTxn B ro d = (t, d1)" "bd_ok bopen n d1" "live (bd_db d1) t" "writable t \<longleftrightarrow> \<not> ro"
    "snapshot (bd_db d1) t = content (bd_db d)" "content (bd_db d1) = content (bd_db d)"
proof -
  obtain t d' where t: "bg_NewTransaction B (bd_db d) (\<not> ro) = (t, d')" by fastforce
  with begin_txn [OF _ t] assms show thesis by (intro that [of t "d\<lparr>bd_db := d'\<rparr>"]) (auto simp: bd_ok_def bd_newTxn_def)
qed

lemma discarded:
  "bd_ok bopen n (snd (bt_Discard B t d)) = bd_ok bopen n d" "content (bd_db (snd (bt_Discard B t d))) = content (bd_db d)"
  using txn_discards [of "bd_db d" t] by (auto simp: bt_Discard_def bd_ok_def split: prod.splits)

lemma view_content: "content (bd_db d) = content (bd_db d') \<Longrightarrow> bd_view content copied d = bd_view content copied d'"
  by (simp add: bd_view_def fun_eq_iff)

lemma committed:
  assumes "bd_ok bopen n d" "live (bd_db d) t" "writable t" "bt_Commit B t d = (e, t', d')"
  shows "e = None" "bd_ok bopen n d'" "content (bd_db d') = snapshot (bd_db d) t"
  using txn_commits [of "bd_db d" t] assms by (auto simp: bt_Commit_def badgerErrToKVErr_def bd_ok_def split: prod.splits)

lemma badger_kv_map: "kv_map (badger_RW B) (bd_ok bopen) (bd_view content copied) storable (\<lambda>v. copied (contents v))"
proof
  fix n d k assume *: "bd_ok bopen n d" "contents k \<noteq> []"
  obtain t d1 where t: "bd_newTxn B True d = (t, d1)" "bd_ok bopen n d1" "live (bd_db d1) t"
    "snapshot (bd_db d1) t = content (bd_db d)" "content (bd_db d1) = content (bd_db d)" using new_txn [OF *(1)] by metis
  obtain r t' where r: "bg_Get B (bd_db d1) t k = (r, t')" by fastforce
  note r' = txn_reads [OF t(3) *(2) r]
  let ?d = "snd (bt_Discard B t' d1)"
  have d: "bd_ok bopen n ?d" "bd_view content copied ?d = bd_view content copied d"
    using t(2,5) view_content [of ?d d] by (simp_all add: discarded)
  show "\<exists>s'. rw_Get (badger_RW B) d k = Some (found (bd_view content copied d (contents k)), s') \<and> bd_ok bopen n s' \<and>
      bd_view content copied s' = bd_view content copied d"
    using t r r' d by (auto simp: badger_RW_def bd_Get_def bt_Get_def bd_view_def found_def case_prod_beta Let_def split: option.splits)
  show "\<exists>s'. rw_Has (badger_RW B) d k = Some (Inr (bd_view content copied d (contents k) \<noteq> None), s') \<and> bd_ok bopen n s' \<and>
      bd_view content copied s' = bd_view content copied d"
    using t r r' d by (auto simp: badger_RW_def bd_Has_def bt_Has_def bd_view_def found_def case_prod_beta Let_def split: option.splits)
next
  fix n d k v assume *: "bd_ok bopen (Suc n) d" "contents k \<noteq> []" "storable k v"
  obtain t d1 where t: "bd_newTxn B False d = (t, d1)" "bd_ok bopen (Suc n) d1" "live (bd_db d1) t" "writable t"
    "snapshot (bd_db d1) t = content (bd_db d)" using new_txn [OF *(1)] by metis
  obtain e t1 where w: "bg_Set B (bd_db d1) t k v = (e, t1)" by fastforce
  note w' = txn_sets [OF t(3,4) *(2,3) w]
  obtain e' t2 d2 where c: "bt_Commit B t1 d1 = (e', t2, d2)" using prod_cases3 by blast
  note c' = committed [OF t(2) _ _ c]
  from w' c' discarded(1) [where n = n and t = t2 and d = d2] discarded(2) [where t = t2 and d = d2] t(1,5) w c
  show "\<exists>s'. rw_Set (badger_RW B) d k v = Some (None, s') \<and> bd_ok bopen n s' \<and>
      bd_view content copied s' = (bd_view content copied d)(contents k := Some (copied (contents v)))"
    by (auto simp: badger_RW_def bd_Set_def bt_Set_def badgerErrToKVErr_def bd_view_def bd_ok_def fun_eq_iff case_prod_beta Let_def)
next
  fix n d k assume *: "bd_ok bopen (Suc n) d" "contents k \<noteq> []" "storable k None"
  obtain t d1 where t: "bd_newTxn B False d = (t, d1)" "bd_ok bopen (Suc n) d1" "live (bd_db d1) t" "writable t"
    "snapshot (bd_db d1) t = content (bd_db d)" using new_txn [OF *(1)] by metis
  obtain e t1 where w: "bg_Delete B (bd_db d1) t k = (e, t1)" by fastforce
  note w' = txn_deletes [OF t(3,4) *(2,3) w]
  obtain e' t2 d2 where c: "bt_Commit B t1 d1 = (e', t2, d2)" using prod_cases3 by blast
  note c' = committed [OF t(2) _ _ c]
  from w' c' discarded(1) [where n = n and t = t2 and d = d2] discarded(2) [where t = t2 and d = d2] t(1,5) w c
  show "\<exists>s'. rw_Delete (badger_RW B) d k = Some (None, s') \<and> bd_ok bopen n s' \<and>
      bd_view content copied s' = (bd_view content copied d)(contents k := None)"
    by (auto simp: badger_RW_def bd_Delete_def bt_Delete_def badgerErrToKVErr_def bd_view_def bd_ok_def fun_eq_iff case_prod_beta Let_def)
qed (simp add: bd_ok_def)

end

subsection \<open>Batches\<close>

text \<open>Writes through the methods of the store, with the transaction of the context if there is one.\<close>

fun bd_writes ::
  "('d, 't, 'i) badger_ops \<Rightarrow> 't option \<Rightarrow> 'd badger_Datastore \<Rightarrow> kv_write list \<Rightarrow>
   err \<times> 't option \<times> 'd badger_Datastore" where
  "bd_writes B ctx d [] = (None, ctx, d)"
| "bd_writes B ctx d (W_Set k v # ws) =
     (case bd_Set B ctx d k v of (Some e, ctx, d) \<Rightarrow> (Some e, ctx, d) | (None, ctx, d) \<Rightarrow> bd_writes B ctx d ws)"
| "bd_writes B ctx d (W_Delete k # ws) =
     (case bd_Delete B ctx d k of (Some e, ctx, d) \<Rightarrow> (Some e, ctx, d) | (None, ctx, d) \<Rightarrow> bd_writes B ctx d ws)"

context badger_db
begin

lemma txn_writes:
  assumes "live (bd_db d) t" "writable t" "list_all (allowed storable) ws"
  shows "\<exists>t'. bd_writes B (Some t) d ws = (None, Some t', d) \<and> live (bd_db d) t' \<and> writable t' \<and>
    map_of (snapshot (bd_db d) t') = batch contents ws (map_of (snapshot (bd_db d) t))"
  using assms
proof (induction ws arbitrary: t)
  case (Cons w ws)
  show ?case
  proof (cases w)
    case (W_Set k v)
    obtain e t1 where s: "bg_Set B (bd_db d) t k v = (e, t1)" by fastforce
    have t1: "e = None" "live (bd_db d) t1" "writable t1"
      "map_of (snapshot (bd_db d) t1) = (map_of (snapshot (bd_db d) t))(contents k \<mapsto> contents v)"
      using txn_sets [OF Cons.prems(1,2) _ _ s] Cons.prems(3) W_Set by auto
    from Cons.IH [OF t1(2,3)] Cons.prems(3) s t1(1) show ?thesis
      unfolding W_Set batch.simps t1(4) [symmetric] by (simp add: bd_Set_def bt_Set_def badgerErrToKVErr_def)
  next
    case (W_Delete k)
    obtain e t1 where s: "bg_Delete B (bd_db d) t k = (e, t1)" by fastforce
    have t1: "e = None" "live (bd_db d) t1" "writable t1"
      "map_of (snapshot (bd_db d) t1) = (map_of (snapshot (bd_db d) t))(contents k := None)"
      using txn_deletes [OF Cons.prems(1,2) _ _ s] Cons.prems(3) W_Delete by auto
    from Cons.IH [OF t1(2,3)] Cons.prems(3) s t1(1) show ?thesis
      unfolding W_Delete batch.simps t1(4) [symmetric] by (simp add: bd_Delete_def bt_Delete_def badgerErrToKVErr_def)
  qed
qed simp

lemma txn_gets:
  assumes "live (bd_db d) t" "contents k \<noteq> []"
  shows "fst (bd_Get B (Some t) d k) = found (map_option copied (map_of (snapshot (bd_db d) t) (contents k)))"
  using txn_reads [OF assms] by (cases "bg_Get B (bd_db d) t k") (auto simp: bd_Get_def bt_Get_def split: option.splits)

lemma store_gets:
  assumes "\<not> bd_closed d" "bopen (bd_db d)" "contents k \<noteq> []"
  shows "fst (bd_Get B None d k) = found (map_option copied (map_of (content (bd_db d)) (contents k)))"
  using kv_map.get [OF badger_kv_map, of 0 d k] assms by (auto simp: badger_RW_def bd_ok_def bd_view_def split: prod.splits)

end

text \<open>
  C13.  Writes through a transaction of the badger store are one batch: sets and deletes through
  the store's methods, with the transaction in the context, succeed; reads with it in the
  context see the writes in their order; reads without it see the store as it was; and after
  the commit, which succeeds when nothing else was committed meanwhile, every read sees the
  store with all of the writes.
\<close>

theorem badger_batch:
  assumes "badger_db B snapshot brows rest iprefix backwards copied content bopen live writable storable"
    and "\<not> bd_closed d" "bopen (bd_db d)" "list_all (allowed storable) ws" "contents k \<noteq> []"
    and "bd_newTxn B False d = (t, d0)"
  shows "\<exists>t1 t2 d1. bd_writes B (Some t) d0 ws = (None, Some t1, d0) \<and> bt_Commit B t1 d0 = (None, t2, d1) \<and>
    fst (bd_Get B (Some t1) d0 k) = found (map_option copied (batch contents ws (map_of (content (bd_db d))) (contents k))) \<and>
    fst (bd_Get B None d0 k) = found (map_option copied (map_of (content (bd_db d)) (contents k))) \<and>
    fst (bd_Get B None d1 k) = found (map_option copied (batch contents ws (map_of (content (bd_db d))) (contents k)))"
proof -
  note db = assms(1)
  have ok: "bd_ok bopen 0 d" using assms(2,3) by (simp add: bd_ok_def)
  obtain t' d' where n: "bd_newTxn B False d = (t', d')" "bd_ok bopen 0 d'" "live (bd_db d') t'" "writable t' \<longleftrightarrow> \<not> False"
    "snapshot (bd_db d') t' = content (bd_db d)" "content (bd_db d') = content (bd_db d)" using badger_db.new_txn [OF db ok] .
  with assms(6) have n: "bd_ok bopen 0 d0" "live (bd_db d0) t" "writable t" "snapshot (bd_db d0) t = content (bd_db d)"
    "content (bd_db d0) = content (bd_db d)" by auto
  obtain t1 where w: "bd_writes B (Some t) d0 ws = (None, Some t1, d0)" "live (bd_db d0) t1" "writable t1"
    "map_of (snapshot (bd_db d0) t1) = batch contents ws (map_of (content (bd_db d)))"
    using badger_db.txn_writes [OF db n(2,3) assms(4)] n(4) by auto
  obtain e t2 d1 where c: "bt_Commit B t1 d0 = (e, t2, d1)" using prod_cases3 by blast
  note c' = badger_db.committed [OF db n(1) w(2,3) c]
  have gets: "fst (bd_Get B None d k) = found (map_option copied (map_of (content (bd_db d)) (contents k)))" if "bd_ok bopen 0 d" for d
    using badger_db.store_gets [OF db _ _ assms(5), of d] that by (simp add: bd_ok_def)
  show ?thesis using w c c' n(5) gets [OF n(1)] gets [OF c'(2)] badger_db.txn_gets [OF db w(2) assms(5)] by simp
qed

subsection \<open>Tables\<close>

definition table_live :: "table_db \<Rightarrow> table_txn \<Rightarrow> bool" where
  "table_live db t \<longleftrightarrow> \<not> snd db \<and> \<not> snd (snd t)"

interpretation table_db: badger_db table_badger "\<lambda>db t. table (fst t)" fst "\<lambda>i. fst (snd i)" "\<lambda>i. fst (snd (snd i))"
    "\<lambda>i. snd (snd (snd i))" Some "\<lambda>db. table (fst db)" "\<lambda>db. \<not> snd db" table_live "\<lambda>t. fst (snd t)" "\<lambda>_ _. True"
  by unfold_locales
    (auto simp: table_badger_def table_live_def table_write_def len_0_iff table_ordered ordered_table_put ordered_table_del
      map_of_table_put map_of_table_del table_def [of "[]"] split: prod.splits option.splits if_splits)

interpretation table_badger_map: kv_map "badger_RW table_badger" "bd_ok (\<lambda>db. \<not> snd db)" "bd_view (\<lambda>db. table (fst db)) Some"
    "\<lambda>_ _. True" "\<lambda>v. Some (contents v)"
  by (rule table_db.badger_kv_map)

interpretation ns_table_badger: kv_map "Wrap (badger_RW table_badger) (Some [1])" "bd_ok (\<lambda>db. \<not> snd db)"
    "\<lambda>d k. bd_view (\<lambda>db. table (fst db)) Some d (contents (Some [1]) @ k)" "\<lambda>k v. True" "\<lambda>v. Some (contents v)"
  using table_badger_map.namespace_kv_map [of "Some [1]"] by simp

theorem badger_batch_witness:
  "\<exists>t1 t2 d1. bd_writes table_badger (Some ([([1], [7])], True, False)) (badger_NewDatastoreFrom ([([1], [7])], False))
      [W_Set (Some [2]) (Some [9]), W_Delete (Some [1])] = (None, Some t1, badger_NewDatastoreFrom ([([1], [7])], False)) \<and>
    bt_Commit table_badger t1 (badger_NewDatastoreFrom ([([1], [7])], False)) = (None, t2, d1) \<and>
    fst (bd_Get table_badger None (badger_NewDatastoreFrom ([([1], [7])], False)) (Some [1])) = Inr (Some [7]) \<and>
    fst (bd_Get table_badger None d1 (Some [1])) = Inl ErrNotFound"
  using badger_batch [OF table_db.badger_db_axioms, where d = "badger_NewDatastoreFrom ([([1], [7])], False)"
      and d0 = "badger_NewDatastoreFrom ([([1], [7])], False)" and t = "([([1], [7])], True, False)"
      and ws = "[W_Set (Some [2]) (Some [9]), W_Delete (Some [1])]" and k = "Some [1]"]
  by (auto simp: badger_NewDatastoreFrom_def bd_newTxn_def table_badger_def table_def)

end
