(* ===== verification/Ffi_Examples.thy ===== *)
theory Ffi_Examples
  imports Ffi_Session Badger_Map
begin

text \<open>
  The example programs of the library (\<^verbatim>\<open>badger_ffi/ffi/examples\<close>).  A run gets the command line
  and gives the error it returns, the lines it prints and the database it leaves behind; the
  main functions turn that into an exit code and a message.  Deferred calls are made, in
  reverse order, on every way out.
\<close>

definition example_path :: "string \<Rightarrow> string list \<Rightarrow> string" where
  "example_path fallback args = (if length args > 1 then args ! 1 else fallback)"

definition example_options :: "string \<Rightarrow> OpenOptions" where
  "example_options path =
     \<lparr>oo_Dir = path, oo_ValueDir = path, oo_InMemory = False, oo_EncryptionKey = None, oo_IndexCacheSize = 0,
      oo_ValueLogFileSize = 0\<rparr>"

text \<open>\<^verbatim>\<open>main\<close>: the exit code, standard output and standard error.\<close>

definition example_main ::
  "('d, 't, 'i) badger_ops \<Rightarrow> string \<Rightarrow> badger_error option \<times> string list \<times> 'd ffi_DB option \<Rightarrow> int \<times> string list \<times> string list" where
  "example_main B name r =
     (case r of
        (Some e, out, _) \<Rightarrow> (1, out, [name @ '' failed: '' @ bg_Error B e])
      | (None, out, _) \<Rightarrow> (0, out, []))"

text \<open>Writes one after the other, given up at the first error.\<close>

fun ft_sets ::
  "('d, 't, 'i) badger_ops \<Rightarrow> 't ffi_Txn \<Rightarrow> 'd ffi_DB \<Rightarrow> (slice \<times> slice) list \<Rightarrow> badger_error option \<times> 't ffi_Txn" where
  "ft_sets B txn db [] = (None, txn)"
| "ft_sets B txn db ((k, v) # ws) =
     (case ft_Set B txn db k v of (Some e, txn) \<Rightarrow> (Some e, txn) | (None, txn) \<Rightarrow> ft_sets B txn db ws)"

text \<open>
  The loop over an iterator that prints a line for every pair.  Whether it ends depends on the
  iterator.
\<close>

partial_function (option) print_loop ::
  "('d, 't, 'i) badger_ops \<Rightarrow> 'd ffi_DB \<Rightarrow> (slice \<Rightarrow> slice \<Rightarrow> string) \<Rightarrow> 'i ffi_Iterator \<Rightarrow> string list \<Rightarrow>
   (badger_error option \<times> string list \<times> 'i ffi_Iterator) option" where
  "print_loop B db line iter out =
     (case fi_Next B db iter of
        (Inl e, iter) \<Rightarrow> Some (Some e, out, iter)
      | (Inr hasNext, iter) \<Rightarrow>
          if \<not> hasNext then Some (None, out, iter)
          else (case fi_Value B iter of
                  Inl e \<Rightarrow> Some (Some e, out, iter)
                | Inr v \<Rightarrow> print_loop B db line iter (out @ [line (fi_Key B iter) v])))"

subsection \<open>\<^verbatim>\<open>save_disk\<close>\<close>

definition saved_pairs :: "(slice \<times> slice) list" where
  "saved_pairs =
     [(go_bytes ''cross/alpha'', go_bytes ''one''), (go_bytes ''cross/beta'', go_bytes ''two''), (go_bytes ''cross/empty'', None)]"

definition save_disk_run ::
  "('d, 't, 'i) badger_ops \<Rightarrow> string list \<Rightarrow> badger_error option \<times> string list \<times> 'd ffi_DB option" where
  "save_disk_run B args =
     (let path = example_path ''/tmp/badger-go-example'' args
      in case ffi_Open B (example_options path) of
           Inl e \<Rightarrow> (Some e, [], None)
         | Inr db \<Rightarrow>
             let (txn, db) = fdb_NewTxn B False 0 db;
                 (e, txn) = ft_sets B txn db saved_pairs;
                 (e, txn, db) = (if e \<noteq> None then (e, txn, db) else ft_Commit B txn db);
                 out = (if e \<noteq> None then []
                        else [''saved database at '' @ path, ''wrote cross/alpha=one'', ''wrote cross/beta=two'',
                              ''wrote cross/empty=<nil>'']);
                 (_, db) = ft_Discard B txn db;
                 (_, db) = fdb_Close B db
             in (e, out, Some db))"

subsection \<open>\<^verbatim>\<open>load_disk\<close>\<close>

definition load_line :: "slice \<Rightarrow> slice \<Rightarrow> string" where
  "load_line key value = (if value = None then go_string key @ ''=<nil>'' else go_string key @ ''='' @ go_string value)"

definition load_options :: IteratorOptions where
  "load_options =
     \<lparr>io_Prefix = go_bytes ''cross/'', io_Start = None, io_End = None, io_Reverse = False, io_KeysOnly = False\<rparr>"

definition load_disk_run ::
  "('d, 't, 'i) badger_ops \<Rightarrow> string list \<Rightarrow> (badger_error option \<times> string list \<times> 'd ffi_DB option) option" where
  "load_disk_run B args =
     (let path = example_path ''/tmp/badger-go-example'' args
      in case ffi_Open B (example_options path) of
           Inl e \<Rightarrow> Some (Some e, [], None)
         | Inr db \<Rightarrow>
             let (txn, db) = fdb_NewTxn B True 0 db;
                 leave = (\<lambda>(e, out). let (_, db) = ft_Discard B txn db; (_, db) = fdb_Close B db in (e, out, Some db))
             in case ft_Iterator B txn db load_options of
                  Inl e \<Rightarrow> Some (leave (Some e, []))
                | Inr iter \<Rightarrow>
                    map_option (\<lambda>(e, out, iter). let (_, _) = fi_Close B iter in leave (e, out))
                      (print_loop B db load_line iter [''loaded database at '' @ path]))"

subsection \<open>\<^verbatim>\<open>iter_bounds_reverse\<close>\<close>

definition seed_pairs :: "(slice \<times> slice) list" where
  "seed_pairs =
     [(go_bytes ''cross/010'', go_bytes ''ten''), (go_bytes ''cross/020'', go_bytes ''twenty''),
      (go_bytes ''cross/030'', go_bytes ''thirty''), (go_bytes ''cross/040'', go_bytes ''forty''),
      (go_bytes ''cross/050'', go_bytes ''fifty'')]"

definition seed :: "('d, 't, 'i) badger_ops \<Rightarrow> 'd ffi_DB \<Rightarrow> badger_error option \<times> 'd ffi_DB" where
  "seed B db =
     (let (txn, db) = fdb_NewTxn B False 0 db;
          (e, txn) = ft_sets B txn db seed_pairs;
          (e, txn, db) = (if e \<noteq> None then (e, txn, db) else ft_Commit B txn db);
          (_, db) = ft_Discard B txn db
      in (e, db))"

definition range_line :: "slice \<Rightarrow> slice \<Rightarrow> string" where
  "range_line key value = go_string key @ ''='' @ go_string value"

definition printRange ::
  "('d, 't, 'i) badger_ops \<Rightarrow> 't ffi_Txn \<Rightarrow> 'd ffi_DB \<Rightarrow> string \<Rightarrow> IteratorOptions \<Rightarrow> string list \<Rightarrow>
   (badger_error option \<times> string list) option" where
  "printRange B txn db label opts out =
     (case ft_Iterator B txn db opts of
        Inl e \<Rightarrow> Some (Some e, out)
      | Inr iter \<Rightarrow>
          map_option (\<lambda>(e, out, iter). let (_, _) = fi_Close B iter in (e, out))
            (print_loop B db range_line iter (out @ [label])))"

definition bounds_options :: "bool \<Rightarrow> IteratorOptions" where
  "bounds_options rvs =
     \<lparr>io_Prefix = None, io_Start = go_bytes ''cross/015'', io_End = go_bytes ''cross/045'', io_Reverse = rvs, io_KeysOnly = False\<rparr>"

definition iter_bounds_run ::
  "('d, 't, 'i) badger_ops \<Rightarrow> string list \<Rightarrow> (badger_error option \<times> string list \<times> 'd ffi_DB option) option" where
  "iter_bounds_run B args =
     (let path = example_path ''/tmp/badger-iter-example'' args;
          close = (\<lambda>e out db. let (_, db) = fdb_Close B db in (e, out, Some db))
      in case ffi_Open B (example_options path) of
           Inl e \<Rightarrow> Some (Some e, [], None)
         | Inr db \<Rightarrow>
             let (e, db) = fdb_DropAll B db
             in if e \<noteq> None then Some (close e [] db)
                else let (e, db) = seed B db
                in if e \<noteq> None then Some (close e [] db)
                else let (txn, db) = fdb_NewTxn B True 0 db;
                         leave = (\<lambda>(e, out). let (_, db) = ft_Discard B txn db in close e out db)
                     in Option.bind (printRange B txn db ''forward range [cross/015, cross/045)'' (bounds_options False)
                                       [''iterating database at '' @ path])
                          (\<lambda>(e, out).
                             if e \<noteq> None then Some (leave (e, out))
                             else map_option leave
                                    (printRange B txn db ''reverse range [cross/015, cross/045)'' (bounds_options True) out)))"

end
