(* ===== verification/Ffi_ExampleProps.thy ===== *)
theory Ffi_ExampleProps
  imports Ffi_Examples
begin

text \<open>
  What the example programs do, under what badger documents: what one saves the other loads,
  and a range is printed in both directions.
\<close>

subsection \<open>The loop\<close>

definition printed :: "(slice \<Rightarrow> slice \<Rightarrow> string) \<Rightarrow> entry \<Rightarrow> string" where
  "printed line e = line (fst e) (normalizeValue (snd e))"

lemma badger_value_normal: "badger_Value B (badger_of c it) = Inr v \<Longrightarrow> fi_Value B it = Inr (normalizeValue v)"
  by (auto simp: badger_Value_def fi_Value_def normalizeValue_def len_def split: if_splits sum.splits)

context badger
begin

lemma print_loop_prints:
  fixes d :: "'d badger_Datastore" and c :: "'t option"
  assumes "bits d (badger_of c it) L R" "\<not> fdb_closed db"
  shows "\<exists>it'. print_loop B db line it out = Some (None, out @ map (printed line) R, it')"
  using assms(1)
proof (induction R arbitrary: it out)
  case Nil
  have "\<not> bd_closed d" using Nil by (simp add: badger_iterates_def)
  moreover obtain b where "badger_Next B d (badger_of c it) = (Inr False, b)"
    using kv_iterator.next_end [OF badger_kv_iterator Nil] by (auto simp: badger_Iterator_def)
  ultimately have "\<not> fst (fi_next B it)" by (auto simp: badger_Next_def fi_next_badger split: prod.splits)
  with assms(2) show ?case by (subst print_loop.simps) (simp add: fi_Next_def case_prod_beta)
next
  case (Cons e R)
  obtain k v where e: "e = (k, v)" by (cases e)
  have open': "\<not> bd_closed d" using Cons.prems by (simp add: badger_iterates_def)
  obtain b where b: "badger_Next B d (badger_of c it) = (Inr True, b)" "badger_Key B b = k" "badger_Value B b = Inr v" "bits d b L R"
    using kv_iterator.next_entry [OF badger_kv_iterator Cons.prems [unfolded e]] by (auto simp: badger_Iterator_def)
  let ?it = "snd (fi_next B it)"
  have it: "fst (fi_next B it)" "b = badger_of c ?it"
    using b(1) open' by (auto simp: badger_Next_def fi_next_badger split: prod.splits)
  have line: "fi_Key B ?it = k" "fi_Value B ?it = Inr (normalizeValue v)"
    using b(2,3) it(2) badger_value_normal by (simp_all add: badger_Key_def fi_Key_def)
  have "print_loop B db line it out = print_loop B db line ?it (out @ [line k (normalizeValue v)])"
    using assms(2) it(1) line by (subst print_loop.simps) (simp add: fi_Next_def case_prod_beta)
  moreover obtain it' where "print_loop B db line ?it (out @ [line k (normalizeValue v)]) =
      Some (None, (out @ [line k (normalizeValue v)]) @ map (printed line) R, it')"
    using Cons.IH b(4) it(2) by blast
  ultimately show ?case by (simp add: e printed_def)
qed

end

definition ffi_iter_options :: "IteratorOptions \<Rightarrow> IterOptions" where
  "ffi_iter_options opts =
     \<lparr>Prefix = io_Prefix opts, Start = io_Start opts, End = io_End opts, Reverse = io_Reverse opts, KeysOnly = io_KeysOnly opts\<rparr>"

lemma ft_Iterator_badger:
  "bt_iterator B (ft_t txn) \<lparr>bd_db = fdb_db db, bd_closed = fdb_closed db\<rparr> (ffi_iter_options opts) = Inr b \<Longrightarrow>
   \<exists>it. ft_Iterator B txn db opts = Inr it \<and> b = badger_of None it"
  using new_iterators [where B = B and t = "ft_t txn" and d = "\<lparr>bd_db = fdb_db db, bd_closed = fdb_closed db\<rparr>" and a = "ft_db txn"
      and c = "fdb_closed db"]
  by (cases txn; cases db) (auto simp: ffi_iter_options_def ft_Iterator_def bt_iterator_def split: if_splits)

subsection \<open>Writing\<close>

definition fold_writes :: "(slice \<times> slice) list \<Rightarrow> (bytes \<Rightarrow> bytes option) \<Rightarrow> bytes \<Rightarrow> bytes option" where
  "fold_writes ws = batch contents (map (\<lambda>(k, v). W_Set k v) ws)"

lemma fold_writes_simps [simp]:
  "fold_writes [] m = m"
  "fold_writes ((k, v) # ws) m = fold_writes ws (m(contents k \<mapsto> contents v))"
  by (simp_all add: fold_writes_def)

context badger_db
begin

lemma ft_sets_ok:
  assumes "live (fdb_db db) (ft_t txn)" "writable (ft_t txn)" "list_all (\<lambda>(k, v). contents k \<noteq> [] \<and> storable k v) ws"
  shows "\<exists>txn'. ft_sets B txn db ws = (None, txn') \<and> live (fdb_db db) (ft_t txn') \<and> writable (ft_t txn') \<and>
    map_of (snapshot (fdb_db db) (ft_t txn')) = fold_writes ws (map_of (snapshot (fdb_db db) (ft_t txn)))"
  using assms
proof (induction ws arbitrary: txn)
  case (Cons w ws)
  obtain k v where w: "w = (k, v)" by (cases w)
  obtain e t where s: "bg_Set B (fdb_db db) (ft_t txn) k v = (e, t)" by fastforce
  have t: "e = None" "live (fdb_db db) t" "writable t"
    "map_of (snapshot (fdb_db db) t) = (map_of (snapshot (fdb_db db) (ft_t txn)))(contents k \<mapsto> contents v)"
    using txn_sets [OF Cons.prems(1,2) _ _ s] Cons.prems(3) w by auto
  from t(2,3) obtain txn' where "ft_sets B (txn\<lparr>ft_t := t\<rparr>) db ws = (None, txn')" "live (fdb_db db) (ft_t txn')" "writable (ft_t txn')"
    "map_of (snapshot (fdb_db db) (ft_t txn')) = fold_writes ws (map_of (snapshot (fdb_db db) t))"
    using Cons.IH [of "txn\<lparr>ft_t := t\<rparr>"] Cons.prems(3) w by auto
  with t s w show ?case unfolding w fold_writes_simps t(4) [symmetric] by (simp add: ft_Set_def)
qed simp

text \<open>A transaction that writes and commits, up to its discard.\<close>

lemma batch_ok:
  assumes "bopen (fdb_db db)" "list_all (\<lambda>(k, v). contents k \<noteq> [] \<and> storable k v) ws"
  obtains txn db1 txn1 txn2 db2 txn3 db3 where "fdb_NewTxn B False 0 db = (txn, db1)" "ft_sets B txn db1 ws = (None, txn1)"
    "ft_Commit B txn1 db1 = (None, txn2, db2)" "ft_Discard B txn2 db2 = (txn3, db3)" "bopen (fdb_db db3)"
    "fdb_closed db3 = fdb_closed db" "map_of (content (fdb_db db3)) = fold_writes ws (map_of (content (fdb_db db)))"
proof -
  obtain t d1 where t: "bg_NewTransaction B (fdb_db db) True = (t, d1)" by fastforce
  note t' = begin_txn [OF assms(1) t]
  let ?txn = "\<lparr>ft_t = t, ft_db = 0\<rparr>" and ?db1 = "db\<lparr>fdb_db := d1\<rparr>"
  obtain txn1 where s: "ft_sets B ?txn ?db1 ws = (None, txn1)" "live d1 (ft_t txn1)" "writable (ft_t txn1)"
    "map_of (snapshot d1 (ft_t txn1)) = fold_writes ws (map_of (content (fdb_db db)))"
    using ft_sets_ok [of ?db1 ?txn ws] t' assms(2) by auto
  obtain e t2 d2 where c: "bg_Commit B d1 (ft_t txn1) = (e, t2, d2)" using prod_cases3 by blast
  note c' = txn_commits [OF _ s(2,3) c]
  obtain t3 d3 where x: "bg_Discard B d2 t2 = (t3, d3)" by fastforce
  note x' = txn_discards [OF x]
  show thesis
    by (rule that [of ?txn ?db1 txn1 "txn1\<lparr>ft_t := t2\<rparr>" "db\<lparr>fdb_db := d2\<rparr>" "txn1\<lparr>ft_t := t3\<rparr>" "db\<lparr>fdb_db := d3\<rparr>"])
      (use t t' s c c' x x' in \<open>simp_all add: fdb_NewTxn_def ft_Commit_def ft_Discard_def\<close>)
qed

lemma reading_txn:
  assumes "bopen (fdb_db db)"
  obtains txn db1 where "fdb_NewTxn B True 0 db = (txn, db1)" "bopen (fdb_db db1)" "fdb_closed db1 = fdb_closed db"
    "snapshot (fdb_db db1) (ft_t txn) = content (fdb_db db)" "content (fdb_db db1) = content (fdb_db db)"
proof -
  obtain t d1 where t: "bg_NewTransaction B (fdb_db db) False = (t, d1)" by fastforce
  with begin_txn [OF assms t] show thesis
    by (intro that [of "\<lparr>ft_t = t, ft_db = 0\<rparr>" "db\<lparr>fdb_db := d1\<rparr>"]) (simp_all add: fdb_NewTxn_def)
qed

text \<open>An iterator of an open database prints the rows asked for.\<close>

lemma iterator_prints:
  assumes "\<not> fdb_closed db" "bounded_prefix (ffi_iter_options opts)" "\<not> (io_Prefix opts \<noteq> None \<and> io_Reverse opts)"
  shows "\<exists>it it'. ft_Iterator B txn db opts = Inr it \<and>
    print_loop B db line it out =
      Some (None, out @ map (printed line) (rows_asked (\<lambda>v. if io_KeysOnly opts then None else copied v) (ffi_iter_options opts)
        (snapshot (fdb_db db) (ft_t txn))), it')"
proof -
  let ?d = "\<lparr>bd_db = fdb_db db, bd_closed = fdb_closed db\<rparr>" and ?opts = "ffi_iter_options opts"
  let ?Es = "rows_asked (\<lambda>v. if io_KeysOnly opts then None else copied v) ?opts (snapshot (fdb_db db) (ft_t txn))"
  have "\<not> bd_closed ?d" using assms(1) by simp
  moreover have "contents (Prefix ?opts) \<noteq> [] \<Longrightarrow> Reverse ?opts \<Longrightarrow>
      map_of (snapshot (bd_db ?d) (ft_t txn)) (contents (bytesPrefixEnd (Prefix ?opts))) = None"
    using assms(3) by (cases "io_Prefix opts") (simp_all add: ffi_iter_options_def)
  ultimately obtain b where b: "bt_iterator B (ft_t txn) ?d ?opts = Inr b" "bits ?d b ?Es ?Es"
    using bt_iterator_rows [of ?d ?opts "ft_t txn"] assms(2) by (auto simp: ffi_iter_options_def)
  from ft_Iterator_badger [OF b(1)] obtain it where it: "ft_Iterator B txn db opts = Inr it" "b = badger_of None it" by blast
  with print_loop_prints [of ?d None it ?Es ?Es db line out] b(2) assms(1) show ?thesis by auto
qed

lemma content_ordered: "bopen d \<Longrightarrow> ordered (content d)"
  using begin_txn [of d True] snapshot_ordered by (metis prod.exhaust_sel)

lemma opened:
  assumes "\<And>opts. bg_Open B opts = Inr d"
  shows "ffi_Open B (example_options path) = Inr \<lparr>fdb_db = d, fdb_closed = False\<rparr>"
  using assms by (simp add: ffi_Open_def example_options_def Let_def)

text \<open>What the saving program leaves, and what the loading one shows of a database.\<close>

lemma save_disk_writes:
  assumes "\<And>opts. bg_Open B opts = Inr d" "bopen d" "list_all (\<lambda>(k, v). storable k v) saved_pairs"
  shows "\<exists>db. save_disk_run B args =
      (None, [''saved database at '' @ example_path ''/tmp/badger-go-example'' args, ''wrote cross/alpha=one'', ''wrote cross/beta=two'',
        ''wrote cross/empty=<nil>''], Some db) \<and> map_of (content (fdb_db db)) = fold_writes saved_pairs (map_of (content d))"
proof -
  let ?db = "\<lparr>fdb_db = d, fdb_closed = False\<rparr>"
  have pairs: "list_all (\<lambda>(k, v). contents k \<noteq> [] \<and> storable k v) saved_pairs"
    using assms(3) by (simp add: saved_pairs_def go_bytes_def)
  have open': "bopen (fdb_db ?db)" using assms(2) by simp
  obtain txn db1 txn1 txn2 db2 txn3 db3 where b: "fdb_NewTxn B False 0 ?db = (txn, db1)" "ft_sets B txn db1 saved_pairs = (None, txn1)"
    "ft_Commit B txn1 db1 = (None, txn2, db2)" "ft_Discard B txn2 db2 = (txn3, db3)" "bopen (fdb_db db3)"
    "fdb_closed db3 = fdb_closed ?db" "map_of (content (fdb_db db3)) = fold_writes saved_pairs (map_of (content (fdb_db ?db)))"
    using batch_ok [OF open' pairs] .
  obtain e d4 where c: "bg_Close B (fdb_db db3) = (e, d4)" by fastforce
  have "map_of (content d4) = fold_writes saved_pairs (map_of (content d))" using closes [OF b(5) c] b(7) by simp
  with b c opened [OF assms(1)] show ?thesis by (simp add: save_disk_run_def fdb_Close_def)
qed

lemma load_disk_prints:
  assumes "\<And>opts. bg_Open B opts = Inr d" "bopen d"
  shows "\<exists>db. load_disk_run B args =
      Some (None, (''loaded database at '' @ example_path ''/tmp/badger-go-example'' args) #
        map (printed load_line) (rows_asked copied (ffi_iter_options load_options) (content d)), Some db)"
proof -
  let ?db = "\<lparr>fdb_db = d, fdb_closed = False\<rparr>" and ?hd = "[''loaded database at '' @ example_path ''/tmp/badger-go-example'' args]"
  have "bopen (fdb_db ?db)" using assms(2) by simp
  then obtain txn db1 where "fdb_NewTxn B True 0 ?db = (txn, db1)" "fdb_closed db1 = fdb_closed ?db"
    "snapshot (fdb_db db1) (ft_t txn) = content (fdb_db ?db)" using reading_txn by blast
  then have t: "fdb_NewTxn B True 0 ?db = (txn, db1)" "\<not> fdb_closed db1" "snapshot (fdb_db db1) (ft_t txn) = content d" by simp_all
  have "bounded_prefix (ffi_iter_options load_options)" "\<not> (io_Prefix load_options \<noteq> None \<and> io_Reverse load_options)"
    by (simp_all add: bounded_prefix_def ffi_iter_options_def load_options_def go_bytes_def all_ff_def)
  from iterator_prints [OF t(2) this, of txn load_line ?hd] obtain it it' where "ft_Iterator B txn db1 load_options = Inr it"
    "print_loop B db1 load_line it ?hd =
       Some (None, ?hd @ map (printed load_line) (rows_asked copied (ffi_iter_options load_options) (content d)), it')"
    using t(3) by (auto simp: load_options_def)
  with t(1) opened [OF assms(1)] show ?thesis by (auto simp: load_disk_run_def Let_def split: prod.splits)
qed

text \<open>The seeded database, and a range of it.\<close>

lemma seed_writes:
  assumes "bopen (fdb_db db)" "list_all (\<lambda>(k, v). storable k v) seed_pairs"
  obtains db' where "seed B db = (None, db')" "bopen (fdb_db db')" "fdb_closed db' = fdb_closed db"
    "map_of (content (fdb_db db')) = fold_writes seed_pairs (map_of (content (fdb_db db)))"
proof -
  have pairs: "list_all (\<lambda>(k, v). contents k \<noteq> [] \<and> storable k v) seed_pairs"
    using assms(2) by (simp add: seed_pairs_def go_bytes_def)
  obtain txn db1 txn1 txn2 db2 txn3 db3 where b: "fdb_NewTxn B False 0 db = (txn, db1)" "ft_sets B txn db1 seed_pairs = (None, txn1)"
    "ft_Commit B txn1 db1 = (None, txn2, db2)" "ft_Discard B txn2 db2 = (txn3, db3)" "bopen (fdb_db db3)"
    "fdb_closed db3 = fdb_closed db" "map_of (content (fdb_db db3)) = fold_writes seed_pairs (map_of (content (fdb_db db)))"
    using batch_ok [OF assms(1) pairs] .
  show thesis by (rule that [OF _ b(5-7)]) (use b(1-4) in \<open>simp add: seed_def\<close>)
qed

lemma printRange_prints:
  assumes "\<not> fdb_closed db"
  shows "printRange B txn db label (bounds_options rvs) out =
    Some (None, out @ label # map (printed range_line)
      (rows_asked copied (ffi_iter_options (bounds_options rvs)) (snapshot (fdb_db db) (ft_t txn))))"
proof -
  have "bounded_prefix (ffi_iter_options (bounds_options rvs))" "\<not> (io_Prefix (bounds_options rvs) \<noteq> None \<and> io_Reverse (bounds_options rvs))"
    by (simp_all add: bounded_prefix_def ffi_iter_options_def bounds_options_def)
  from iterator_prints [OF assms this, of txn range_line "out @ [label]"] show ?thesis
    by (auto simp: bounds_options_def printRange_def split: prod.splits)
qed

lemma iter_bounds_prints:
  assumes "\<And>opts. bg_Open B opts = Inr d" "bopen d" "list_all (\<lambda>(k, v). storable k v) seed_pairs"
  shows "\<exists>db rs. iter_bounds_run B args =
      Some (None, [''iterating database at '' @ example_path ''/tmp/badger-iter-example'' args, ''forward range [cross/015, cross/045)''] @
        map (printed range_line) (rows_asked copied (ffi_iter_options (bounds_options False)) rs) @
        [''reverse range [cross/015, cross/045)''] @
        map (printed range_line) (rows_asked copied (ffi_iter_options (bounds_options True)) rs), Some db) \<and>
      ordered rs \<and> map_of rs = fold_writes seed_pairs Map.empty"
proof -
  let ?db = "\<lparr>fdb_db = d, fdb_closed = False\<rparr>"
  obtain e d1 where x: "bg_DropAll B d = (e, d1)" by fastforce
  note x' = drops [OF assms(2) x]
  let ?db1 = "\<lparr>fdb_db = d1, fdb_closed = False\<rparr>"
  have open1: "bopen (fdb_db ?db1)" using x' by simp
  obtain db2 where s: "seed B ?db1 = (None, db2)" "bopen (fdb_db db2)" "fdb_closed db2 = fdb_closed ?db1"
    "map_of (content (fdb_db db2)) = fold_writes seed_pairs (map_of (content (fdb_db ?db1)))" using seed_writes [OF open1 assms(3)] .
  obtain txn db3 where t: "fdb_NewTxn B True 0 db2 = (txn, db3)" "bopen (fdb_db db3)" "fdb_closed db3 = fdb_closed db2"
    "snapshot (fdb_db db3) (ft_t txn) = content (fdb_db db2)" "content (fdb_db db3) = content (fdb_db db2)"
    using reading_txn [OF s(2)] .
  have "\<not> fdb_closed db3" using s(3) t(3) by simp
  note prints = printRange_prints [OF this]
  have "ordered (content (fdb_db db2))" using snapshot_ordered [of "fdb_db db3" "ft_t txn"] t(4) by simp
  moreover have "map_of (content (fdb_db db2)) = fold_writes seed_pairs Map.empty" using s(4) x' by simp
  ultimately show ?thesis using x x' s(1) t(1,4) prints opened [OF assms(1)]
    by (intro exI conjI) (auto simp: iter_bounds_run_def fdb_DropAll_def case_prod_beta Let_def)
qed

end

lemma badger_db_reopened [simp]:
  "badger_db (B\<lparr>bg_Open := f\<rparr>) snapshot brows rest iprefix backwards copied content bopen live writable storable \<longleftrightarrow>
   badger_db B snapshot brows rest iprefix backwards copied content bopen live writable storable"
  unfolding badger_db_def badger_def badger_db_axioms_def by (cases B) (simp only: badger_ops.simps)

lemma printed_value: "contents (copied v) = v \<Longrightarrow> printed line (k, copied v) = line k (if v = [] then None else Some v)"
  by (cases "copied v") (auto simp: printed_def normalizeValue_def len_def)


subsection \<open>The programs\<close>

text \<open>The lines printed for the pairs the programs write.\<close>

lemma loaded_lines:
  assumes "ordered rs" "map_of rs = fold_writes saved_pairs Map.empty" "\<And>v. contents (copied v) = v"
  shows "map (printed load_line) (rows_asked copied (ffi_iter_options load_options) rs) =
    [''cross/alpha=one'', ''cross/beta=two'', ''cross/empty=<nil>'']"
proof -
  let ?rs = "map (\<lambda>(k, v). (contents k, contents v)) saved_pairs"
  have "ordered ?rs" by (simp add: saved_pairs_def go_bytes_def)
  moreover have "map_of ?rs = fold_writes saved_pairs Map.empty" by (auto simp: saved_pairs_def go_bytes_def)
  ultimately have "rs = ?rs" using ordered_unique [OF assms(1)] assms(2) by simp
  then show ?thesis
    by (simp add: rows_asked_def saved_pairs_def printed_value [where copied = copied, OF assms(3)] wanted_def ffi_iter_options_def load_options_def go_bytes_def
        load_line_def go_string_def char_of_def bit_0)
qed

lemma range_lines:
  assumes "ordered rs" "map_of rs = fold_writes seed_pairs Map.empty" "\<And>v. contents (copied v) = v"
  shows "map (printed range_line) (rows_asked copied (ffi_iter_options (bounds_options rvs)) rs) =
    (if rvs then rev else id) [''cross/020=twenty'', ''cross/030=thirty'', ''cross/040=forty'']"
proof -
  let ?rs = "map (\<lambda>(k, v). (contents k, contents v)) seed_pairs"
  have "ordered ?rs" by (simp add: seed_pairs_def go_bytes_def)
  moreover have "map_of ?rs = fold_writes seed_pairs Map.empty" by (auto simp: seed_pairs_def go_bytes_def)
  ultimately have "rs = ?rs" using ordered_unique [OF assms(1)] assms(2) by simp
  then show ?thesis
    by (simp add: rows_asked_def seed_pairs_def printed_value [where copied = copied, OF assms(3)] wanted_def ffi_iter_options_def bounds_options_def go_bytes_def
        range_line_def go_string_def char_of_def bit_0)
qed

text \<open>
  C36.  What \<^verbatim>\<open>save_disk\<close> saves, \<^verbatim>\<open>load_disk\<close> loads: on a fresh database the first reports its three
  pairs and no error; when the database it leaves is opened again, with the pairs it had,
  the second prints the three pairs in the order of their keys and no error, the pair with no
  value as such.
\<close>

theorem save_then_load:
  assumes "badger_db B snapshot brows rest iprefix backwards copied content bopen live writable storable"
    and "\<And>opts. bg_Open B opts = Inr d" "bopen d" "content d = []" "list_all (\<lambda>(k, v). storable k v) saved_pairs"
  shows "\<exists>db. save_disk_run B args =
      (None, [''saved database at '' @ example_path ''/tmp/badger-go-example'' args, ''wrote cross/alpha=one'', ''wrote cross/beta=two'',
        ''wrote cross/empty=<nil>''], Some db) \<and>
    (\<forall>d'. bopen d' \<and> content d' = content (fdb_db db) \<longrightarrow>
      (\<exists>db'. load_disk_run (B\<lparr>bg_Open := \<lambda>_. Inr d'\<rparr>) args =
        Some (None, [''loaded database at '' @ example_path ''/tmp/badger-go-example'' args, ''cross/alpha=one'', ''cross/beta=two'',
          ''cross/empty=<nil>''], Some db')))"
proof -
  note db = assms(1)
  obtain db1 where s: "save_disk_run B args =
      (None, [''saved database at '' @ example_path ''/tmp/badger-go-example'' args, ''wrote cross/alpha=one'', ''wrote cross/beta=two'',
        ''wrote cross/empty=<nil>''], Some db1)" "map_of (content (fdb_db db1)) = fold_writes saved_pairs (map_of (content d))"
    using badger_db.save_disk_writes [OF db assms(2,3,5)] by blast
  show ?thesis
  proof (rule exI [of _ db1], rule conjI [OF s(1)], intro allI impI)
    fix d' assume d': "bopen d' \<and> content d' = content (fdb_db db1)"
    let ?B = "B\<lparr>bg_Open := \<lambda>_. Inr d'\<rparr>"
    have again: "badger_db ?B snapshot brows rest iprefix backwards copied content bopen live writable storable" using db by simp
    have copied: "contents (copied v) = v" for v using badger.copied [OF badger_db.axioms(1) [OF db]] .
    have "bopen d'" "map_of (content d') = fold_writes saved_pairs Map.empty" using d' s(2) assms(4) by simp_all
    note lines = loaded_lines [where copied = copied, OF badger_db.content_ordered [OF db this(1)] this(2) copied]
    with badger_db.load_disk_prints [OF again, of d' args] d'
    show "\<exists>db'. load_disk_run ?B args =
        Some (None, [''loaded database at '' @ example_path ''/tmp/badger-go-example'' args, ''cross/alpha=one'', ''cross/beta=two'',
          ''cross/empty=<nil>''], Some db')" by simp
  qed
qed

theorem save_then_load_witness:
  "\<exists>db. save_disk_run table_badger [] =
      (None, [''saved database at /tmp/badger-go-example'', ''wrote cross/alpha=one'', ''wrote cross/beta=two'',
        ''wrote cross/empty=<nil>''], Some db) \<and>
    (\<exists>db'. load_disk_run (table_badger\<lparr>bg_Open := \<lambda>_. Inr (fst (fdb_db db), False)\<rparr>) [] =
        Some (None, [''loaded database at /tmp/badger-go-example'', ''cross/alpha=one'', ''cross/beta=two'', ''cross/empty=<nil>''], Some db'))"
proof -
  have "bg_Open table_badger opts = Inr ([], False)" for opts by (simp add: table_badger_def)
  moreover have "\<not> snd ([] :: pair list, False)" "table (fst ([] :: pair list, False)) = []"
    "list_all (\<lambda>(k, v). True) saved_pairs" by (simp_all add: table_def saved_pairs_def)
  ultimately obtain db where
    "save_disk_run table_badger [] =
      (None, [''saved database at '' @ example_path ''/tmp/badger-go-example'' [], ''wrote cross/alpha=one'', ''wrote cross/beta=two'',
        ''wrote cross/empty=<nil>''], Some db)"
    "\<forall>d'. \<not> snd d' \<and> table (fst d') = table (fst (fdb_db db)) \<longrightarrow>
      (\<exists>db'. load_disk_run (table_badger\<lparr>bg_Open := \<lambda>_. Inr d'\<rparr>) [] =
        Some (None, [''loaded database at '' @ example_path ''/tmp/badger-go-example'' [], ''cross/alpha=one'', ''cross/beta=two'',
          ''cross/empty=<nil>''], Some db'))"
    using save_then_load [OF table_db.badger_db_axioms, of "([], False)" "[]"] by blast
  from this(1) this(2) [rule_format, of "(fst (fdb_db db), False)"] show ?thesis
    by (intro exI [of _ db]) (simp add: example_path_def)
qed

text \<open>
  C37.  \<^verbatim>\<open>iter_bounds_reverse\<close> prints the range it asks for in both directions: whatever the database
  held before, it drops that, seeds five pairs, and prints the three of them from the lower
  bound up to the upper bound, which is not part of the range, in ascending and then in
  descending order, with no error.
\<close>

theorem iter_bounds_example:
  assumes "badger_db B snapshot brows rest iprefix backwards copied content bopen live writable storable"
    and "\<And>opts. bg_Open B opts = Inr d" "bopen d" "list_all (\<lambda>(k, v). storable k v) seed_pairs"
  shows "\<exists>db. iter_bounds_run B args =
    Some (None, [''iterating database at '' @ example_path ''/tmp/badger-iter-example'' args,
      ''forward range [cross/015, cross/045)'', ''cross/020=twenty'', ''cross/030=thirty'', ''cross/040=forty'',
      ''reverse range [cross/015, cross/045)'', ''cross/040=forty'', ''cross/030=thirty'', ''cross/020=twenty''], Some db)"
proof -
  have copied: "contents (copied v) = v" for v using badger.copied [OF badger_db.axioms(1) [OF assms(1)]] .
  from badger_db.iter_bounds_prints [OF assms] obtain db rs where "iter_bounds_run B args =
      Some (None, [''iterating database at '' @ example_path ''/tmp/badger-iter-example'' args, ''forward range [cross/015, cross/045)''] @
        map (printed range_line) (rows_asked copied (ffi_iter_options (bounds_options False)) rs) @
        [''reverse range [cross/015, cross/045)''] @
        map (printed range_line) (rows_asked copied (ffi_iter_options (bounds_options True)) rs), Some db)"
      "ordered rs" "map_of rs = fold_writes seed_pairs Map.empty" by blast
  with range_lines [OF this(2,3) copied] show ?thesis by simp
qed

theorem iter_bounds_example_witness:
  "\<exists>db. iter_bounds_run table_badger [''run'', ''/data''] =
    Some (None, [''iterating database at /data'', ''forward range [cross/015, cross/045)'', ''cross/020=twenty'', ''cross/030=thirty'',
      ''cross/040=forty'', ''reverse range [cross/015, cross/045)'', ''cross/040=forty'', ''cross/030=thirty'', ''cross/020=twenty''],
      Some db)"
  using iter_bounds_example [OF table_db.badger_db_axioms, of "([], False)" "[''run'', ''/data'']"]
  by (simp add: table_badger_def seed_pairs_def example_path_def)

end
