(* ===== verification/Harness.thy ===== *)
theory Harness
  imports Iface
begin

text \<open>
  The test harness (\<^verbatim>\<open>test/\<close>) up to the execution of a test: the actions a test consists of,
  the multipliers that rewrite them (\<^verbatim>\<open>test/multiplier\<close>) and the assembly of a test
  (\<^verbatim>\<open>test/integration/test.go\<close>).  An interface value may be nil, so lists of actions have
  optional elements.  Go arrays that are filled by index are lists of a fixed length; an
  index out of range is a panic.
\<close>

subsection \<open>Actions\<close>

datatype IteratorAction =
    SeekTo slice bool string
  | MoveNext bool string
  | IteratorValue slice
  | IteratorReset
  | IteratorCloseRoot string

text \<open>
  \<^verbatim>\<open>TxnAction[T]\<close> and \<^verbatim>\<open>TxnCtxAction[T]\<close> are generic: the type argument is the interface \<^verbatim>\<open>Action\<close>
  or the type of one action, and type switches tell them apart.
\<close>

datatype type_arg = Interface | Concrete

datatype action =
    NewStore
  | NewMemoryStore
  | NewBadgerStore
  | NewLevelStore
  | CancelCtx
  | CloseStore string
  | SetValue slice slice string
  | DeleteValue slice string
  | GetValue slice slice string
  | HasValue slice bool string
  | Iterate IterOptions "(slice \<times> slice) list option" string
  | IteratorOver IterOptions "IteratorAction list"
  | DropAllItems
  | NamespaceStore slice
  | ChunkStore int
  | TxnAction type_arg int "action option"
  | TxnCtxAction type_arg int "action option"
  | CreateNewTxn int bool
  | DiscardTxn int
  | CommitTxn int

type_synonym Actions = "action option list"

text \<open>
  The generic constructors; the first argument is the type argument Go infers, the static
  type of the action: \<open>Interface\<close> for a variable of type \<^verbatim>\<open>Action\<close>, \<open>Concrete\<close> for an expression
  such as \<^verbatim>\<open>&action.Iterate{...}\<close>.
\<close>

definition WithTxn :: "type_arg \<Rightarrow> action option \<Rightarrow> action option" where
  "WithTxn T a = Some (TxnAction T 0 a)"

definition WithTxnI :: "type_arg \<Rightarrow> action option \<Rightarrow> int \<Rightarrow> action option" where
  "WithTxnI T a txnID = Some (TxnAction T txnID a)"

definition WithTxnCtx :: "type_arg \<Rightarrow> action option \<Rightarrow> int \<Rightarrow> action option" where
  "WithTxnCtx T a txnID = Some (TxnCtxAction T txnID a)"

definition action_NewTxn :: "action option" where
  "action_NewTxn = Some (CreateNewTxn 0 False)"

definition NewTxnI :: "int \<Rightarrow> action option" where
  "NewTxnI i = Some (CreateNewTxn i False)"

definition Discard :: "action option" where
  "Discard = Some (DiscardTxn 0)"

definition DiscardI :: "int \<Rightarrow> action option" where
  "DiscardI i = Some (DiscardTxn i)"

definition Commit :: "action option" where
  "Commit = Some (CommitTxn 0)"

definition Iterate_nothing :: "action option" where
  "Iterate_nothing = Some (Iterate DefaultIterOptions (Some []) '''')"

text \<open>The cases of the type switches.\<close>

fun creates_store :: "action option \<Rightarrow> bool" where
  "creates_store (Some NewStore) = True"
| "creates_store (Some NewBadgerStore) = True"
| "creates_store (Some NewMemoryStore) = True"
| "creates_store (Some NewLevelStore) = True"
| "creates_store a = False"

fun closes_store :: "action option \<Rightarrow> bool" where
  "closes_store (Some CancelCtx) = True"
| "closes_store (Some (CloseStore e)) = True"
| "closes_store a = False"

fun wraps_store :: "action option \<Rightarrow> bool" where
  "wraps_store (Some (NamespaceStore ns)) = True"
| "wraps_store (Some (ChunkStore n)) = True"
| "wraps_store a = False"

fun reads_store :: "action option \<Rightarrow> bool" where
  "reads_store (Some (GetValue k v e)) = True"
| "reads_store (Some (HasValue k v e)) = True"
| "reads_store (Some (Iterate opts L e)) = True"
| "reads_store (Some (IteratorOver opts cs)) = True"
| "reads_store a = False"

fun writes_store :: "action option \<Rightarrow> bool" where
  "writes_store (Some (DeleteValue k e)) = True"
| "writes_store (Some (SetValue k v e)) = True"
| "writes_store a = False"

fun closes_root :: "IteratorAction \<Rightarrow> bool" where
  "closes_root (IteratorCloseRoot e) = True"
| "closes_root a = False"

fun iterator_closes :: "action option \<Rightarrow> bool" where
  "iterator_closes (Some (IteratorOver opts childActions)) = list_ex closes_root childActions"
| "iterator_closes a = False"

fun creates_txn :: "action option \<Rightarrow> bool" where
  "creates_txn (Some (CreateNewTxn i ro)) = True"
| "creates_txn a = False"

subsection \<open>Loops over arrays\<close>

definition put :: "'a list \<Rightarrow> nat \<Rightarrow> 'a \<Rightarrow> 'a list res" where
  "put r i x = (if i < length r then Inr (r[i := x]) else Inl (Panic ''index out of range''))"

fun puts :: "'a list \<Rightarrow> nat \<Rightarrow> 'a list \<Rightarrow> 'a list res" where
  "puts r i [] = Inr r"
| "puts r i (x # xs) = (case put r i x of Inl e \<Rightarrow> Inl e | Inr r \<Rightarrow> puts r (Suc i) xs)"

text \<open>\<^verbatim>\<open>for i, a := range\<close> with a body that may panic.\<close>

fun each :: "(nat \<Rightarrow> 'a \<Rightarrow> 's \<Rightarrow> 's res) \<Rightarrow> nat \<Rightarrow> 'a list \<Rightarrow> 's \<Rightarrow> 's res" where
  "each f i [] s = Inr s"
| "each f i (a # as) s = (case f i a s of Inl e \<Rightarrow> Inl e | Inr s \<Rightarrow> each f (Suc i) as s)"

definition counted :: "nat \<Rightarrow> Actions res \<Rightarrow> (Actions \<times> nat) res" where
  "counted indexOffset r = map_sum id (\<lambda>r. (r, indexOffset)) r"

subsection \<open>Store multipliers\<close>

definition store_Apply :: "action \<Rightarrow> Actions \<Rightarrow> Actions" where
  "store_Apply new source = map (\<lambda>a. if a = Some NewStore then Some new else a) source"

definition badger_Apply :: "Actions \<Rightarrow> Actions res" where
  "badger_Apply source = Inr (store_Apply NewBadgerStore source)"

definition memory_Apply :: "Actions \<Rightarrow> Actions res" where
  "memory_Apply source = Inr (store_Apply NewMemoryStore source)"

definition level_Apply :: "Actions \<Rightarrow> Actions res" where
  "level_Apply source = Inr (store_Apply NewLevelStore source)"

subsection \<open>Wrapper multipliers\<close>

fun last_store_index :: "nat \<Rightarrow> Actions \<Rightarrow> nat \<Rightarrow> nat" where
  "last_store_index i [] j = j"
| "last_store_index i (a # source) j = last_store_index (Suc i) source (if creates_store a then i else j)"

definition wrap_step :: "nat \<Rightarrow> action option \<Rightarrow> nat \<Rightarrow> action option \<Rightarrow> Actions \<times> nat \<Rightarrow> (Actions \<times> nat) res" where
  "wrap_step lastStoreWrappingIndex wrapper i a = (\<lambda>(result, offset).
     if i = lastStoreWrappingIndex then counted (offset + 1) (puts result (i + offset) [a, wrapper])
     else counted offset (puts result (i + offset) [a]))"

definition wrap_Apply :: "action option \<Rightarrow> Actions \<Rightarrow> Actions res" where
  "wrap_Apply wrapper source =
     map_sum id fst (each (wrap_step (last_store_index 0 source 0) wrapper) 0 source (replicate (length source + 1) None, 0))"

definition chunk_Apply :: "Actions \<Rightarrow> Actions res" where
  "chunk_Apply source = wrap_Apply (Some (ChunkStore 1)) source"

definition namespace_Apply :: "Actions \<Rightarrow> Actions res" where
  "namespace_Apply source = wrap_Apply (Some (NamespaceStore (go_bytes ''/example''))) source"

subsection \<open>Transaction multipliers\<close>

text \<open>
  The loop the three begin with: the index of the last action that creates a store and of
  the first that closes it, or \<open>None\<close> when there are transactions already.
\<close>

fun txn_scan :: "nat \<Rightarrow> Actions \<Rightarrow> nat \<Rightarrow> nat \<Rightarrow> (nat \<times> nat) option" where
  "txn_scan i [] lastCreateStoreIndex firstCloseIndex = Some (lastCreateStoreIndex, firstCloseIndex)"
| "txn_scan i (a # source) lastCreateStoreIndex firstCloseIndex =
     (if creates_store a then txn_scan (Suc i) source i firstCloseIndex
      else if closes_store a then txn_scan (Suc i) source lastCreateStoreIndex (if firstCloseIndex = 0 then i else firstCloseIndex)
      else if iterator_closes a then txn_scan (Suc i) source lastCreateStoreIndex i
      else if creates_txn a then None
      else txn_scan (Suc i) source lastCreateStoreIndex firstCloseIndex)"

text \<open>\<^verbatim>\<open>txn-commit\<close>: its second loop collects the new actions and those to repeat, the third fills the result.\<close>

definition commit_collect :: "nat \<Rightarrow> nat \<Rightarrow> nat \<Rightarrow> action option \<Rightarrow> Actions \<times> Actions \<Rightarrow> (Actions \<times> Actions) res" where
  "commit_collect lastCreateStoreIndex firstCloseIndex i a = (\<lambda>(newActions, postCommitActions).
     if wraps_store a \<and> i < lastCreateStoreIndex then Inl (Panic ''TODO'')
     else if creates_store a \<or> closes_store a then Inr (newActions @ [a], postCommitActions)
     else let postCommitActions =
                (if reads_store a then if firstCloseIndex = 0 then postCommitActions @ [a] else postCommitActions
                 else if writes_store a then [] else postCommitActions)
          in Inr (newActions @ [if lastCreateStoreIndex < i \<and> i < firstCloseIndex then WithTxn Interface a else a], postCommitActions))"

definition commit_step ::
  "nat \<Rightarrow> nat \<Rightarrow> Actions \<Rightarrow> nat \<Rightarrow> action option \<Rightarrow> Actions \<times> nat \<Rightarrow> (Actions \<times> nat) res" where
  "commit_step lastCreateStoreIndex firstCloseIndex postCommitActions i a = (\<lambda>(result, indexOffset).
     if i = lastCreateStoreIndex then counted (indexOffset + 1) (puts result (i + indexOffset) [a, action_NewTxn])
     else if i = firstCloseIndex
     then counted (indexOffset + 1 + length postCommitActions) (puts result (i + indexOffset) (Commit # postCommitActions @ [a]))
     else counted indexOffset (puts result (i + indexOffset) [a]))"

definition txnCommit_Apply :: "Actions \<Rightarrow> Actions res" where
  "txnCommit_Apply source =
     (case txn_scan 0 source 0 0 of
        None \<Rightarrow> Inr source
      | Some (lastCreateStoreIndex, firstCloseIndex) \<Rightarrow>
          (case each (commit_collect lastCreateStoreIndex firstCloseIndex) 0 source ([], []) of
             Inl e \<Rightarrow> Inl e
           | Inr (newActions, postCommitActions) \<Rightarrow>
               map_sum id fst (each (commit_step lastCreateStoreIndex firstCloseIndex postCommitActions) 0 newActions
                 (replicate (length newActions + 2 + length postCommitActions) None, 0))))"

text \<open>\<^verbatim>\<open>txn-discard\<close>.\<close>

definition discard_step :: "nat \<Rightarrow> nat \<Rightarrow> nat \<Rightarrow> action option \<Rightarrow> Actions \<times> nat \<Rightarrow> (Actions \<times> nat) res" where
  "discard_step lastCreateStoreIndex firstCloseIndex i a = (\<lambda>(result, indexOffset).
     if creates_store a
     then if i = lastCreateStoreIndex then counted (indexOffset + 1) (puts result (i + indexOffset) [a, action_NewTxn])
          else counted indexOffset (puts result (i + indexOffset) [a])
     else let a' = (if lastCreateStoreIndex < i \<and> i < firstCloseIndex then WithTxn Interface a else a)
          in if i = firstCloseIndex
             then counted (indexOffset + 2) (puts result (i + indexOffset) [Discard, Iterate_nothing, a'])
             else counted indexOffset (puts result (i + indexOffset) [a']))"

definition txnDiscard_Apply :: "Actions \<Rightarrow> Actions res" where
  "txnDiscard_Apply source =
     (case txn_scan 0 source 0 0 of
        None \<Rightarrow> Inr source
      | Some (lastCreateStoreIndex, firstCloseIndex) \<Rightarrow>
          map_sum id fst (each (discard_step lastCreateStoreIndex firstCloseIndex) 0 source (replicate (length source + 3) None, 0)))"

text \<open>\<^verbatim>\<open>txn-multi\<close>: three actions are put before the closing one, but the offset grows by two.\<close>

definition multi_step :: "nat \<Rightarrow> nat \<Rightarrow> nat \<Rightarrow> action option \<Rightarrow> Actions \<times> nat \<Rightarrow> (Actions \<times> nat) res" where
  "multi_step lastCreateStoreIndex firstCloseIndex i a = (\<lambda>(result, indexOffset).
     if creates_store a
     then if i = lastCreateStoreIndex then counted (indexOffset + 2) (puts result (i + indexOffset) [a, NewTxnI 0, NewTxnI 1])
          else counted indexOffset (puts result (i + indexOffset) [a])
     else let a' = (if lastCreateStoreIndex < i \<and> i < firstCloseIndex then WithTxnI Interface a 0 else a)
          in if i = firstCloseIndex
             then (case puts result (i + indexOffset) [WithTxnI Concrete Iterate_nothing 1, DiscardI 0, DiscardI 1] of
                     Inl e \<Rightarrow> Inl e
                   | Inr result \<Rightarrow> counted (indexOffset + 2) (puts result (i + (indexOffset + 2)) [a']))
             else counted indexOffset (puts result (i + indexOffset) [a']))"

definition txnMulti_Apply :: "Actions \<Rightarrow> Actions res" where
  "txnMulti_Apply source =
     (case txn_scan 0 source 0 0 of
        None \<Rightarrow> Inr source
      | Some (lastCreateStoreIndex, firstCloseIndex) \<Rightarrow>
          map_sum id fst (each (multi_step lastCreateStoreIndex firstCloseIndex) 0 source (replicate (length source + 4) None, 0)))"

text \<open>\<^verbatim>\<open>txn-context\<close>: the type switch names the instance at the interface only.\<close>

fun to_ctx :: "action option \<Rightarrow> action option" where
  "to_ctx (Some (TxnAction Interface txnID a)) = WithTxnCtx Interface a txnID"
| "to_ctx a = a"

definition txnContext_Apply :: "Actions \<Rightarrow> Actions res" where
  "txnContext_Apply source = Inr (map to_ctx source)"

subsection \<open>The multiplier engine\<close>

record Multiplier =
  mName :: string
  mApply :: "Actions \<Rightarrow> Actions res"

text \<open>The registrations of the \<^verbatim>\<open>init\<close> functions, which run in the order of the file names.\<close>

definition availableMultipliers :: "Multiplier list" where
  "availableMultipliers =
     [\<lparr>mName = ''chunk'', mApply = chunk_Apply\<rparr>, \<lparr>mName = ''namespace'', mApply = namespace_Apply\<rparr>,
      \<lparr>mName = ''badger'', mApply = badger_Apply\<rparr>, \<lparr>mName = ''memory'', mApply = memory_Apply\<rparr>,
      \<lparr>mName = ''level'', mApply = level_Apply\<rparr>, \<lparr>mName = ''txn-commit'', mApply = txnCommit_Apply\<rparr>,
      \<lparr>mName = ''txn-discard'', mApply = txnDiscard_Apply\<rparr>, \<lparr>mName = ''txn-multi'', mApply = txnMulti_Apply\<rparr>,
      \<lparr>mName = ''txn-context'', mApply = txnContext_Apply\<rparr>]"

text \<open>\<^verbatim>\<open>strings.Split\<close> at a comma, and \<^verbatim>\<open>strings.TrimSpace\<close> on ASCII.\<close>

fun strings_Split :: "char \<Rightarrow> string \<Rightarrow> string list" where
  "strings_Split c [] = [[]]"
| "strings_Split c (x # s) =
     (if x = c then [] # strings_Split c s
      else case strings_Split c s of [] \<Rightarrow> [[x]] | w # ws \<Rightarrow> (x # w) # ws)"

definition is_space :: "char \<Rightarrow> bool" where
  "is_space c \<longleftrightarrow> c \<in> {CHR '' '', CHR 0x09, CHR 0x0A, CHR 0x0B, CHR 0x0C, CHR 0x0D}"

definition strings_TrimSpace :: "string \<Rightarrow> string" where
  "strings_TrimSpace s = rev (dropWhile is_space (rev (dropWhile is_space s)))"

definition by_name :: "Multiplier list \<Rightarrow> string \<rightharpoonup> Multiplier" where
  "by_name available = foldl (\<lambda>m mult. m(mName mult \<mapsto> mult)) Map.empty available"

text \<open>\<^verbatim>\<open>Init\<close>: the active multipliers; \<open>env\<close> is the value of the environment variable if it is set.\<close>

definition Init :: "Multiplier list \<Rightarrow> string option \<Rightarrow> string list \<Rightarrow> Multiplier list" where
  "Init available env defaults =
     (let multiplierNames = map strings_TrimSpace (case env of Some s \<Rightarrow> strings_Split (CHR '','') s | None \<Rightarrow> defaults)
      in List.map_filter (by_name available) multiplierNames)"

fun Apply :: "Multiplier list \<Rightarrow> Actions \<Rightarrow> Actions res" where
  "Apply [] actions = Inr actions"
| "Apply (m # active) actions = (case mApply m actions of Inl e \<Rightarrow> Inl e | Inr actions \<Rightarrow> Apply active actions)"

text \<open>Whether a test is skipped: a multiplier it excludes is active, or one it requires is not.\<close>

definition Skip :: "Multiplier list \<Rightarrow> string list \<Rightarrow> string list \<Rightarrow> bool" where
  "Skip active includes excludes \<longleftrightarrow>
     list_ex (\<lambda>m. list_ex (\<lambda>exclude. mName m = exclude) excludes) active \<or>
     list_ex (\<lambda>include. \<not> list_ex (\<lambda>m. mName m = include) active) includes"

subsection \<open>Tests\<close>

fun is_CloseStore :: "action option \<Rightarrow> bool" where
  "is_CloseStore (Some (CloseStore e)) = True"
| "is_CloseStore a = False"

definition prependNewStore :: "Actions \<Rightarrow> Actions" where
  "prependNewStore actions = (if list_ex (\<lambda>a. a = Some NewStore) actions then actions else Some NewStore # actions)"

definition appendCloseStore :: "Actions \<Rightarrow> Actions" where
  "appendCloseStore actions = (if list_ex is_CloseStore actions then actions else actions @ [Some (CloseStore '''')])"

text \<open>The actions a test executes, when it is not skipped.\<close>

definition test_actions :: "Multiplier list \<Rightarrow> Actions \<Rightarrow> Actions res" where
  "test_actions active actions = Apply active (appendCloseStore (prependNewStore actions))"

lemmas harness_defs = WithTxn_def WithTxnI_def WithTxnCtx_def action_NewTxn_def NewTxnI_def Discard_def DiscardI_def Commit_def
  Iterate_nothing_def

end
