(* ===== verification/Harness_Run.thy ===== *)
theory Harness_Run
  imports Harness
begin

text \<open>
  The execution of the actions of a test (\<^verbatim>\<open>test/action\<close>, \<^verbatim>\<open>test/state\<close>).  The actions know the
  stores only as interface values: \<open>'h\<close> are these values, \<open>'w\<close> is everything the stores behind
  them hold, and the record \<open>stores\<close> has the methods and the constructors the actions call.
  The transaction of a context is an optional value.
\<close>

record ('w, 'h, 'i) stores =
  st_RW :: "'h \<Rightarrow> 'h option \<Rightarrow> ('w, 'i) ReaderWriter" \<comment> \<open>the methods of a value, called with a context\<close>
  st_Txn :: "'h \<Rightarrow> bool" \<comment> \<open>the type assertions on a value\<close>
  st_TxnReaderWriter :: "'h \<Rightarrow> bool"
  st_Dropable :: "'h \<Rightarrow> bool"
  st_Close :: "'h \<Rightarrow> 'w \<Rightarrow> err \<times> 'w"
  st_DropAll :: "'h \<Rightarrow> 'w \<Rightarrow> err \<times> 'w"
  st_NewTxn :: "'h \<Rightarrow> bool \<Rightarrow> 'w \<Rightarrow> 'h \<times> 'w"
  st_Commit :: "'h \<Rightarrow> 'w \<Rightarrow> (err \<times> 'w) option"
  st_Discard :: "'h \<Rightarrow> 'w \<Rightarrow> 'w option"
  new_memory :: "'w \<Rightarrow> 'h \<times> 'w"
  new_badger :: "'w \<Rightarrow> 'h res \<times> 'w"
  new_level :: "'w \<Rightarrow> 'h res \<times> 'w"
  ns_Wrap :: "'h option \<Rightarrow> slice \<Rightarrow> 'h"
  ns_WrapTS :: "'h \<Rightarrow> slice \<Rightarrow> 'h"
  ns_WrapTxn :: "'h \<Rightarrow> slice \<Rightarrow> 'h"
  ch_New :: "'h option \<Rightarrow> 'h option \<Rightarrow> int \<Rightarrow> 'w \<Rightarrow> 'h res \<times> 'w"
  ch_NewTS :: "'h option \<Rightarrow> 'h \<Rightarrow> int \<Rightarrow> 'w \<Rightarrow> 'h res \<times> 'w"
  ch_NewTxn :: "'h option \<Rightarrow> 'h \<Rightarrow> int \<Rightarrow> 'w \<Rightarrow> 'h res \<times> 'w"
  ctx_cancel :: "'w \<Rightarrow> 'w"

record ('w, 'h) State =
  s_world :: 'w
  s_Ctx :: "'h option"
  s_Rootstore :: "'h option"
  s_Store :: "'h option"
  s_Txns :: "'h option list"

subsection \<open>How a test stops\<close>

datatype stop = Fails | Skips | Panics string | Hangs

definition sbind :: "stop + 'a \<Rightarrow> ('a \<Rightarrow> stop + 'b) \<Rightarrow> stop + 'b" where
  "sbind m f = (case m of Inl x \<Rightarrow> Inl x | Inr a \<Rightarrow> f a)"

definition require :: "bool \<Rightarrow> 'a \<Rightarrow> stop + 'a" where
  "require b a = (if b then Inr a else Inl Fails)"

definition returned :: "'a option \<Rightarrow> stop + 'a" where
  "returned r = (case r of None \<Rightarrow> Inl Hangs | Some a \<Rightarrow> Inr a)"

definition value_of :: "string \<Rightarrow> 'a option \<Rightarrow> stop + 'a" where
  "value_of msg x = (case x of None \<Rightarrow> Inl (Panics msg) | Some a \<Rightarrow> Inr a)"

text \<open>A call that panics stops the test; otherwise its error is examined.\<close>

definition no_panic :: "err \<Rightarrow> 'a \<Rightarrow> stop + 'a" where
  "no_panic e a = (case e of Some (Panic msg) \<Rightarrow> Inl (Panics msg) | _ \<Rightarrow> Inr a)"

definition err_of :: "'a res \<Rightarrow> err" where
  "err_of r = (case r of Inl e \<Rightarrow> Some e | Inr _ \<Rightarrow> None)"

definition result_or :: "'a \<Rightarrow> 'a res \<Rightarrow> 'a" where
  "result_or d r = (case r of Inl _ \<Rightarrow> d | Inr a \<Rightarrow> a)"

definition strings_Contains :: "string \<Rightarrow> string \<Rightarrow> bool" where
  "strings_Contains s sub \<longleftrightarrow> list_ex (\<lambda>i. take (length sub) (drop i s) = sub) [0..<Suc (length s)]"

definition expectError :: "err \<Rightarrow> string \<Rightarrow> bool" where
  "expectError err expectedMsg \<longleftrightarrow>
     (if expectedMsg = '''' then err = None
      else case err of None \<Rightarrow> False | Some e \<Rightarrow> strings_Contains (Error e) expectedMsg)"

text \<open>The requirement on an error, after which the test goes on in a state.\<close>

definition expecting :: "err \<Rightarrow> string \<Rightarrow> 'a \<Rightarrow> stop + 'a" where
  "expecting e expectedMsg a = sbind (no_panic e a) (require (expectError e expectedMsg))"

subsection \<open>Iterators\<close>

text \<open>The loop of \<^verbatim>\<open>Iterate\<close>; \<open>None\<close> when it does not end.\<close>

partial_function (option) iterate_loop ::
  "('w, 'i) Iterator \<Rightarrow> 'w \<Rightarrow> string \<Rightarrow> 'i \<Rightarrow> entry list \<Rightarrow> (stop + entry list \<times> 'i) option" where
  "iterate_loop I w expectedError i entries =
     Option.bind (i_Next I w i) (\<lambda>(r, i).
       case expecting (err_of r) '''' () of
         Inl x \<Rightarrow> Some (Inl x)
       | Inr _ \<Rightarrow>
           if \<not> result_or False r then Some (Inr (entries, i))
           else (case expecting (err_of (i_Key I i)) '''' () of
                   Inl x \<Rightarrow> Some (Inl x)
                 | Inr _ \<Rightarrow>
                     (case expecting (err_of (i_Value I i)) expectedError () of
                        Inl x \<Rightarrow> Some (Inl x)
                      | Inr _ \<Rightarrow>
                          iterate_loop I w expectedError i
                            (entries @ [(result_or None (i_Key I i), result_or None (i_Value I i))]))))"

text \<open>A call that returns a flag, with the error or the flag expected of it.\<close>

definition expect_flag :: "bool res \<Rightarrow> bool \<Rightarrow> string \<Rightarrow> 'a \<Rightarrow> stop + 'a" where
  "expect_flag r expectValue expectErr a =
     (if expectErr \<noteq> '''' then expecting (err_of r) expectErr a
      else sbind (expecting (err_of r) '''' a) (require (result_or False r = expectValue)))"

definition close_root :: "('w, 'h, 'i) stores \<Rightarrow> string \<Rightarrow> ('w, 'h) State \<Rightarrow> stop + ('w, 'h) State" where
  "close_root St expectedError s =
     sbind (value_of ''nil pointer dereference'' (s_Rootstore s)) (\<lambda>h.
       let (e, w) = st_Close St h (s_world s) in expecting e expectedError (s\<lparr>s_world := w\<rparr>))"

fun Iterator_Execute ::
  "('w, 'h, 'i) stores \<Rightarrow> ('w, 'i) Iterator \<Rightarrow> IteratorAction \<Rightarrow> ('w, 'h) State \<times> 'i \<Rightarrow> stop + ('w, 'h) State \<times> 'i" where
  "Iterator_Execute St I (SeekTo target expectValue expectErr) (s, i) =
     sbind (returned (i_Seek I (s_world s) target i)) (\<lambda>(r, i). expect_flag r expectValue expectErr (s, i))"
| "Iterator_Execute St I (MoveNext expectValue expectErr) (s, i) =
     sbind (returned (i_Next I (s_world s) i)) (\<lambda>(r, i). expect_flag r expectValue expectErr (s, i))"
| "Iterator_Execute St I (IteratorValue expected) (s, i) =
     sbind (expecting (err_of (i_Value I i)) '''' (s, i)) (require (result_or None (i_Value I i) = expected))"
| "Iterator_Execute St I IteratorReset (s, i) = Inr (s, i_Reset I i)"
| "Iterator_Execute St I (IteratorCloseRoot expectedError) (s, i) =
     sbind (close_root St expectedError s) (\<lambda>s. Inr (s, i))"

fun seq :: "('a \<Rightarrow> 's \<Rightarrow> stop + 's) \<Rightarrow> 'a list \<Rightarrow> 's \<Rightarrow> stop + 's" where
  "seq f [] s = Inr s"
| "seq f (a # as) s = sbind (f a s) (seq f as)"

subsection \<open>Actions\<close>

definition active :: "('w, 'h, 'i) stores \<Rightarrow> ('w, 'h) State \<Rightarrow> stop + ('w, 'i) ReaderWriter" where
  "active St s = sbind (value_of ''nil pointer dereference'' (s_Store s)) (\<lambda>h. Inr (st_RW St h (s_Ctx s)))"

text \<open>A new store becomes the root and the active store.\<close>

definition installed :: "('w, 'h) State \<Rightarrow> 'h res \<times> 'w \<Rightarrow> stop + ('w, 'h) State" where
  "installed s r =
     (case r of
        (Inl e, w) \<Rightarrow> expecting (Some e) '''' s
      | (Inr h, w) \<Rightarrow> Inr (s\<lparr>s_world := w, s_Rootstore := Some h, s_Store := Some h\<rparr>))"

text \<open>The type switch of the wrapping actions: a transaction, a store with transactions, another store.\<close>

definition wrapped_by ::
  "('w, 'h, 'i) stores \<Rightarrow> ('w, 'h) State \<Rightarrow> ('h \<Rightarrow> 'a) \<Rightarrow> ('h \<Rightarrow> 'a) \<Rightarrow> ('h option \<Rightarrow> 'a) \<Rightarrow> 'a" where
  "wrapped_by St s txn ts rw =
     (case s_Store s of
        None \<Rightarrow> rw None
      | Some h \<Rightarrow> if st_Txn St h then txn h else if st_TxnReaderWriter St h then ts h else rw (Some h))"

definition txn_at :: "('w, 'h) State \<Rightarrow> int \<Rightarrow> stop + 'h option" where
  "txn_at s txnID =
     (if 0 \<le> txnID \<and> nat txnID < length (s_Txns s) then Inr (s_Txns s ! nat txnID) else Inl (Panics ''index out of range''))"

definition SetValue_Execute ::
  "('w, 'h, 'i) stores \<Rightarrow> slice \<Rightarrow> slice \<Rightarrow> string \<Rightarrow> ('w, 'h) State \<Rightarrow> stop + ('w, 'h) State" where
  "SetValue_Execute St k v expectedError s =
     sbind (active St s) (\<lambda>rw. sbind (returned (rw_Set rw (s_world s) k v)) (\<lambda>(e, w).
       expecting e expectedError (s\<lparr>s_world := w\<rparr>)))"

definition DeleteValue_Execute ::
  "('w, 'h, 'i) stores \<Rightarrow> slice \<Rightarrow> string \<Rightarrow> ('w, 'h) State \<Rightarrow> stop + ('w, 'h) State" where
  "DeleteValue_Execute St k expectedError s =
     sbind (active St s) (\<lambda>rw. sbind (returned (rw_Delete rw (s_world s) k)) (\<lambda>(e, w).
       expecting e expectedError (s\<lparr>s_world := w\<rparr>)))"

definition GetValue_Execute ::
  "('w, 'h, 'i) stores \<Rightarrow> slice \<Rightarrow> slice \<Rightarrow> string \<Rightarrow> ('w, 'h) State \<Rightarrow> stop + ('w, 'h) State" where
  "GetValue_Execute St k expected expectedError s =
     sbind (active St s) (\<lambda>rw. sbind (returned (rw_Get rw (s_world s) k)) (\<lambda>(r, w).
       sbind (expecting (err_of r) expectedError (s\<lparr>s_world := w\<rparr>)) (require (expected = result_or None r))))"

definition HasValue_Execute ::
  "('w, 'h, 'i) stores \<Rightarrow> slice \<Rightarrow> bool \<Rightarrow> string \<Rightarrow> ('w, 'h) State \<Rightarrow> stop + ('w, 'h) State" where
  "HasValue_Execute St k expected expectedError s =
     sbind (active St s) (\<lambda>rw. sbind (returned (rw_Has rw (s_world s) k)) (\<lambda>(r, w).
       sbind (expecting (err_of r) expectedError (s\<lparr>s_world := w\<rparr>)) (require (expected = result_or False r))))"

definition Iterate_Execute ::
  "('w, 'h, 'i) stores \<Rightarrow> IterOptions \<Rightarrow> (slice \<times> slice) list option \<Rightarrow> string \<Rightarrow> ('w, 'h) State \<Rightarrow> stop + ('w, 'h) State" where
  "Iterate_Execute St opts expected expectedError s =
     sbind (active St s) (\<lambda>rw.
       case rw_Iterator rw (s_world s) opts of
         (Inl e, w) \<Rightarrow> expecting (Some e) expectedError (s\<lparr>s_world := w\<rparr>)
       | (Inr it, w) \<Rightarrow>
           sbind (returned (iterate_loop (rw_it rw) w expectedError it [])) (\<lambda>r. sbind r (\<lambda>(entries, it).
             sbind (expecting (fst (i_Close (rw_it rw) it)) '''' (s\<lparr>s_world := w\<rparr>)) (require (expected = Some entries)))))"

definition IteratorOver_Execute ::
  "('w, 'h, 'i) stores \<Rightarrow> IterOptions \<Rightarrow> IteratorAction list \<Rightarrow> ('w, 'h) State \<Rightarrow> stop + ('w, 'h) State" where
  "IteratorOver_Execute St opts childActions s =
     sbind (active St s) (\<lambda>rw.
       case rw_Iterator rw (s_world s) opts of
         (Inl e, w) \<Rightarrow> expecting (Some e) '''' (s\<lparr>s_world := w\<rparr>)
       | (Inr it, w) \<Rightarrow>
           sbind (seq (Iterator_Execute St (rw_it rw)) childActions (s\<lparr>s_world := w\<rparr>, it)) (\<lambda>(s, it).
             expecting (fst (i_Close (rw_it rw) it)) '''' s))"

definition DropAllItems_Execute ::
  "('w, 'h, 'i) stores \<Rightarrow> ('w, 'h) State \<Rightarrow> stop + ('w, 'h) State" where
  "DropAllItems_Execute St s =
     (case s_Store s of
        None \<Rightarrow> Inl Skips
      | Some h \<Rightarrow>
          if \<not> st_Dropable St h then Inl Skips
          else let (e, w) = st_DropAll St h (s_world s) in expecting e '''' (s\<lparr>s_world := w\<rparr>))"

definition NamespaceStore_Execute ::
  "('w, 'h, 'i) stores \<Rightarrow> slice \<Rightarrow> ('w, 'h) State \<Rightarrow> stop + ('w, 'h) State" where
  "NamespaceStore_Execute St ns s =
     Inr (s\<lparr>s_Store := Some (wrapped_by St s (\<lambda>h. ns_WrapTxn St h ns) (\<lambda>h. ns_WrapTS St h ns) (\<lambda>h. ns_Wrap St h ns))\<rparr>)"

definition ChunkStore_Execute ::
  "('w, 'h, 'i) stores \<Rightarrow> int \<Rightarrow> ('w, 'h) State \<Rightarrow> stop + ('w, 'h) State" where
  "ChunkStore_Execute St chunkSize s =
     (let (r, w) = wrapped_by St s (\<lambda>h. ch_NewTxn St (s_Ctx s) h chunkSize (s_world s))
                     (\<lambda>h. ch_NewTS St (s_Ctx s) h chunkSize (s_world s)) (\<lambda>h. ch_New St (s_Ctx s) h chunkSize (s_world s))
      in case r of
           Inl e \<Rightarrow> expecting (Some e) '''' s
         | Inr h \<Rightarrow> Inr (s\<lparr>s_world := w, s_Store := Some h\<rparr>))"

definition TxnAction_Execute ::
  "('w, 'h, 'i) stores \<Rightarrow> int \<Rightarrow> (('w, 'h) State \<Rightarrow> stop + ('w, 'h) State) \<Rightarrow> ('w, 'h) State \<Rightarrow> stop + ('w, 'h) State" where
  "TxnAction_Execute St txnID exec s =
     sbind (txn_at s txnID) (\<lambda>txn. sbind (exec (s\<lparr>s_Store := txn\<rparr>)) (\<lambda>s'.
       let txns = (case s_Store s' of
                     Some h \<Rightarrow> if Some h \<noteq> txn \<and> st_Txn St h then (s_Txns s')[nat txnID := Some h] else s_Txns s'
                   | None \<Rightarrow> s_Txns s')
       in Inr (s'\<lparr>s_Txns := txns, s_Store := s_Store s\<rparr>)))"

definition TxnCtxAction_Execute ::
  "('w, 'h, 'i) stores \<Rightarrow> int \<Rightarrow> (('w, 'h) State \<Rightarrow> stop + ('w, 'h) State) \<Rightarrow> ('w, 'h) State \<Rightarrow> stop + ('w, 'h) State" where
  "TxnCtxAction_Execute St txnID exec s =
     sbind (txn_at s txnID) (\<lambda>txn. sbind (exec (s\<lparr>s_Ctx := txn\<rparr>)) (\<lambda>s'. Inr (s'\<lparr>s_Ctx := s_Ctx s\<rparr>)))"

definition CreateNewTxn_Execute ::
  "('w, 'h, 'i) stores \<Rightarrow> int \<Rightarrow> bool \<Rightarrow> ('w, 'h) State \<Rightarrow> stop + ('w, 'h) State" where
  "CreateNewTxn_Execute St txnID readOnly s =
     (case s_Store s of
        None \<Rightarrow> Inl (Panics ''interface conversion'')
      | Some h \<Rightarrow>
          if \<not> st_TxnReaderWriter St h then Inl (Panics ''interface conversion'')
          else let (txn, w) = st_NewTxn St h readOnly (s_world s);
                   txns = (if int (length (s_Txns s)) \<le> txnID then s_Txns s @ replicate (nat txnID + 1) None else s_Txns s)
               in if txnID < 0 then Inl (Panics ''index out of range'')
                  else Inr (s\<lparr>s_world := w, s_Txns := txns[nat txnID := Some txn]\<rparr>))"

definition DiscardTxn_Execute ::
  "('w, 'h, 'i) stores \<Rightarrow> int \<Rightarrow> ('w, 'h) State \<Rightarrow> stop + ('w, 'h) State" where
  "DiscardTxn_Execute St txnID s =
     sbind (txn_at s txnID) (\<lambda>txn. sbind (value_of ''nil pointer dereference'' txn) (\<lambda>h.
       sbind (returned (st_Discard St h (s_world s))) (\<lambda>w. Inr (s\<lparr>s_world := w\<rparr>))))"

definition CommitTxn_Execute ::
  "('w, 'h, 'i) stores \<Rightarrow> int \<Rightarrow> ('w, 'h) State \<Rightarrow> stop + ('w, 'h) State" where
  "CommitTxn_Execute St txnID s =
     sbind (txn_at s txnID) (\<lambda>txn. sbind (value_of ''nil pointer dereference'' txn) (\<lambda>h.
       sbind (returned (st_Commit St h (s_world s))) (\<lambda>(e, w). expecting e '''' (s\<lparr>s_world := w\<rparr>))))"

text \<open>The method the dynamic type of an action selects.\<close>

fun Execute ::
  "('w, 'h, 'i) stores \<Rightarrow> action option \<Rightarrow> ('w, 'h) State \<Rightarrow> stop + ('w, 'h) State" where
  "Execute St None s = Inl (Panics ''nil pointer dereference'')"
| "Execute St (Some NewStore) s = Inl Fails"
| "Execute St (Some NewMemoryStore) s = (let (h, w) = new_memory St (s_world s) in installed s (Inr h, w))"
| "Execute St (Some NewBadgerStore) s = installed s (new_badger St (s_world s))"
| "Execute St (Some NewLevelStore) s = installed s (new_level St (s_world s))"
| "Execute St (Some CancelCtx) s = Inr (s\<lparr>s_world := ctx_cancel St (s_world s)\<rparr>)"
| "Execute St (Some (CloseStore expectedError)) s = close_root St expectedError s"
| "Execute St (Some (SetValue k v expectedError)) s = SetValue_Execute St k v expectedError s"
| "Execute St (Some (DeleteValue k expectedError)) s = DeleteValue_Execute St k expectedError s"
| "Execute St (Some (GetValue k expected expectedError)) s = GetValue_Execute St k expected expectedError s"
| "Execute St (Some (HasValue k expected expectedError)) s = HasValue_Execute St k expected expectedError s"
| "Execute St (Some (Iterate opts expected expectedError)) s = Iterate_Execute St opts expected expectedError s"
| "Execute St (Some (IteratorOver opts childActions)) s = IteratorOver_Execute St opts childActions s"
| "Execute St (Some DropAllItems) s = DropAllItems_Execute St s"
| "Execute St (Some (NamespaceStore ns)) s = NamespaceStore_Execute St ns s"
| "Execute St (Some (ChunkStore chunkSize)) s = ChunkStore_Execute St chunkSize s"
| "Execute St (Some (TxnAction ty txnID a)) s = TxnAction_Execute St txnID (\<lambda>s. Execute St a s) s"
| "Execute St (Some (TxnCtxAction ty txnID a)) s = TxnCtxAction_Execute St txnID (\<lambda>s. Execute St a s) s"
| "Execute St (Some (CreateNewTxn txnID readOnly)) s = CreateNewTxn_Execute St txnID readOnly s"
| "Execute St (Some (DiscardTxn txnID)) s = DiscardTxn_Execute St txnID s"
| "Execute St (Some (CommitTxn txnID)) s = CommitTxn_Execute St txnID s"

definition Actions_Execute :: "('w, 'h, 'i) stores \<Rightarrow> Actions \<Rightarrow> ('w, 'h) State \<Rightarrow> stop + ('w, 'h) State" where
  "Actions_Execute St actions s = seq (Execute St) actions s"

lemmas Execute_defs = SetValue_Execute_def DeleteValue_Execute_def GetValue_Execute_def HasValue_Execute_def Iterate_Execute_def

text \<open>A whole test: assembled, multiplied and executed from an empty state; a skipped test is not executed.\<close>

definition Test_Execute ::
  "('w, 'h, 'i) stores \<Rightarrow> Multiplier list \<Rightarrow> string list \<Rightarrow> string list \<Rightarrow> Actions \<Rightarrow> 'w \<Rightarrow> stop + ('w, 'h) State" where
  "Test_Execute St multipliers includes excludes actions w =
     (if Skip multipliers includes excludes then Inl Skips
      else case test_actions multipliers actions of
             Inl e \<Rightarrow> Inl (Panics (Error e))
           | Inr actions \<Rightarrow>
               Actions_Execute St actions \<lparr>s_world = w, s_Ctx = None, s_Rootstore = None, s_Store = None, s_Txns = []\<rparr>)"

end
