(* ===== verification/Harness_Props.thy ===== *)
theory Harness_Props
  imports Harness
begin

text \<open>
  What the multipliers make of a test.
\<close>

subsection \<open>Filling an array\<close>

lemma put_next: "n = length xs \<Longrightarrow> put (xs @ y # ys) n x = Inr (xs @ x # ys)"
  by (simp add: put_def)

text \<open>A filled part, and a part still to be filled that begins with some places.\<close>

lemma puts_next:
  assumes "n = length xs" "length zs = length ys"
  shows "puts (xs @ zs @ r) n ys = Inr (xs @ ys @ r)"
  using assms
proof (induction ys arbitrary: xs zs n)
  case (Cons y ys)
  then obtain z zs' where zs: "zs = z # zs'" "length zs' = length ys" by (cases zs) auto
  from Cons.IH [of "Suc n" "xs @ [y]" zs'] Cons.prems(1) zs show ?case by (simp add: put_next)
qed simp

lemma puts_fill:
  "n = length xs \<Longrightarrow> length ys \<le> m \<Longrightarrow> puts (xs @ replicate m None) n ys = Inr (xs @ ys @ replicate (m - length ys) None)"
  using puts_next [of n xs "replicate (length ys) None" ys "replicate (m - length ys) None"]
  by (simp add: replicate_add [symmetric])

lemma each_append: "each f i (xs @ ys) s = (case each f i xs s of Inl e \<Rightarrow> Inl e | Inr s \<Rightarrow> each f (i + length xs) ys s)"
  by (induction xs arbitrary: i s) (simp_all split: sum.split)

text \<open>A stretch of the loop that fills in one action for each.\<close>

lemma each_fill:
  assumes "\<And>j a r. i \<le> j \<Longrightarrow> j < i + length xs \<Longrightarrow> a = xs ! (j - i) \<Longrightarrow> f j a (r, k) = counted k (puts r (j + k) [g a])"
    and "i + k = length done'" "length xs \<le> m"
  shows "each f i xs (done' @ replicate m None, k) = Inr (done' @ map g xs @ replicate (m - length xs) None, k)"
  using assms
proof (induction xs arbitrary: i done' m)
  case (Cons a xs)
  have "f i a (done' @ replicate m None, k) = Inr ((done' @ [g a]) @ replicate (m - 1) None, k)"
    using Cons.prems(1) [of i a] Cons.prems(2,3) by (simp add: puts_fill counted_def del: puts.simps)
  moreover have "each f (Suc i) xs ((done' @ [g a]) @ replicate (m - 1) None, k) =
      Inr ((done' @ [g a]) @ map g xs @ replicate (m - 1 - length xs) None, k)"
  proof (rule Cons.IH)
    fix j b r assume "Suc i \<le> j" "j < Suc i + length xs" "b = xs ! (j - Suc i)"
    with Cons.prems(1) [of j b r] show "f j b (r, k) = counted k (puts r (j + k) [g b])" by (simp add: nth_Cons')
  qed (use Cons.prems(2,3) in auto)
  ultimately show ?case by (simp add: Suc_diff_le)
qed simp

text \<open>
  The whole loop: two actions are replaced by several, what lies between them is changed by \<open>g\<close>,
  the rest is copied.
\<close>

lemma each_segments:
  assumes pre: "\<And>j a r. j < length pre \<Longrightarrow> a = pre ! j \<Longrightarrow> f j a (r, 0) = counted 0 (puts r (j + 0) [a])"
    and c: "\<And>xs m. length xs = length pre \<Longrightarrow>
      f (length pre) c (xs @ replicate (length cs + m) None, 0) = Inr ((xs @ cs) @ replicate m None, k1)"
    and mid: "\<And>j a r. Suc (length pre) \<le> j \<Longrightarrow> j < Suc (length pre) + length mid \<Longrightarrow> a = mid ! (j - Suc (length pre)) \<Longrightarrow>
      f j a (r, k1) = counted k1 (puts r (j + k1) [g a])"
    and e: "\<And>xs m. length xs = Suc (length pre + length mid) + k1 \<Longrightarrow>
      f (Suc (length pre + length mid)) e (xs @ replicate (length es + m) None, k1) = Inr ((xs @ es) @ replicate m None, k2)"
    and post: "\<And>j a r. Suc (length pre + length mid) < j \<Longrightarrow> a \<in> set post \<Longrightarrow> f j a (r, k2) = counted k2 (puts r (j + k2) [a])"
    and lengths: "length cs = Suc k1" "k1 + length es = Suc k2" "n = length pre + length cs + length mid + length es + length post"
  shows "each f 0 (pre @ c # mid @ e # post) (replicate n None, 0) = Inr (pre @ cs @ map g mid @ es @ post, k2)"
proof -
  let ?m4 = "length post" let ?m3 = "length es + ?m4" let ?m2 = "length mid + ?m3" let ?m1 = "length cs + ?m2"
  let ?i = "length pre" and ?j = "Suc (length pre + length mid)"
  have "each f 0 pre ([] @ replicate (?i + ?m1) None, 0) = Inr ([] @ map id pre @ replicate (?i + ?m1 - ?i) None, 0)"
    by (rule each_fill) (use pre in simp_all)
  moreover have "f ?i c (pre @ replicate ?m1 None, 0) = Inr ((pre @ cs) @ replicate ?m2 None, k1)" by (rule c) simp
  moreover have "each f (Suc ?i) mid ((pre @ cs) @ replicate ?m2 None, k1) =
      Inr ((pre @ cs) @ map g mid @ replicate (?m2 - length mid) None, k1)"
    by (rule each_fill) (use mid lengths in simp_all)
  moreover have "f ?j e ((pre @ cs @ map g mid) @ replicate ?m3 None, k1) = Inr (((pre @ cs @ map g mid) @ es) @ replicate ?m4 None, k2)"
    by (rule e) (use lengths in simp)
  moreover have "each f (Suc ?j) post ((pre @ cs @ map g mid @ es) @ replicate ?m4 None, k2) =
      Inr ((pre @ cs @ map g mid @ es) @ map id post @ replicate (?m4 - length post) None, k2)"
    by (rule each_fill) (use post lengths in simp_all)
  ultimately show ?thesis by (simp add: each_append lengths(3) add.assoc)
qed

subsection \<open>Wrappers\<close>

lemma last_store_index_none: "list_all (\<lambda>a. \<not> creates_store a) xs \<Longrightarrow> last_store_index i xs j = j"
  by (induction xs arbitrary: i) auto

lemma last_store_index_found:
  "creates_store c \<Longrightarrow> list_all (\<lambda>a. \<not> creates_store a) post \<Longrightarrow> last_store_index i (pre @ c # post) j = i + length pre"
  by (induction pre arbitrary: i j) (auto simp: last_store_index_none)

text \<open>
  The wrapper multipliers insert their action right after the last action that creates a
  store and change nothing else.
\<close>

lemma wrap_Apply_inserts:
  assumes "creates_store c" "list_all (\<lambda>a. \<not> creates_store a) post"
  shows "wrap_Apply w (pre @ c # post) = Inr (pre @ c # w # post)"
proof -
  let ?n = "length pre" and ?f = "wrap_step (length pre) w" and ?m = "length post + 2"
  have last: "last_store_index 0 (pre @ c # post) 0 = ?n" using last_store_index_found [OF assms, of 0 pre 0] by simp
  have "each ?f 0 pre ([] @ replicate (?n + ?m) None, 0) = Inr ([] @ map id pre @ replicate (?n + ?m - ?n) None, 0)"
    by (rule each_fill) (simp_all add: wrap_step_def del: puts.simps)
  moreover have "?f ?n c (pre @ replicate ?m None, 0) = Inr ((pre @ [c, w]) @ replicate (length post) None, 1)"
    by (simp add: wrap_step_def put_def list_update_append counted_def)
  moreover have "each ?f (Suc ?n) post ((pre @ [c, w]) @ replicate (length post) None, 1) =
      Inr ((pre @ [c, w]) @ map id post @ replicate (length post - length post) None, 1)"
    by (rule each_fill) (simp_all add: wrap_step_def del: puts.simps)
  ultimately show ?thesis by (simp add: wrap_Apply_def last each_append)
qed

subsection \<open>Transactions\<close>

text \<open>
  A test without transactions: actions up to one that creates the store, the last that does,
  others, one that closes it, the first that does, and the rest, in which no iterator closes the
  store.  Nothing wraps a store before the last is created.
\<close>

definition ends_store :: "action option \<Rightarrow> bool" where
  "ends_store a \<longleftrightarrow> closes_store a \<or> iterator_closes a"

definition one_store :: "Actions \<Rightarrow> action option \<Rightarrow> Actions \<Rightarrow> action option \<Rightarrow> Actions \<Rightarrow> bool" where
  "one_store pre c body e post \<longleftrightarrow>
     creates_store c \<and> ends_store e \<and>
     list_all (\<lambda>a. \<not> ends_store a \<and> \<not> creates_txn a \<and> \<not> wraps_store a) pre \<and>
     list_all (\<lambda>a. \<not> creates_store a \<and> \<not> ends_store a \<and> \<not> creates_txn a) body \<and>
     list_all (\<lambda>a. \<not> creates_store a \<and> \<not> iterator_closes a \<and> \<not> creates_txn a) post"

lemma kinds_exclusive:
  "creates_store a \<Longrightarrow> \<not> closes_store a" "creates_store a \<Longrightarrow> \<not> iterator_closes a" "creates_store a \<Longrightarrow> \<not> creates_txn a"
  "creates_store a \<Longrightarrow> \<not> wraps_store a" "closes_store a \<Longrightarrow> \<not> wraps_store a" "iterator_closes a \<Longrightarrow> \<not> wraps_store a"
  "iterator_closes a \<Longrightarrow> \<not> closes_store a"
  by (cases a rule: creates_store.cases; simp)+

lemma scan_pre:
  "list_all (\<lambda>a. \<not> ends_store a \<and> \<not> creates_txn a) pre \<Longrightarrow> \<exists>l'. txn_scan i (pre @ ys) l k = txn_scan (i + length pre) ys l' k"
proof (induction pre arbitrary: i l)
  case (Cons a pre)
  then show ?case using Cons.IH [of "Suc i"] by (auto simp: ends_store_def)
qed auto

lemma scan_body:
  "list_all (\<lambda>a. \<not> creates_store a \<and> \<not> ends_store a \<and> \<not> creates_txn a) body \<Longrightarrow>
   txn_scan i (body @ ys) l k = txn_scan (i + length body) ys l k"
  by (induction body arbitrary: i) (auto simp: ends_store_def)

lemma scan_post:
  "list_all (\<lambda>a. \<not> creates_store a \<and> \<not> iterator_closes a \<and> \<not> creates_txn a) post \<Longrightarrow> 0 < k \<Longrightarrow> txn_scan i post l k = Some (l, k)"
  by (induction post arbitrary: i) auto

lemma scan_one_store:
  assumes "one_store pre c body e post"
  shows "txn_scan 0 (pre @ c # body @ e # post) 0 0 = Some (length pre, Suc (length pre + length body))"
proof -
  note parts = assms [unfolded one_store_def]
  have pre: "list_all (\<lambda>a. \<not> ends_store a \<and> \<not> creates_txn a) pre" using parts by (auto simp: list_all_iff)
  obtain l where "txn_scan 0 (pre @ c # body @ e # post) 0 0 = txn_scan (0 + length pre) (c # body @ e # post) l 0"
    using scan_pre [OF pre] by blast
  also have "\<dots> = txn_scan (Suc (length pre + length body)) (e # post) (length pre) 0"
    using parts scan_body [of body "Suc (length pre)" "e # post" "length pre" 0] by simp
  also have "\<dots> = Some (length pre, Suc (length pre + length body))"
    using parts scan_post [of post] kinds_exclusive [of e] by (auto simp: ends_store_def)
  finally show ?thesis .
qed

text \<open>The stretches of the loops.\<close>

lemma collect_stretch:
  assumes "0 < k" "\<And>a. a \<in> set xs \<Longrightarrow> \<not> (wraps_store a \<and> i < l)"
    and "\<And>j. i \<le> j \<Longrightarrow> j < i + length xs \<Longrightarrow> creates_store (xs ! (j - i)) \<or> closes_store (xs ! (j - i)) \<or> \<not> (l < j \<and> j < k)"
  shows "each (commit_collect l k) i xs (n, []) = Inr (n @ xs, [])"
  using assms(2,3)
proof (induction xs arbitrary: i n)
  case (Cons a xs)
  have "commit_collect l k i a (n, []) = Inr (n @ [a], [])"
    using assms(1) Cons.prems(1) [of a] Cons.prems(2) [of i] by (auto simp: commit_collect_def Let_def)
  moreover have "each (commit_collect l k) (Suc i) xs (n @ [a], []) = Inr ((n @ [a]) @ xs, [])"
  proof (rule Cons.IH)
    fix j assume "Suc i \<le> j" "j < Suc i + length xs"
    with Cons.prems(2) [of j] show "creates_store (xs ! (j - Suc i)) \<or> closes_store (xs ! (j - Suc i)) \<or> \<not> (l < j \<and> j < k)"
      by (simp add: nth_Cons')
  qed (use Cons.prems(1) in auto)
  ultimately show ?case by simp
qed simp

lemma collect_body:
  assumes "l < i" "i + length xs \<le> k" "list_all (\<lambda>a. \<not> creates_store a \<and> \<not> ends_store a) xs"
  shows "each (commit_collect l k) i xs (n, []) = Inr (n @ map (WithTxn Interface) xs, [])"
  using assms by (induction xs arbitrary: i n) (auto simp: commit_collect_def ends_store_def Let_def)

lemma commit_scopes:
  assumes "one_store pre c body e post"
  shows "txnCommit_Apply (pre @ c # body @ e # post) = Inr (pre @ c # action_NewTxn # map (WithTxn Interface) body @ Commit # e # post)"
proof -
  note parts = assms [unfolded one_store_def]
  let ?l = "length pre" and ?k = "Suc (length pre + length body)"
  let ?g = "commit_collect ?l ?k" and ?f = "commit_step ?l ?k []"
  have "each ?g 0 pre ([], []) = Inr ([] @ pre, [])"
    by (rule collect_stretch) (use parts in \<open>auto simp: list_all_iff\<close>)
  moreover have "?g ?l c (pre, []) = Inr (pre @ [c], [])" using parts kinds_exclusive [of c] by (simp add: commit_collect_def)
  moreover have "each ?g (Suc ?l) body (pre @ [c], []) = Inr ((pre @ [c]) @ map (WithTxn Interface) body, [])"
    by (rule collect_body) (use parts in \<open>auto simp: list_all_iff\<close>)
  moreover have "each ?g ?k (e # post) ((pre @ [c]) @ map (WithTxn Interface) body, []) = Inr (((pre @ [c]) @ map (WithTxn Interface) body) @ e # post, [])"
    by (rule collect_stretch) auto
  ultimately have new: "each ?g 0 (pre @ c # body @ e # post) ([], []) = Inr (pre @ c # map (WithTxn Interface) body @ e # post, [])"
    by (simp add: each_append)
  have "each ?f 0 (pre @ c # map (WithTxn Interface) body @ e # post) 
        (replicate (length (pre @ c # map (WithTxn Interface) body @ e # post) + 2 + length ([] :: Actions)) None, 0) =
      Inr (pre @ [c, action_NewTxn] @ map id (map (WithTxn Interface) body) @ [Commit, e] @ post, 2)"
    by (rule each_segments [where ?k1.0 = 1]) (simp_all add: commit_step_def put_def list_update_append counted_def)
  with scan_one_store [OF assms] new show ?thesis by (simp add: txnCommit_Apply_def del: replicate_Suc)
qed

lemma discard_scopes:
  assumes "one_store pre c body e post"
  shows "txnDiscard_Apply (pre @ c # body @ e # post) =
    Inr (pre @ c # action_NewTxn # map (WithTxn Interface) body @ Discard # Iterate_nothing # e # post)"
proof -
  note parts = assms [unfolded one_store_def]
  let ?f = "discard_step (length pre) (Suc (length pre + length body))"
  have "each ?f 0 (pre @ c # body @ e # post) (replicate (length (pre @ c # body @ e # post) + 3) None, 0) =
      Inr (pre @ [c, action_NewTxn] @ map (WithTxn Interface) body @ [Discard, Iterate_nothing, e] @ post, 3)"
    by (rule each_segments [where ?k1.0 = 1])
      (use parts kinds_exclusive [of e] in \<open>auto simp: discard_step_def put_def list_update_append counted_def ends_store_def list_all_iff\<close>)
  with scan_one_store [OF assms] show ?thesis by (simp add: txnDiscard_Apply_def del: replicate_Suc)
qed

lemma multi_scopes:
  assumes "one_store pre c body e post"
  shows "txnMulti_Apply (pre @ c # body @ e # post) =
    Inr (pre @ c # NewTxnI 0 # NewTxnI 1 # map (\<lambda>a. WithTxnI Interface a 0) body @ WithTxnI Concrete Iterate_nothing 1 # DiscardI 0 # e # post)"
proof -
  note parts = assms [unfolded one_store_def]
  let ?f = "multi_step (length pre) (Suc (length pre + length body))"
  have "each ?f 0 (pre @ c # body @ e # post) (replicate (length (pre @ c # body @ e # post) + 4) None, 0) =
      Inr (pre @ [c, NewTxnI 0, NewTxnI 1] @ map (\<lambda>a. WithTxnI Interface a 0) body @ [WithTxnI Concrete Iterate_nothing 1, DiscardI 0, e] @ post, 4)"
    by (rule each_segments [where ?k1.0 = 2])
      (use parts kinds_exclusive [of e] in \<open>auto simp: multi_step_def put_def list_update_append counted_def ends_store_def list_all_iff\<close>)
  with scan_one_store [OF assms] show ?thesis by (simp add: txnMulti_Apply_def del: replicate_Suc)
qed

text \<open>
  C39.  The transaction multipliers scope a test to a transaction.  Of a test that begins no
  transaction, with a last creation of a store \<open>c\<close> and after it a first action \<open>e\<close> that closes the
  store (no store is closed or wrapped before \<open>c\<close>, and no iterator closes it after \<open>e\<close>), they leave
  what is before \<open>c\<close> and after \<open>e\<close> as it is, begin a transaction right after \<open>c\<close>, run the actions
  between in it in their order, and end it right before \<open>e\<close>.  Against their comments,
  \<^verbatim>\<open>txn-commit\<close> repeats no read after the commit, and \<^verbatim>\<open>txn-multi\<close>, which looks at the store in its
  second transaction, never discards that.
\<close>

theorem txn_multipliers_scope:
  assumes "one_store pre c body e post"
  shows "txnCommit_Apply (pre @ c # body @ e # post) = Inr (pre @ c # action_NewTxn # map (WithTxn Interface) body @ Commit # e # post) \<and>
    txnDiscard_Apply (pre @ c # body @ e # post) =
      Inr (pre @ c # action_NewTxn # map (WithTxn Interface) body @ Discard # Iterate_nothing # e # post) \<and>
    txnMulti_Apply (pre @ c # body @ e # post) =
      Inr (pre @ c # NewTxnI 0 # NewTxnI 1 # map (\<lambda>a. WithTxnI Interface a 0) body @ WithTxnI Concrete Iterate_nothing 1 # DiscardI 0 # e # post)"
  using commit_scopes [OF assms] discard_scopes [OF assms] multi_scopes [OF assms] by blast

theorem txn_multipliers_scope_witness:
  "txnCommit_Apply [Some NewMemoryStore, Some (SetValue (Some [1]) (Some [2]) ''''), Some (GetValue (Some [1]) (Some [2]) ''''),
      Some (CloseStore '''')] =
    Inr [Some NewMemoryStore, action_NewTxn, WithTxn Interface (Some (SetValue (Some [1]) (Some [2]) '''')),
      WithTxn Interface (Some (GetValue (Some [1]) (Some [2]) '''')), Commit, Some (CloseStore '''')]"
proof -
  have "one_store [] (Some NewMemoryStore) [Some (SetValue (Some [1]) (Some [2]) ''''), Some (GetValue (Some [1]) (Some [2]) '''')]
      (Some (CloseStore '''')) []"
    by (simp add: one_store_def ends_store_def)
  from txn_multipliers_scope [OF this] show ?thesis by simp
qed

subsection \<open>Whole tests\<close>

text \<open>An action of an ordinary test: the harness adds the store, its closing and the transactions.\<close>

definition plain :: "action option \<Rightarrow> bool" where
  "plain a \<longleftrightarrow> \<not> creates_store a \<and> \<not> ends_store a \<and> \<not> creates_txn a"

lemma plain_kind: "plain a \<Longrightarrow> a \<noteq> Some NewStore" "plain a \<Longrightarrow> \<not> is_CloseStore a"
  by (auto simp: plain_def ends_store_def elim: is_CloseStore.elims)

text \<open>What a plain test is before the multipliers apply, and after the one of its store.\<close>

lemma assembled:
  "list_all plain acts \<Longrightarrow> appendCloseStore (prependNewStore acts) = Some NewStore # acts @ [Some (CloseStore '''')]"
  by (auto simp: appendCloseStore_def prependNewStore_def list_ex_iff list_all_iff dest: plain_kind)

lemma store_replaced:
  "list_all plain acts \<Longrightarrow> store_Apply new (Some NewStore # acts @ [Some (CloseStore '''')]) = Some new # acts @ [Some (CloseStore '''')]"
  by (auto simp: store_Apply_def list_all_iff intro!: map_idI dest: plain_kind)

lemma plain_one_store:
  "list_all plain acts \<Longrightarrow> creates_store c \<Longrightarrow> one_store [] c acts (Some (CloseStore '''')) []"
  by (auto simp: one_store_def plain_def list_all_iff ends_store_def)

lemmas named = Init_def by_name_def availableMultipliers_def strings_TrimSpace_def is_space_def List.map_filter_def

text \<open>
  C38.  What the harness makes of a test, for two sets of multipliers and each store it knows,
  when its actions neither create nor close a store nor begin transactions.  With the store
  and \<^verbatim>\<open>txn-commit\<close>: the creation of that store, a new transaction, the actions each in the
  transaction, its commit and the close; no read is repeated after the commit, which the
  comment on \<^verbatim>\<open>txn-commit\<close> promises.  With the store, \<^verbatim>\<open>chunk\<close>, \<^verbatim>\<open>namespace\<close>, \<^verbatim>\<open>txn-discard\<close> and
  \<^verbatim>\<open>txn-context\<close>: the creation, a new transaction, then with the transaction in the context the
  namespace, the chunk store and the actions, then its discard, one iteration over the store
  that expects it empty, and the close.
\<close>

theorem multiplied_test:
  assumes "list_all plain acts"
    and "(store, new) \<in> set [(''badger'', NewBadgerStore), (''memory'', NewMemoryStore), (''level'', NewLevelStore)]"
  shows "test_actions (Init availableMultipliers (Some (store @ '', txn-commit'')) names) acts =
      Inr (Some new # action_NewTxn # map (WithTxn Interface) acts @ [Commit, Some (CloseStore '''')]) \<and>
    test_actions (Init availableMultipliers (Some (store @ '',chunk,namespace,txn-discard,txn-context'')) names) acts =
      Inr (Some new # action_NewTxn # map (\<lambda>a. WithTxnCtx Interface a 0)
        (Some (NamespaceStore (go_bytes ''/example'')) # Some (ChunkStore 1) # acts) @ [Discard, Iterate_nothing, Some (CloseStore '''')])"
proof -
  have new: "creates_store (Some new)" using assms(2) by auto
  let ?close = "Some (CloseStore '''')" and ?ns = "Some (NamespaceStore (go_bytes ''/example''))" and ?ch = "Some (ChunkStore 1)"
  have rest: "list_all (\<lambda>a. \<not> creates_store a) (acts @ [?close])" "list_all (\<lambda>a. \<not> creates_store a) (?ch # acts @ [?close])"
    using assms(1) by (auto simp: list_all_iff plain_def)
  have wrapped: "list_all plain (?ns # ?ch # acts)" using assms(1) by (simp add: plain_def ends_store_def)
  note applied = commit_scopes [OF plain_one_store [OF assms(1) new]] discard_scopes [OF plain_one_store [OF wrapped new]]
    wrap_Apply_inserts [OF new rest(1), of ?ch "[]"] wrap_Apply_inserts [OF new rest(2), of ?ns "[]"]
  have names: "Init availableMultipliers (Some (store @ '', txn-commit'')) names =
      [\<lparr>mName = store, mApply = \<lambda>source. Inr (store_Apply new source)\<rparr>, \<lparr>mName = ''txn-commit'', mApply = txnCommit_Apply\<rparr>]"
    "Init availableMultipliers (Some (store @ '',chunk,namespace,txn-discard,txn-context'')) names =
      [\<lparr>mName = store, mApply = \<lambda>source. Inr (store_Apply new source)\<rparr>, \<lparr>mName = ''chunk'', mApply = chunk_Apply\<rparr>,
       \<lparr>mName = ''namespace'', mApply = namespace_Apply\<rparr>, \<lparr>mName = ''txn-discard'', mApply = txnDiscard_Apply\<rparr>,
       \<lparr>mName = ''txn-context'', mApply = txnContext_Apply\<rparr>]"
    using assms(2) by (auto simp: named badger_Apply_def [abs_def] memory_Apply_def [abs_def] level_Apply_def [abs_def])
  have ctx: "to_ctx (Some new) = Some new" using assms(2) by auto
  show ?thesis
    using applied assembled [OF assms(1)] store_replaced [OF assms(1), of new] ctx
    by (simp add: test_actions_def names chunk_Apply_def namespace_Apply_def txnContext_Apply_def harness_defs)
qed

theorem multiplied_test_witness:
  "test_actions (Init availableMultipliers (Some ''memory, txn-commit'') []) [Some (SetValue (Some [1]) (Some [2]) '''')] =
    Inr [Some NewMemoryStore, action_NewTxn, WithTxn Interface (Some (SetValue (Some [1]) (Some [2]) '''')), Commit, Some (CloseStore '''')]"
  using multiplied_test [of "[Some (SetValue (Some [1]) (Some [2]) '''')]" "''memory''" NewMemoryStore "[]"]
  by (simp add: plain_def ends_store_def)

end
