(* ===== verification/Harness_RunProps.thy ===== *)
theory Harness_RunProps
  imports Harness_Run Harness_Props Mem_RW
begin

text \<open>
  What a test decides: over a store that meets the contract \<open>kv_store\<close>, a test passes exactly
  when the values it expects are those of a map.
\<close>

subsection \<open>Lists of entries are determined by the map\<close>

lemma lists_keys:
  assumes "lists m opts L"
  shows "sorted_wrt (dless (Reverse opts)) (map (contents \<circ> fst) L)" "set (map (contents \<circ> fst) L) = {k. wanted opts k \<and> m k \<noteq> None}"
    "map (apfst contents) L = map (\<lambda>k. (k, the (m k))) (map (contents \<circ> fst) L)"
proof -
  show s: "sorted_wrt (dless (Reverse opts)) (map (contents \<circ> fst) L)" using assms by (simp add: lists_def sorted_wrt_map)
  have map_of: "map_of (map (apfst contents) L) k = (if wanted opts k then m k else None)" for k using assms by (simp add: lists_def)
  have "set (map (contents \<circ> fst) L) = dom (map_of (map (apfst contents) L))" by (force simp: dom_map_of_conv_image_fst image_comp)
  also have "\<dots> = {k. wanted opts k \<and> m k \<noteq> None}" using map_of by (auto simp: dom_def split: if_splits)
  finally show "set (map (contents \<circ> fst) L) = {k. wanted opts k \<and> m k \<noteq> None}" .
  have "distinct (map (contents \<circ> fst) L)" using s by (induction L) (auto simp: dless_def split: if_splits)
  then have "distinct (map fst (map (apfst contents) L))" by (simp add: comp_def)
  note here = map_of_is_SomeI [OF this]
  have "the (m (contents (fst e))) = snd e" if "e \<in> set L" for e
  proof -
    have "apfst contents e \<in> set (map (apfst contents) L)" using that by simp
    then have "map_of (map (apfst contents) L) (contents (fst e)) = Some (snd e)" by (intro here) (simp add: apfst_def map_prod_def split: prod.splits)
    then show ?thesis using map_of [of "contents (fst e)"] by (simp split: if_splits)
  qed
  then show "map (apfst contents) L = map (\<lambda>k. (k, the (m k))) (map (contents \<circ> fst) L)" by (auto simp: apfst_def map_prod_def split: prod.splits)
qed

lemma directed_unique:
  assumes "sorted_wrt (dless r) xs" "sorted_wrt (dless r) ys" "set xs = set ys"
  shows "xs = ys"
proof (cases r)
  case True
  then have "sorted_wrt (<) (rev xs)" "sorted_wrt (<) (rev ys)" using assms(1,2) by (simp_all add: sorted_wrt_rev dless_def [abs_def])
  with assms(3) have "rev xs = rev ys" by (intro strict_sorted_equal) auto
  then show ?thesis by simp
next
  case False
  then show ?thesis using assms by (intro strict_sorted_equal) (simp_all add: dless_def [abs_def])
qed

lemma same_entries: "map (apfst contents) L = map (apfst contents) Es \<Longrightarrow> (\<forall>e \<in> set L. contents (fst e) \<noteq> []) \<Longrightarrow> L = Es"
proof (induction L arbitrary: Es)
  case (Cons e L)
  then obtain e' Es' where E: "Es = e' # Es'" "apfst contents e = apfst contents e'" "map (apfst contents) L = map (apfst contents) Es'"
    by (cases Es) auto
  have "fst e = fst e'" using E(2) Cons.prems(2) by (cases "fst e"; cases "fst e'") (auto simp: apfst_def map_prod_def split: prod.splits)
  with E(2) have "e = e'" by (simp add: prod_eq_iff apfst_def map_prod_def split: prod.splits)
  with Cons.IH [OF E(3)] Cons.prems(2) E(1) show ?case by simp
qed simp

lemma lists_unique:
  assumes "lists m opts L" "lists m opts Es" "m [] = None"
  shows "L = Es"
proof (rule same_entries)
  have "map (contents \<circ> fst) L = map (contents \<circ> fst) Es"
    using directed_unique lists_keys [OF assms(1)] lists_keys [OF assms(2)] by blast
  with lists_keys(3) [OF assms(1)] lists_keys(3) [OF assms(2)] show "map (apfst contents) L = map (apfst contents) Es" by simp
  show "\<forall>e \<in> set L. contents (fst e) \<noteq> []"
  proof
    fix e assume "e \<in> set L"
    then have "contents (fst e) \<in> set (map (contents \<circ> fst) L)" by simp
    with lists_keys(2) [OF assms(1)] assms(3) show "contents (fst e) \<noteq> []" by auto
  qed
qed

lemma lists_iff:
  assumes "lists m opts Es" "m [] = None"
  shows "(case L of Some L' \<Rightarrow> lists m opts L' | None \<Rightarrow> False) \<longleftrightarrow> L = Some Es"
proof (cases L)
  case (Some L')
  then show ?thesis using lists_unique [of m opts L', OF _ assms] assms(1) by auto
qed simp

subsection \<open>What a test expects of a map\<close>

text \<open>The actions on the active store, with keys and options within the contract.\<close>

fun basic :: "action option \<Rightarrow> bool" where
  "basic (Some (SetValue k v e)) = (contents k \<noteq> [])"
| "basic (Some (DeleteValue k e)) = (contents k \<noteq> [])"
| "basic (Some (GetValue k v e)) = (contents k \<noteq> [])"
| "basic (Some (HasValue k b e)) = (contents k \<noteq> [])"
| "basic (Some (Iterate opts L e)) = (bounded_prefix opts \<and> End opts \<noteq> Some [])"
| "basic a = False"

fun after :: "action option \<Rightarrow> (bytes \<Rightarrow> slice option) \<Rightarrow> bytes \<Rightarrow> slice option" where
  "after (Some (SetValue k v e)) m = m(contents k := Some v)"
| "after (Some (DeleteValue k e)) m = m(contents k := None)"
| "after a m = m"

text \<open>
  Whether what an action expects is what a map answers.  An error is expected by a part of its
  message, \<open>''''\<close> means none; the only error there is is that of reading an absent key.  An
  iteration looks for the error at each of its entries, so that it is not missed when there
  are none.
\<close>

fun matches :: "action option \<Rightarrow> (bytes \<Rightarrow> slice option) \<Rightarrow> bool" where
  "matches (Some (GetValue k v e)) m =
     (case m (contents k) of
        Some v' \<Rightarrow> e = '''' \<and> v = v'
      | None \<Rightarrow> e \<noteq> '''' \<and> strings_Contains (Error ErrNotFound) e \<and> v = None)"
| "matches (Some (HasValue k b e)) m = (e = '''' \<and> b = (m (contents k) \<noteq> None))"
| "matches (Some (Iterate opts L e)) m = (case L of Some Es \<Rightarrow> lists m opts Es \<and> (e = '''' \<or> Es = []) | None \<Rightarrow> False)"
| "matches (Some (SetValue k v e)) m = (e = '''')"
| "matches (Some (DeleteValue k e)) m = (e = '''')"
| "matches a m = True"

fun all_match :: "Actions \<Rightarrow> (bytes \<Rightarrow> slice option) \<Rightarrow> bool" where
  "all_match [] m = True"
| "all_match (a # as) m = (matches a m \<and> all_match as (after a m))"

lemma basic_plain: "basic a \<Longrightarrow> plain a"
  by (cases a rule: basic.cases) (simp_all add: plain_def ends_store_def)

lemma after_empty: "basic a \<Longrightarrow> m [] = None \<Longrightarrow> after a m [] = None"
  by (cases a rule: basic.cases) auto

lemmas stop_defs = sbind_def require_def returned_def value_of_def no_panic_def err_of_def result_or_def expecting_def expectError_def

context kv_iterator
begin

lemma iterate_loop_entries:
  "iterates s i L R \<Longrightarrow> \<exists>i'. iterate_loop I s '''' i es = Some (Inr (es @ R, i')) \<and> fst (i_Close I i') = None"
proof (induction R arbitrary: i es)
  case Nil
  from next_end [OF Nil] show ?case by (subst iterate_loop.simps) (auto simp: stop_defs)
next
  case (Cons e R)
  obtain k v where e: "e = (k, v)" by (cases e)
  from next_entry Cons.prems e obtain i' where i': "i_Next I s i = Some (Inr True, i')"
    "i_Key I i' = Inr k" "i_Value I i' = Inr v" "iterates s i' L R" by blast
  with Cons.IH [of i' "es @ [e]"] e show ?case by (subst iterate_loop.simps) (auto simp: stop_defs)
qed

lemma iterate_loop_error:
  assumes "iterates s i L R" "e \<noteq> ''''"
  shows "if R = [] then \<exists>i'. iterate_loop I s e i es = Some (Inr (es, i')) \<and> fst (i_Close I i') = None
    else iterate_loop I s e i es = Some (Inl Fails)"
proof (cases R)
  case Nil
  with next_end [of s i L] assms(1) show ?thesis by (subst iterate_loop.simps) (auto simp: stop_defs)
next
  case (Cons x R')
  obtain k v where x: "x = (k, v)" by (cases x)
  with next_entry [of s i L k v R'] Cons assms show ?thesis by (subst (2) iterate_loop.simps) (auto simp: stop_defs)
qed

end

context kv_store
begin

lemma execute_basic:
  assumes "basic a" "ok (Suc n) (s_world s)" "view (s_world s) [] = None" "s_Store s = Some h" "st_RW St h (s_Ctx s) = RW"
  shows "\<exists>w. ok n w \<and> view w = after a (view (s_world s)) \<and>
    Execute St a s = (if matches a (view (s_world s)) then Inr (s\<lparr>s_world := w\<rparr>) else Inl Fails)"
proof -
  have ok: "ok n s'" if "ok (Suc n) s'" for s' using ok_less [OF that] by simp
  have act: "active St s = Inr RW" using assms(4,5) by (simp add: active_def stop_defs)
  show ?thesis
    using assms(1)
  proof (cases a rule: basic.cases)
    case (1 k v e)
    with set [OF assms(2), of k v] assms(1) act show ?thesis by (auto simp: Execute_defs stop_defs)
  next
    case (2 k e)
    with delete [OF assms(2), of k] assms(1) act show ?thesis by (auto simp: Execute_defs stop_defs)
  next
    case (3 k v e)
    with get [OF assms(2), of k] assms(1) obtain s' where "rw_Get RW (s_world s) k = Some (found (view (s_world s) (contents k)), s')"
      "ok (Suc n) s'" "view s' = view (s_world s)" by auto
    with 3 act ok [of s'] show ?thesis by (intro exI [of _ s'], cases "view (s_world s) (contents k)") (auto simp: Execute_defs stop_defs)
  next
    case (4 k b e)
    with has [OF assms(2), of k] assms(1) obtain s' where "rw_Has RW (s_world s) k = Some (Inr (view (s_world s) (contents k) \<noteq> None), s')"
      "ok (Suc n) s'" "view s' = view (s_world s)" by auto
    with 4 assms(1) act ok [of s'] show ?thesis
      by (intro exI [of _ s'], cases "view (s_world s) (contents k)") (auto simp: Execute_defs stop_defs)
  next
    case (5 opts L e)
    with assms(1) iterator [OF assms(2), of opts] obtain i s' Es where i: "rw_Iterator RW (s_world s) opts = (Inr i, s')"
      "ok (Suc n) s'" "view s' = view (s_world s)" "iterates s' i Es Es" "lists (view (s_world s)) opts Es" by auto
    note L = lists_iff [OF i(5) assms(3), of L]
    have M: "matches a (view (s_world s)) \<longleftrightarrow> L = Some Es \<and> (e = '''' \<or> Es = [])"
      using L 5 by (cases L) auto
    show ?thesis
    proof (cases "e = ''''")
      case True
      from iterate_loop_entries [OF i(4), of "[]"] obtain i' where "iterate_loop (rw_it RW) s' '''' i [] = Some (Inr (Es, i'))"
        "fst (i_Close (rw_it RW) i') = None" by auto
      then show ?thesis unfolding M using True 5 act i(1-3) ok [OF i(2)] by (intro exI [of _ s']) (simp add: Execute_defs stop_defs)
    next
      case False
      from iterate_loop_error [OF i(4) False, of "[]"] show ?thesis
        unfolding M using False 5 act i(1-3) ok [OF i(2)]
        by (intro exI [of _ s'], cases "Es = []") (auto simp: Execute_defs stop_defs)
    qed
  qed simp_all
qed

lemma execute_decides:
  assumes "list_all basic acts" "ok (n + length acts) (s_world s)" "view (s_world s) [] = None" "s_Store s = Some h" "st_RW St h (s_Ctx s) = RW"
  shows "if all_match acts (view (s_world s)) then \<exists>w. Actions_Execute St acts s = Inr (s\<lparr>s_world := w\<rparr>) \<and> ok n w
    else Actions_Execute St acts s = Inl Fails"
  using assms
proof (induction acts arbitrary: s)
  case (Cons a acts)
  then have a: "basic a" "ok (Suc (n + length acts)) (s_world s)" by auto
  from execute_basic [OF a Cons.prems(3-5)] obtain w where w: "ok (n + length acts) w" "view w = after a (view (s_world s))"
    "Execute St a s = (if matches a (view (s_world s)) then Inr (s\<lparr>s_world := w\<rparr>) else Inl Fails)" by blast
  have "view w [] = None" using after_empty [where m = "view (s_world s)", OF a(1) Cons.prems(3)] w(2) by simp
  with Cons.IH [of "s\<lparr>s_world := w\<rparr>"] Cons.prems(1,4,5) w show ?case
    by (auto simp: Actions_Execute_def sbind_def)
next
  case Nil
  then show ?case by (auto simp: Actions_Execute_def intro!: exI [of _ "s_world s"])
qed

end

lemma seq_append: "seq f (xs @ ys) s = sbind (seq f xs s) (seq f ys)"
  by (induction xs arbitrary: s) (simp_all add: sbind_def split: sum.splits)

text \<open>
  C40.  A test decides whether the store is a map.  With the multiplier of the in-memory store,
  over a store that meets \<open>kv_store\<close> with room for the writes, is empty at first and closes
  without an error, a test of sets, deletes, gets, has and iterations passes exactly when
  every value, error and list of entries it expects is that of the map the writes before it
  make; otherwise it fails, and it always comes to an end.  Keys are not empty, prefixes not
  made of \<^verbatim>\<open>0xff\<close> bytes and ends not empty slices other than nil.  An iteration is expected to
  yield a key equal to its prefix, and values also with \<^verbatim>\<open>KeysOnly\<close>, as the in-memory store
  does against the comments in \<^verbatim>\<open>kv.go\<close>.
\<close>

theorem test_decides:
  assumes "kv_store RW iterates forward seekable ok model"
    and "new_memory St w = (h, w0)" "st_RW St h None = RW" "\<And>w'. ok 0 w' \<Longrightarrow> fst (st_Close St h w') = None"
    and "ok (length acts) w0" "model w0 = Map.empty" "list_all basic acts"
  shows "if all_match acts Map.empty
    then \<exists>s. Test_Execute St (Init availableMultipliers (Some ''memory'') names) [] [] acts w = Inr s
    else Test_Execute St (Init availableMultipliers (Some ''memory'') names) [] [] acts w = Inl Fails"
proof -
  let ?s = "\<lparr>s_world = w0, s_Ctx = None, s_Rootstore = Some h, s_Store = Some h, s_Txns = []\<rparr>"
  have plain: "list_all plain acts" using assms(7) basic_plain by (auto simp: list_all_iff)
  have "Init availableMultipliers (Some ''memory'') names = [\<lparr>mName = ''memory'', mApply = memory_Apply\<rparr>]" by (simp add: named)
  then have run: "Test_Execute St (Init availableMultipliers (Some ''memory'') names) [] [] acts w =
      sbind (Actions_Execute St acts ?s) (close_root St '''')"
    using assembled [OF plain] store_replaced [OF plain, of NewMemoryStore] assms(2)
    by (simp add: Test_Execute_def Skip_def test_actions_def memory_Apply_def Actions_Execute_def seq_append installed_def sbind_def
        split: sum.splits)
  have close: "\<exists>s'. close_root St '''' (?s\<lparr>s_world := w'\<rparr>) = Inr s'" if "ok 0 w'" for w'
    using assms(4) [OF that] by (auto simp: close_root_def stop_defs split: prod.splits)
  have "if all_match acts (model (s_world ?s)) then \<exists>w. Actions_Execute St acts ?s = Inr (?s\<lparr>s_world := w\<rparr>) \<and> ok 0 w
      else Actions_Execute St acts ?s = Inl Fails"
    by (rule kv_store.execute_decides [OF assms(1,7)]) (use assms(3,5,6) in simp_all)
  with assms(6) close run show ?thesis by (auto simp: sbind_def split: if_splits)
qed

text \<open>The in-memory store alone, as the stores of a test.\<close>

definition memory_stores ::
  "('t, dsItem, 'i) btree_ops \<Rightarrow> ('u, dsTxn, 'j) btree_ops \<Rightarrow> (('t, 'u) Datastore \<Rightarrow> time \<times> time) \<Rightarrow>
   (('t, 'u) Datastore, unit, ('t, 'i) iterator) stores" where
  "memory_stores B T clock =
     \<lparr>st_RW = (\<lambda>_ _. mem_RW B T clock), st_Txn = (\<lambda>_. False), st_TxnReaderWriter = (\<lambda>_. False), st_Dropable = (\<lambda>_. True),
      st_Close = (\<lambda>_. Close), st_DropAll = (\<lambda>_. DropAll B), st_NewTxn = (\<lambda>_ _ d. ((), d)), st_Commit = (\<lambda>_ _. None),
      st_Discard = (\<lambda>_ _. None), new_memory = (\<lambda>_. ((), NewDatastore B T)), new_badger = (\<lambda>d. (Inl ErrDBClosed, d)),
      new_level = (\<lambda>d. (Inl ErrDBClosed, d)), ns_Wrap = (\<lambda>_ _. ()), ns_WrapTS = (\<lambda>_ _. ()), ns_WrapTxn = (\<lambda>_ _. ()),
      ch_New = (\<lambda>_ _ _ d. (Inl ErrDBClosed, d)), ch_NewTS = (\<lambda>_ _ _ d. (Inl ErrDBClosed, d)),
      ch_NewTxn = (\<lambda>_ _ _ d. (Inl ErrDBClosed, d)), ctx_cancel = (\<lambda>d. d)\<rparr>"

theorem test_decides_witness:
  "\<exists>s. Test_Execute (memory_stores lB lT (\<lambda>_. (0, 0))) (Init availableMultipliers (Some ''memory'') []) [] []
    [Some (SetValue (Some [1]) (Some [7]) ''''), Some (GetValue (Some [1]) (Some [7]) ''''), Some (DeleteValue (Some [1]) ''''),
     Some (HasValue (Some [1]) False '''')] (NewDatastore lB lT) = Inr s"
proof -
  let ?St = "memory_stores lB lT (\<lambda>_. (0, 0))" and ?d = "NewDatastore lB lT"
  let ?acts = "[Some (SetValue (Some [1]) (Some [7]) ''''), Some (GetValue (Some [1]) (Some [7]) ''''), Some (DeleteValue (Some [1]) ''''),
     Some (HasValue (Some [1]) False '''')]"
  have "new_memory ?St ?d = ((), ?d)" "st_RW ?St () None = mem_RW lB lT (\<lambda>_. (0, 0))" "\<And>w'. fst (st_Close ?St () w') = None"
    by (simp_all add: memory_stores_def Close_def)
  moreover have "mem_ok lI (length ?acts) ?d" by (simp add: run_defs NewDatastore_def)
  moreover have "store_view lI ?d = Map.empty" by (simp add: run_defs NewDatastore_def store_view_def fun_eq_iff)
  moreover have "list_all basic ?acts" "all_match ?acts Map.empty" by simp_all
  ultimately show ?thesis
    using test_decides [OF mem_list_store.kv_store_axioms [of "\<lambda>_. (0, 0)"], of ?St ?d "()" ?d ?acts "[]"] by simp
qed

end
