(* ===== verification/Spec2Isabelle.thy ===== *)
theory Spec2Isabelle
  imports Blockstore_Props Leveldb_Map Mem_Process Mem_Lifecycle Ffi_Props Ffi_ExampleProps Harness_RunProps
begin

text \<open>
  A verification development for corekv, a family of key-value stores in Go behind one
  interface (\<^verbatim>\<open>kv.go\<close>, \<^verbatim>\<open>txn.go\<close>, \<^verbatim>\<open>error.go\<close>): a versioned in-memory store with optimistic
  transactions (\<^verbatim>\<open>memory\<close>), stores over goleveldb and badger (\<^verbatim>\<open>leveldb\<close>, \<^verbatim>\<open>badger\<close>), a store
  over badger behind a C shared library (\<^verbatim>\<open>badger_ffi\<close>), the wrappers \<^verbatim>\<open>namespace\<close> and
  \<^verbatim>\<open>chunk\<close>, and an IPFS block store over any of them (\<^verbatim>\<open>blockstore\<close>).  All paths are below
  \<^verbatim>\<open>src/\<close>.

  \<^bold>\<open>How the code is modelled.\<close>  A Go slice is an optional byte list, because the code tells nil
  from empty; \<^verbatim>\<open>uint64\<close> versions and handles are 64-bit words; errors are values of a
  datatype, a result is \<open>error + 'a\<close>, and a Go panic is an error value of its own.  A method
  takes the state it points to and returns what it changes, its guards in the order of the
  code.  Loops over an iterator are \<open>partial_function (option)\<close>: \<open>None\<close> means that the call does
  not return, and every theorem about such a call proves that it returns.  There is no
  fuel.  A transaction in the context is an argument \<open>ctx\<close>; the clock is an argument \<open>now\<close>.

  Packages the repository only imports are parameters: a record of their operations, and a
  locale with what they document.  \<open>BTree\<close> has the B-tree of tidwall (locale \<open>btree\<close>, interpreted
  on sorted lists), \<open>Leveldb\<close> goleveldb (locales \<open>leveldb\<close>, \<open>leveldb_db\<close>, interpreted on
  tables), \<open>Badger\<close> badger (locales \<open>badger\<close>, \<open>badger_db\<close>, interpreted on tables), \<open>Blockstore\<close> the
  ipfs packages (\<open>cid_laws\<close>).

  \<^bold>\<open>Shared theories.\<close>
  \<^item> \<open>Prelude\<close>, \<open>Bytes\<close>: slices, words, fact collections; \<^verbatim>\<open>bytes.Compare\<close>, \<^verbatim>\<open>bytesPrefixEnd\<close>, \<^verbatim>\<open>lt\<close>, \<^verbatim>\<open>gte\<close>.
  \<^item> \<open>CoreKV\<close>: errors, iterator options and the context functions of the root package.
  \<^item> \<open>Iface\<close>: the interfaces as records of functions, the loop \<open>collect\<close> every consumer of an
    iterator writes, and the contracts \<open>kv_iterator\<close>, \<open>kv_map\<close> and \<open>kv_store\<close>: reads and writes
    of a store are those of a map, and its iterators list the part of the map the options ask
    for, in order, as the in-memory store does it: a key equal to \<^verbatim>\<open>Prefix\<close> is listed, \<^verbatim>\<open>KeysOnly\<close> is
    ignored, both against the comments of \<^verbatim>\<open>kv.go\<close>; a prefix of \<^verbatim>\<open>0xff\<close> bytes and an end that is
    empty but not nil are outside the contract, because the stores mishandle them.
  \<^item> \<open>Pairs\<close>: ordered lists of pairs, shared by the two on-disk stores.

  \<^bold>\<open>The in-memory store\<close> (\<^verbatim>\<open>memory/memory.go\<close>, \<^verbatim>\<open>memory/txn.go\<close>, \<^verbatim>\<open>memory/iter.go\<close>).
  \<^item> \<open>Mem_Item\<close>, \<open>Mem_Store\<close>: rows, their orders, the datastore and every method of it and of
    its transactions, conflict check, commit and cleanup of running transactions included.
  \<^item> \<open>Mem_View\<close>, \<open>Mem_Commit\<close>, \<open>Mem_Txn\<close>: the abstract maps \<open>store_view\<close> and \<open>txn_view\<close>, the
    invariants, and what each method does to them; \<open>Mem_Props\<close>: commits are atomic and never
    based on a stale key, lost updates are refused, snapshots are isolated, transactions read
    their own writes.
  \<^item> \<open>Mem_System\<close>: the store with any number of transactions as a state machine whose calls
    interleave freely; every version stays readable, every call returns, an undisturbed
    transaction commits.
  \<^item> \<open>Mem_Lifecycle\<close>: a closed store keeps its rows and its version and refuses reads, writes,
    commits and iterators, whatever is called before (\<^verbatim>\<open>DropAll\<close> alone ignores that it is closed);
    the methods of a discarded transaction refuse, but for \<^verbatim>\<open>Iterator\<close>.
  \<^item> \<open>Mem_Purge\<close>: the purge of old versions changes no map at or above its version, and how two
    transactions begun at one version defeat its bookkeeping, since they share an entry.
  \<^item> \<open>Mem_Background\<close>, \<open>Mem_Process\<close>: the goroutines of the store (\<^verbatim>\<open>purgeOldVersions\<close>,
    \<^verbatim>\<open>handleContextDone\<close>) beside the calls of \<open>Mem_System\<close>; the purge takes a step per access to
    the shared trees.  In every interleaving its steps change no map the store shows, and none
    recorded at the versions from the purge version on; every reachable state is well formed,
    a cancelled context closes the store, the goroutines end.
  \<^item> \<open>Mem_Iter\<close> and \<open>Mem_Walk\<close>, \<open>Mem_Yield\<close>, \<open>Mem_Seek\<close>, \<open>Mem_IterLaws\<close>: the iterator and the proof
    that it meets \<open>kv_iterator\<close>; \<open>Mem_TxnIter\<close>, \<open>Mem_Merge\<close>: the iterator of a transaction, which
    merges its own rows with the snapshot; \<open>Mem_IterProps\<close>: listing, Reset and Seek, and the
    inputs on which they fail.
  \<^item> \<open>Mem_RW\<close>: the store interprets \<open>kv_store\<close>.

  \<^bold>\<open>Wrappers\<close> over any store that meets \<open>kv_map\<close> or \<open>kv_store\<close>.
  \<^item> \<open>Namespace\<close> (\<^verbatim>\<open>namespace/\<close>): a namespace over a \<open>kv_map\<close> or \<open>kv_store\<close> is one again, on the keys
    below its prefix.
  \<^item> \<open>Chunk\<close>, \<open>Chunk_Laws\<close>, \<open>Chunk_Iter\<close> (\<^verbatim>\<open>chunk/\<close>): values cut into chunks under numbered keys.
  \<^item> \<open>Wrap_Props\<close>: round trips, isolation and iteration of both, for any store that meets the
    contract; the witnesses are over the in-memory store.
  \<^item> \<open>Blockstore\<close>, \<open>Blockstore_Props\<close> (\<^verbatim>\<open>blockstore/\<close>): blocks put are found, hashing on read
    catches corruption, the key channel sends every identifier once.

  \<^bold>\<open>On-disk stores.\<close>
  \<^item> \<open>Leveldb\<close>, \<open>Leveldb_Laws\<close>, \<open>Leveldb_Props\<close> (\<^verbatim>\<open>leveldb/\<close>) and \<open>Badger\<close>, \<open>Badger_Laws\<close>,
    \<open>Badger_Props\<close> (\<^verbatim>\<open>badger/\<close>): every method, and the proof that under the documented behaviour
    of the package their iterators meet \<open>kv_iterator\<close> and list the database.
  \<^item> \<open>Leveldb_Map\<close>, \<open>Badger_Map\<close>: both stores meet \<open>kv_map\<close>, so do namespaces over them, and the
    writes of a transaction are one batch, unseen until it commits.

  \<^bold>\<open>Badger behind a C library\<close> (\<^verbatim>\<open>badger_ffi/\<close>).
  \<^item> \<open>Ffi_Api\<close> (\<^verbatim>\<open>ffi/api.go\<close>), \<open>Ffi_Lib\<close> (\<^verbatim>\<open>ffi/cshared/main.go\<close>: handle tables, a heap of
    objects, the C heap with a count of bad frees, every exported function), \<open>Ffi_Bridge\<close> (\<^verbatim>\<open>ffi_bridge.go\<close>),
    \<open>Ffi_Store\<close> (\<^verbatim>\<open>badger.go\<close>, \<^verbatim>\<open>iter.go\<close>).
  \<^item> \<open>Ffi_Calls\<close>: what one call amounts to, and that it leaves the C heap as it was; \<open>Ffi_Refine\<close>,
    \<open>Ffi_Session\<close>: a simulation between the store over the library and the store of
    \<^verbatim>\<open>badger/badger.go\<close>, call by call; \<open>Ffi_Props\<close>: whole sessions agree, no memory leaks,
    handles are not reused, and what bytes and errors become at the boundary.
  \<^item> \<open>Ffi_Examples\<close>, \<open>Ffi_ExampleProps\<close> (\<^verbatim>\<open>ffi/examples/\<close>): the example programs and the lines they
    print: what one saves the other loads, and a range appears in both directions.

  \<^bold>\<open>The test harness\<close> (\<^verbatim>\<open>test/multiplier\<close>, \<^verbatim>\<open>test/action\<close>, \<^verbatim>\<open>test/integration/test.go\<close>).
  \<^item> \<open>Harness\<close>, \<open>Harness_Props\<close>: the multipliers that rewrite the actions of a test, and what a test
    becomes under them.
  \<^item> \<open>Harness_Run\<close>, \<open>Harness_RunProps\<close>: the execution of the actions over stores as interface values;
    over a \<open>kv_store\<close> a test passes exactly when what it expects is what a map would answer.

  \<^bold>\<open>Bounds.\<close>  Versions and handles are words that wrap around, so theorems about long runs
  assume fewer than 2^64 steps, or, for one call, that the version is not the last word;
  \<open>kv_store\<close> counts the writes a store can still take.  Byte strings cross the C interface
  below 2^31 bytes; \<open>bytes_across\<close> says what happens beyond.

  \<^bold>\<open>Not modelled.\<close>  Mutexes: methods run one at a time, and interleavings are of whole methods
  and of the steps of the purge; \<^verbatim>\<open>NewIPLDStore\<close>, which only wraps a store for a foreign
  package; the test cases themselves.  \<^verbatim>\<open>DropAll\<close> is modelled but is not a step of the
  state machines, since it removes rows that running transactions still read; nor are
  iterators, which have theorems of their own.  Waiting for a lock is therefore not covered by
  any theorem that a call returns.
\<close>

end
